(* ===== verification/Kalpak_Prelude.thy ===== *)
theory Kalpak_Prelude
  imports Main "HOL-Library.Word" "HOL-Library.Finite_Map" "HOL-Library.List_Lexorder"
begin

text \<open>
  The vocabulary the component theories share: the machine integers of the Rust code, byte
  strings and their little-endian integers, the fixed array \<^verbatim>\<open>[u8; 32]\<close> behind every
  identifier, the checked and saturating operations of the standard library, slices, and the
  facts on finite maps (\<^verbatim>\<open>HashMap\<close> and \<^verbatim>\<open>BTreeMap\<close>) that carry the proofs.

  A \<^verbatim>\<open>HashMap\<close> or a \<^verbatim>\<open>BTreeMap\<close> is an \<open>fmap\<close>: its domain is finite by construction, so
  \<open>fmsize\<close> is Rust's \<^verbatim>\<open>len()\<close>.  Where the order of a \<^verbatim>\<open>BTreeMap\<close> matters the model reads
  the keys in ascending order.
\<close>

section \<open>Machine integers and bytes\<close>

type_synonym u8 = "8 word"
type_synonym u32 = "32 word"
type_synonym u64 = "64 word"
type_synonym bytes = "u8 list"

named_theorems codec_simps \<open>lengths and round trips of the byte encodings\<close>
named_theorems fm_simps \<open>sizes and sums over finite maps under an update\<close>

text \<open>\<^verbatim>\<open>u64::checked_add\<close>, \<^verbatim>\<open>checked_sub\<close>, \<^verbatim>\<open>saturating_add\<close> and \<^verbatim>\<open>saturating_sub\<close>.\<close>

definition checked_add :: "'a::len word \<Rightarrow> 'a word \<Rightarrow> 'a word option" where
  "checked_add a b = (if unat a + unat b < 2 ^ LENGTH('a) then Some (a + b) else None)"

definition checked_sub :: "'a::len word \<Rightarrow> 'a word \<Rightarrow> 'a word option" where
  "checked_sub a b = (if b \<le> a then Some (a - b) else None)"

definition saturating_add :: "'a::len word \<Rightarrow> 'a word \<Rightarrow> 'a word" where
  "saturating_add a b = (if unat a + unat b < 2 ^ LENGTH('a) then a + b else - 1)"

definition saturating_sub :: "'a::len word \<Rightarrow> 'a word \<Rightarrow> 'a word" where
  "saturating_sub a b = (if b \<le> a then a - b else 0)"

lemma checked_add_SomeD:
  "checked_add a b = Some c \<Longrightarrow> c = a + b \<and> unat c = unat a + unat b"
  by (auto simp: checked_add_def unat_word_ariths split: if_splits)

lemma unat_lt: "unat w < 2 ^ LENGTH('a)"
  for w :: "'a::len word"
  by simp

lemma unat_add_fits:
  "unat a + unat b < 2 ^ LENGTH('a) \<Longrightarrow> unat (a + b) = unat a + unat b"
  for a b :: "'a::len word"
  by (simp add: unat_word_ariths)

lemma checked_add_le:
  assumes "checked_add a b = Some c"
  shows "a \<le> c" and "b \<le> c"
  using checked_add_SomeD [OF assms] by (auto simp: word_le_nat_alt)

lemma checked_add_sub:
  assumes "checked_add a b = Some c"
  shows "checked_sub c b = Some a"
proof -
  have "c = a + b" and "b \<le> c"
    using checked_add_SomeD [OF assms] checked_add_le [OF assms] by auto
  then show ?thesis
    by (simp add: checked_sub_def)
qed

lemma unat_Suc_fits: "w \<noteq> - 1 \<Longrightarrow> unat w + 1 < 2 ^ LENGTH('a)"
  for w :: "'a::len word"
proof (rule ccontr)
  assume w: "w \<noteq> - 1" and "\<not> unat w + 1 < 2 ^ LENGTH('a)"
  then have "unat w + 1 = 2 ^ LENGTH('a)"
    using unat_lt [of w] by linarith
  then have "(of_nat (unat w + 1) :: 'a word) = of_nat (2 ^ LENGTH('a))"
    by (rule arg_cong)
  then have "w + 1 = 0"
    by (simp add: add.commute)
  with w show False
    by (simp add: eq_neg_iff_add_eq_0)
qed

lemma word_Suc_unat:
  fixes w :: "'a::len word"
  assumes "w \<noteq> - 1"
  shows "unat (w + 1) = Suc (unat w)" and "w < w + 1" and "w + 1 \<noteq> 0"
proof -
  show s: "unat (w + 1) = Suc (unat w)"
    using unat_Suc_fits [OF assms] by (simp add: unat_word_ariths)
  show "w < w + 1"
    by (simp add: word_less_nat_alt s)
  show "w + 1 \<noteq> 0"
    using s by (metis nat.simps(3) unat_0)
qed

lemma saturating_add_1: "w \<noteq> - 1 \<Longrightarrow> saturating_add w 1 = w + 1"
  for w :: "64 word"
  using unat_Suc_fits [of w] by (simp add: saturating_add_def)

lemma saturating_add_1_gt: "w \<noteq> - 1 \<Longrightarrow> w < saturating_add w 1"
  for w :: "64 word"
  by (simp add: saturating_add_1 word_Suc_unat)

lemma saturating_add_ge: "w \<le> saturating_add w v"
  for w :: "'a::len word"
  using unat_add_fits [of w v] word_n1_ge [of w]
  by (auto simp: saturating_add_def word_le_nat_alt)

section \<open>Little-endian integers\<close>

text \<open>\<open>le_bytes n k\<close> is \<open>to_le_bytes\<close> of an \<open>n\<close>-byte integer; \<open>le_nat\<close> reads one back.\<close>

fun le_bytes :: "nat \<Rightarrow> nat \<Rightarrow> bytes" where
  "le_bytes 0 k = []"
| "le_bytes (Suc n) k = of_nat (k mod 256) # le_bytes n (k div 256)"

fun le_nat :: "bytes \<Rightarrow> nat" where
  "le_nat [] = 0"
| "le_nat (b # bs) = unat b + 256 * le_nat bs"

definition u32_le :: "u32 \<Rightarrow> bytes" where
  "u32_le w = le_bytes 4 (unat w)"

definition u64_le :: "u64 \<Rightarrow> bytes" where
  "u64_le w = le_bytes 8 (unat w)"

definition u32_from_le :: "bytes \<Rightarrow> u32" where
  "u32_from_le bs = of_nat (le_nat bs)"

definition u64_from_le :: "bytes \<Rightarrow> u64" where
  "u64_from_le bs = of_nat (le_nat bs)"

lemma length_le_bytes [simp, codec_simps]: "length (le_bytes n k) = n"
  by (induction n arbitrary: k) auto

lemma length_u32_le [simp, codec_simps]: "length (u32_le w) = 4"
  by (simp add: u32_le_def)

lemma length_u64_le [simp, codec_simps]: "length (u64_le w) = 8"
  by (simp add: u64_le_def)

lemma unat_of_nat_byte: "k < 256 \<Longrightarrow> unat (of_nat k :: u8) = k"
  by (simp add: unat_of_nat)

lemma le_nat_le_bytes: "le_nat (le_bytes n k) = k mod 256 ^ n"
proof (induction n arbitrary: k)
  case 0
  then show ?case by simp
next
  case (Suc n)
  have "le_nat (le_bytes (Suc n) k) = k mod 256 + 256 * (k div 256 mod 256 ^ n)"
    by (simp add: Suc.IH unat_of_nat_byte)
  also have "\<dots> = k mod 256 ^ Suc n"
    by (simp add: mod_mult2_eq [of k 256 "256 ^ n"])
  finally show ?case .
qed

lemma u32_from_le_le [simp, codec_simps]: "u32_from_le (u32_le w) = w"
proof -
  have "unat w < 256 ^ 4"
    using unat_lt [of w] by simp
  then show ?thesis
    by (simp add: u32_from_le_def u32_le_def le_nat_le_bytes)
qed

lemma u64_from_le_le [simp, codec_simps]: "u64_from_le (u64_le w) = w"
proof -
  have "unat w < 256 ^ 8"
    using unat_lt [of w] by simp
  then show ?thesis
    by (simp add: u64_from_le_def u64_le_def le_nat_le_bytes)
qed

lemma u32_le_inj [simp]: "u32_le a = u32_le b \<longleftrightarrow> a = b"
  by (metis u32_from_le_le)

lemma u64_le_inj [simp]: "u64_le a = u64_le b \<longleftrightarrow> a = b"
  by (metis u64_from_le_le)

section \<open>Strings\<close>

text \<open>
  A Rust \<^verbatim>\<open>String\<close> is its UTF-8 bytes; a \<open>string\<close> here is that list of bytes, one \<open>char\<close>
  each, so \<open>length\<close> is \<^verbatim>\<open>str::len\<close>.
\<close>

definition str_bytes :: "string \<Rightarrow> bytes" where
  "str_bytes s = map of_char s"

lemma length_str_bytes [simp, codec_simps]: "length (str_bytes s) = length s"
  by (simp add: str_bytes_def)

lemma of_char_u8_inj: "(of_char c :: u8) = of_char d \<longleftrightarrow> c = d"
proof
  assume "(of_char c :: u8) = of_char d"
  then have "(of_nat (of_char c) :: u8) = of_nat (of_char d)"
    by (simp only: of_nat_of_char)
  then have "(of_char c :: nat) mod 2 ^ 8 = of_char d mod 2 ^ 8"
    by (simp add: word_of_nat_eq_iff take_bit_eq_mod)
  moreover have "(of_char c :: nat) < 256" and "(of_char d :: nat) < 256"
    using nat_of_char_less_256 by blast+
  ultimately show "c = d"
    by simp
qed simp

lemma str_bytes_eq_iff [simp]: "str_bytes s = str_bytes t \<longleftrightarrow> s = t"
proof
  assume "str_bytes s = str_bytes t"
  moreover have "inj (of_char :: char \<Rightarrow> u8)"
    by (rule injI) (simp add: of_char_u8_inj)
  ultimately show "s = t"
    unfolding str_bytes_def by (simp add: inj_map_eq_map)
qed simp

section \<open>Slices\<close>

text \<open>\<^verbatim>\<open>buf[a..b]\<close>, for \<open>a \<le> b \<le> length buf\<close>.\<close>

definition slice :: "nat \<Rightarrow> nat \<Rightarrow> 'a list \<Rightarrow> 'a list" where
  "slice a b xs = take (b - a) (drop a xs)"

lemma length_slice: "a \<le> b \<Longrightarrow> b \<le> length xs \<Longrightarrow> length (slice a b xs) = b - a"
  by (simp add: slice_def)

lemma slice_append_mid:
  "length xs = a \<Longrightarrow> length ys = b - a \<Longrightarrow> a \<le> b \<Longrightarrow> slice a b (xs @ ys @ zs) = ys"
  by (simp add: slice_def)

lemma slice_take: "b \<le> n \<Longrightarrow> slice a b (take n xs) = slice a b xs"
  by (simp add: slice_def drop_take min_def)

lemma slice_append_left: "b \<le> length xs \<Longrightarrow> slice a b (xs @ ys) = slice a b xs"
  by (cases "a \<le> b") (simp_all add: slice_def)

lemma slice_cong_take:
  assumes "take n xs = take n ys" and "b \<le> n"
  shows "slice a b xs = slice a b ys"
  by (metis assms slice_take)

section \<open>The fixed array \<^verbatim>\<open>[u8; 32]\<close>\<close>

typedef bytes32 = "{xs :: bytes. length xs = 32}"
  morphisms as_bytes Abs_bytes32
  by (rule exI [of _ "replicate 32 0"]) simp

setup_lifting type_definition_bytes32

text \<open>\<^verbatim>\<open>Vec<u8>::try_into::<[u8; 32]>\<close>.\<close>

definition try_bytes32 :: "bytes \<Rightarrow> bytes32 option" where
  "try_bytes32 xs = (if length xs = 32 then Some (Abs_bytes32 xs) else None)"

lemma length_as_bytes [simp, codec_simps]: "length (as_bytes b) = 32"
  using as_bytes [of b] by simp

lemma as_bytes_eq_iff [simp]: "as_bytes a = as_bytes b \<longleftrightarrow> a = b"
  by (rule as_bytes_inject)

lemma try_bytes32_as_bytes [simp, codec_simps]: "try_bytes32 (as_bytes b) = Some b"
  by (simp add: try_bytes32_def as_bytes_inverse)

lemma try_bytes32_Some_iff: "try_bytes32 xs = Some b \<longleftrightarrow> xs = as_bytes b"
  by (auto simp: try_bytes32_def Abs_bytes32_inverse as_bytes_inverse)

lemma try_bytes32_None_iff: "try_bytes32 xs = None \<longleftrightarrow> length xs \<noteq> 32"
  by (simp add: try_bytes32_def)

text \<open>The derived \<^verbatim>\<open>Ord\<close> of an array is lexicographic.\<close>

instantiation bytes32 :: linorder
begin

definition less_eq_bytes32 :: "bytes32 \<Rightarrow> bytes32 \<Rightarrow> bool" where
  "less_eq_bytes32 a b \<longleftrightarrow> as_bytes a \<le> as_bytes b"

definition less_bytes32 :: "bytes32 \<Rightarrow> bytes32 \<Rightarrow> bool" where
  "less_bytes32 a b \<longleftrightarrow> as_bytes a < as_bytes b"

instance
proof
  fix x y z :: bytes32
  show "x < y \<longleftrightarrow> x \<le> y \<and> \<not> y \<le> x"
    unfolding less_eq_bytes32_def less_bytes32_def by (rule less_le_not_le)
  show "x \<le> x"
    by (simp add: less_eq_bytes32_def)
  show "x \<le> y \<Longrightarrow> y \<le> z \<Longrightarrow> x \<le> z"
    unfolding less_eq_bytes32_def by (rule order_trans)
  show "x \<le> y \<Longrightarrow> y \<le> x \<Longrightarrow> x = y"
    unfolding less_eq_bytes32_def by (metis as_bytes_inject order_antisym)
  show "x \<le> y \<or> y \<le> x"
    unfolding less_eq_bytes32_def by (rule linear)
qed

end

instantiation bytes32 :: equal
begin

definition equal_bytes32 :: "bytes32 \<Rightarrow> bytes32 \<Rightarrow> bool" where
  "equal_bytes32 a b \<longleftrightarrow> as_bytes a = as_bytes b"

instance
  by standard (simp add: equal_bytes32_def)

end

text \<open>The array whose 32 bytes are all \<open>b\<close> (\<^verbatim>\<open>[b; 32]\<close>), for concrete inputs.\<close>

definition fill32 :: "u8 \<Rightarrow> bytes32" where
  "fill32 b = Abs_bytes32 (replicate 32 b)"

lemma as_bytes_fill32: "as_bytes (fill32 b) = replicate 32 b"
  by (simp add: fill32_def Abs_bytes32_inverse)

lemma fill32_eq_iff [simp]: "fill32 a = fill32 b \<longleftrightarrow> a = b"
proof
  assume "fill32 a = fill32 b"
  then have "replicate 32 a = replicate 32 b"
    by (metis as_bytes_fill32)
  then show "a = b"
    by (simp add: replicate_eq_replicate)
qed simp

section \<open>Finite maps\<close>

definition fmsize :: "('k, 'v) fmap \<Rightarrow> nat" where
  "fmsize m = fcard (fmdom m)"

definition fmsum :: "('v \<Rightarrow> nat) \<Rightarrow> ('k, 'v) fmap \<Rightarrow> nat" where
  "fmsum f m = (\<Sum>k\<in>fset (fmdom m). f (the (fmlookup m k)))"

abbreviation contains_key :: "('k, 'v) fmap \<Rightarrow> 'k \<Rightarrow> bool" where
  "contains_key m k \<equiv> fmlookup m k \<noteq> None"

text \<open>\<^verbatim>\<open>map.iter().any(..)\<close> and \<^verbatim>\<open>entry(k).or_insert(v)\<close>.\<close>

definition fmany :: "('k \<Rightarrow> 'v \<Rightarrow> bool) \<Rightarrow> ('k, 'v) fmap \<Rightarrow> bool" where
  "fmany P m \<longleftrightarrow> \<not> fmpred (\<lambda>k v. \<not> P k v) m"

definition or_insert :: "'k \<Rightarrow> 'v \<Rightarrow> ('k, 'v) fmap \<Rightarrow> ('k, 'v) fmap" where
  "or_insert k v m = (case fmlookup m k of None \<Rightarrow> fmupd k v m | Some _ \<Rightarrow> m)"

lemma fmany_iff: "fmany P m \<longleftrightarrow> (\<exists>k v. fmlookup m k = Some v \<and> P k v)"
  by (auto simp: fmany_def fmpred_iff)

lemma fmdom_bex_iff:
  "(\<exists>k\<in>fset (fmdom m). P (the (fmlookup m k))) \<longleftrightarrow> (\<exists>k v. fmlookup m k = Some v \<and> P v)"
  by (metis fmdomE fmdomI option.sel)

lemma fmany_empty [simp]: "\<not> fmany P fmempty"
  by (simp add: fmany_iff)

lemma fmlookup_or_insert:
  "fmlookup (or_insert k v m) k' =
     (if k = k' \<and> fmlookup m k = None then Some v else fmlookup m k')"
  by (auto simp: or_insert_def split: option.splits)

lemma fmsize_empty [simp, fm_simps]: "fmsize fmempty = 0"
  by (simp add: fmsize_def)

lemma fmsize_fmupd [fm_simps]:
  "fmsize (fmupd k v m) = (if fmlookup m k = None then Suc (fmsize m) else fmsize m)"
proof -
  have "k |\<in>| fmdom m \<longleftrightarrow> fmlookup m k \<noteq> None"
    by (auto simp: fmlookup_dom_iff)
  then show ?thesis
    by (simp add: fmsize_def fcard_finsert_if)
qed

lemma fmsize_le_fmupd: "fmsize m \<le> fmsize (fmupd k v m)"
  by (simp add: fmsize_fmupd)

lemma fmsum_empty [simp, fm_simps]: "fmsum f fmempty = 0"
  by (simp add: fmsum_def)

lemma fmsum_fmupd_new [fm_simps]:
  assumes "fmlookup m k = None"
  shows "fmsum f (fmupd k v m) = f v + fmsum f m"
proof -
  have "k \<notin> fset (fmdom m)"
    using assms by (simp add: fmdom_notI)
  then have "(\<Sum>j\<in>fset (fmdom m). f (the (fmlookup (fmupd k v m) j))) = fmsum f m"
    unfolding fmsum_def by (intro sum.cong) auto
  with \<open>k \<notin> fset (fmdom m)\<close> show ?thesis
    by (simp add: fmsum_def)
qed

lemma fmsum_fmupd_old:
  assumes "fmlookup m k = Some u"
  shows "fmsum f (fmupd k v m) + f u = fmsum f m + f v"
proof -
  let ?D = "fset (fmdom m) - {k}"
  have k: "k \<in> fset (fmdom m)"
    using assms by (simp add: fmdomI)
  have D: "insert k (fset (fmdom m)) = insert k ?D"
    by auto
  have "(\<Sum>j\<in>?D. f (the (fmlookup (fmupd k v m) j))) = (\<Sum>j\<in>?D. f (the (fmlookup m j)))"
    by (intro sum.cong) auto
  then have "fmsum f (fmupd k v m) = f v + (\<Sum>j\<in>?D. f (the (fmlookup m j)))"
    by (simp add: fmsum_def D del: insert_Diff_single)
  moreover have "fmsum f m = f u + (\<Sum>j\<in>?D. f (the (fmlookup m j)))"
    using k assms by (simp add: fmsum_def sum.remove)
  ultimately show ?thesis
    by simp
qed

lemma fmsum_fmupd_same:
  "fmlookup m k = Some u \<Longrightarrow> f u = f v \<Longrightarrow> fmsum f (fmupd k v m) = fmsum f m"
  using fmsum_fmupd_old [of m k u f v] by simp

lemma fmsum_member_le: "fmlookup m k = Some v \<Longrightarrow> f v \<le> fmsum f m"
proof -
  assume a: "fmlookup m k = Some v"
  then have "k \<in> fset (fmdom m)"
    by (simp add: fmdomI)
  then have "f (the (fmlookup m k)) \<le> (\<Sum>j\<in>fset (fmdom m). f (the (fmlookup m j)))"
    by (intro member_le_sum) auto
  with a show ?thesis
    by (simp add: fmsum_def)
qed


text \<open>The entries of a \<^verbatim>\<open>BTreeMap\<close> in the order of its iterator: ascending keys.\<close>

definition btree_entries :: "('k::linorder, 'v) fmap \<Rightarrow> ('k \<times> 'v) list" where
  "btree_entries m = map (\<lambda>k. (k, the (fmlookup m k))) (sorted_list_of_fset (fmdom m))"

lemma set_btree_entries: "set (btree_entries m) = {(k, v). fmlookup m k = Some v}"
  by (force simp: btree_entries_def fmlookup_dom_iff)

lemma map_of_btree_entries: "map_of (btree_entries m) = fmlookup m"
proof
  fix k
  have "distinct (map fst (btree_entries m))"
    by (simp add: btree_entries_def comp_def sorted_list_of_fset.rep_eq)
  then show "map_of (btree_entries m) k = fmlookup m k"
    using set_btree_entries [of m]
    by (cases "fmlookup m k") (auto simp: map_of_eq_None_iff image_iff)
qed

lemma sorted_btree_entries: "sorted (map fst (btree_entries m))" "distinct (map fst (btree_entries m))"
  by (simp_all add: btree_entries_def comp_def sorted_list_of_fset.rep_eq)

end
