(* ===== verification/Kalpak_Core.thy ===== *)
theory Kalpak_Core
  imports Kalpak_Prelude
begin

text \<open>
  The crate \<^verbatim>\<open>kalpak-core\<close> without its signing module: block and agent identifiers
  (\<^verbatim>\<open>block.rs\<close>, \<^verbatim>\<open>identity.rs\<close>), the error type (\<^verbatim>\<open>error.rs\<close>) and the chained cache keys
  (\<^verbatim>\<open>cache_key.rs\<close>).

  BLAKE3, the \<^verbatim>\<open>hex\<close> crate and Ed25519 are not part of the repository: the definitions take
  them as arguments.  \<open>H\<close> is the hash of a byte string; a \<^verbatim>\<open>Hasher\<close> fed piece by piece hashes
  the concatenation.  Collision resistance is a hypothesis on the finitely many inputs a theorem
  speaks of (\<open>inj_on H A\<close>), never on all byte strings, which no 32-byte hash satisfies.
\<close>

section \<open>Identifiers and errors\<close>

datatype block_id = BlockId (block_bytes: bytes32)

datatype agent_id = AgentId (agent_bytes: bytes32)

datatype error =
    InvalidId string
  | BlockNotFound block_id
  | Corrupt block_id
  | InvalidAgentKey
  | BadSignature
  | Io string

instantiation block_id :: linorder
begin

definition less_eq_block_id :: "block_id \<Rightarrow> block_id \<Rightarrow> bool" where
  "less_eq_block_id a b \<longleftrightarrow> block_bytes a \<le> block_bytes b"

definition less_block_id :: "block_id \<Rightarrow> block_id \<Rightarrow> bool" where
  "less_block_id a b \<longleftrightarrow> block_bytes a < block_bytes b"

instance
proof
  fix x y z :: block_id
  show "x < y \<longleftrightarrow> x \<le> y \<and> \<not> y \<le> x"
    unfolding less_eq_block_id_def less_block_id_def by (rule less_le_not_le)
  show "x \<le> x"
    by (simp add: less_eq_block_id_def)
  show "x \<le> y \<Longrightarrow> y \<le> z \<Longrightarrow> x \<le> z"
    unfolding less_eq_block_id_def by (rule order_trans)
  show "x \<le> y \<Longrightarrow> y \<le> x \<Longrightarrow> x = y"
    unfolding less_eq_block_id_def by (metis block_id.expand order_antisym)
  show "x \<le> y \<or> y \<le> x"
    unfolding less_eq_block_id_def by (rule linear)
qed

end

definition block_id_of :: "(bytes \<Rightarrow> bytes32) \<Rightarrow> bytes \<Rightarrow> block_id" where
  "block_id_of H bs = BlockId (H bs)"

definition verify :: "(bytes \<Rightarrow> bytes32) \<Rightarrow> block_id \<Rightarrow> bytes \<Rightarrow> bool" where
  "verify H i bs \<longleftrightarrow> block_id_of H bs = i"

text \<open>\<^verbatim>\<open>Display\<close> and \<^verbatim>\<open>FromStr\<close>, over the crate's \<^verbatim>\<open>hex::encode\<close> and \<^verbatim>\<open>hex::decode\<close>.\<close>

definition block_id_to_string :: "(bytes \<Rightarrow> string) \<Rightarrow> block_id \<Rightarrow> string" where
  "block_id_to_string hex_encode i = hex_encode (as_bytes (block_bytes i))"

definition block_id_from_str :: "(string \<Rightarrow> bytes option) \<Rightarrow> string \<Rightarrow> error + block_id" where
  "block_id_from_str hex_decode s =
     (case hex_decode s of
        None \<Rightarrow> Inl (InvalidId s)
      | Some raw \<Rightarrow>
          (case try_bytes32 raw of
             None \<Rightarrow> Inl (InvalidId s)
           | Some arr \<Rightarrow> Inr (BlockId arr)))"

definition agent_id_to_string :: "(bytes \<Rightarrow> string) \<Rightarrow> agent_id \<Rightarrow> string" where
  "agent_id_to_string hex_encode a = hex_encode (as_bytes (agent_bytes a))"

definition agent_id_from_str :: "(string \<Rightarrow> bytes option) \<Rightarrow> string \<Rightarrow> error + agent_id" where
  "agent_id_from_str hex_decode s =
     (case hex_decode s of
        None \<Rightarrow> Inl (InvalidId s)
      | Some raw \<Rightarrow>
          (case try_bytes32 raw of
             None \<Rightarrow> Inl (InvalidId s)
           | Some arr \<Rightarrow> Inr (AgentId arr)))"

text \<open>
  \<^verbatim>\<open>AgentId::verify\<close>.  \<open>vk_from_bytes\<close> is \<^verbatim>\<open>VerifyingKey::from_bytes\<close> (it fails on bytes that
  are no curve point) and \<open>vk_verify\<close> is \<^verbatim>\<open>VerifyingKey::verify\<close>.
\<close>

definition agent_verify ::
  "(bytes32 \<Rightarrow> 'vk option) \<Rightarrow> ('vk \<Rightarrow> bytes \<Rightarrow> 'sig \<Rightarrow> bool)
     \<Rightarrow> agent_id \<Rightarrow> bytes \<Rightarrow> 'sig \<Rightarrow> error + unit" where
  "agent_verify vk_from_bytes vk_verify a msg sig =
     (case vk_from_bytes (agent_bytes a) of
        None \<Rightarrow> Inl InvalidAgentKey
      | Some key \<Rightarrow> if vk_verify key msg sig then Inr () else Inl BadSignature)"

section \<open>Cache keys\<close>

record model_fingerprint =
  model_id :: string
  tokenizer_hash :: string
  kv_layout :: string

record cache_key =
  fingerprint :: model_fingerprint
  prefix_hash :: block_id

definition hash_tokens ::
  "(bytes \<Rightarrow> bytes32) \<Rightarrow> block_id option \<Rightarrow> u32 list \<Rightarrow> block_id" where
  "hash_tokens H parent tokens =
     BlockId (H ((case parent of None \<Rightarrow> [] | Some p \<Rightarrow> as_bytes (block_bytes p))
                 @ concat (map u32_le tokens)))"

definition cache_key_root ::
  "(bytes \<Rightarrow> bytes32) \<Rightarrow> model_fingerprint \<Rightarrow> u32 list \<Rightarrow> cache_key" where
  "cache_key_root H fp tokens = \<lparr>fingerprint = fp, prefix_hash = hash_tokens H None tokens\<rparr>"

definition cache_key_extend ::
  "(bytes \<Rightarrow> bytes32) \<Rightarrow> cache_key \<Rightarrow> u32 list \<Rightarrow> cache_key" where
  "cache_key_extend H k tokens =
     \<lparr>fingerprint = fingerprint k,
      prefix_hash = hash_tokens H (Some (prefix_hash k)) tokens\<rparr>"

text \<open>
  A client chains one key per chunk of its token stream: the first chunk is a root, every
  further chunk extends the key before it (\<open>k0 = root fp c0\<close>, \<open>k1 = k0.extend c1\<close>, \<open>\<dots>\<close>).
  \<open>chain_inputs\<close> are the byte strings hashed on the way.
\<close>

fun chain_from :: "(bytes \<Rightarrow> bytes32) \<Rightarrow> cache_key \<Rightarrow> u32 list list \<Rightarrow> cache_key" where
  "chain_from H k [] = k"
| "chain_from H k (c # cs) = chain_from H (cache_key_extend H k c) cs"

definition chain_key ::
  "(bytes \<Rightarrow> bytes32) \<Rightarrow> model_fingerprint \<Rightarrow> u32 list \<Rightarrow> u32 list list \<Rightarrow> cache_key" where
  "chain_key H fp c cs = chain_from H (cache_key_root H fp c) cs"

fun extend_inputs :: "(bytes \<Rightarrow> bytes32) \<Rightarrow> cache_key \<Rightarrow> u32 list list \<Rightarrow> bytes set" where
  "extend_inputs H k [] = {}"
| "extend_inputs H k (c # cs) =
     insert (as_bytes (block_bytes (prefix_hash k)) @ concat (map u32_le c))
       (extend_inputs H (cache_key_extend H k c) cs)"

definition chain_inputs ::
  "(bytes \<Rightarrow> bytes32) \<Rightarrow> model_fingerprint \<Rightarrow> u32 list \<Rightarrow> u32 list list \<Rightarrow> bytes set" where
  "chain_inputs H fp c cs =
     insert (concat (map u32_le c)) (extend_inputs H (cache_key_root H fp c) cs)"

section \<open>Lemmas\<close>

lemma verify_iff: "verify H i bs \<longleftrightarrow> i = block_id_of H bs"
  by (auto simp: verify_def)

lemma block_id_of_eq_iff: "block_id_of H a = block_id_of H b \<longleftrightarrow> H a = H b"
  by (simp add: block_id_of_def)

lemma length_concat_u32_le: "length (concat (map u32_le ts)) = 4 * length ts"
  by (induction ts) auto

lemma concat_u32_le_inj: "concat (map u32_le a) = concat (map u32_le b) \<longleftrightarrow> a = b"
proof
  assume eq: "concat (map u32_le a) = concat (map u32_le b)"
  then have "length a = length b"
    using length_concat_u32_le [of a] length_concat_u32_le [of b] by simp
  then show "a = b"
    using eq by (induction a b rule: list_induct2) auto
qed simp

text \<open>Every 4-byte multiple is the encoding of some tokens.\<close>

lemma le_bytes_le_nat: "le_bytes (length bs) (le_nat bs) = bs"
proof (induction bs)
  case Nil
  then show ?case by simp
next
  case (Cons b bs)
  have "unat b < 256"
    using unat_lt [of b] by simp
  then have "(unat b + 256 * le_nat bs) mod 256 = unat b"
    and "(unat b + 256 * le_nat bs) div 256 = le_nat bs"
    by simp_all
  with Cons.IH show ?case
    by simp
qed

lemma u32_le_from_le:
  assumes "length bs = 4"
  shows "u32_le (u32_from_le bs) = bs"
proof -
  have "le_nat bs = le_nat (le_bytes 4 (le_nat bs))"
    using le_bytes_le_nat [of bs] assms by simp
  also have "\<dots> < 256 ^ 4"
    by (simp add: le_nat_le_bytes)
  finally have "unat (u32_from_le bs) = le_nat bs"
    by (simp add: u32_from_le_def unat_of_nat)
  then show ?thesis
    using le_bytes_le_nat [of bs] assms by (simp add: u32_le_def)
qed

lemma bytes_as_tokens:
  assumes "length bs = 4 * n"
  obtains ts where "length ts = n" and "concat (map u32_le ts) = bs"
  using assms
proof (induction n arbitrary: bs thesis)
  case 0
  then show ?case
    by (metis concat.simps(1) length_0_conv list.simps(8) mult_0_right)
next
  case (Suc n)
  have "length (drop 4 bs) = 4 * n"
    using Suc.prems(2) by simp
  then obtain ts where ts: "length ts = n" "concat (map u32_le ts) = drop 4 bs"
    using Suc.IH by blast
  have "length (take 4 bs) = 4"
    using Suc.prems(2) by simp
  then have "concat (map u32_le (u32_from_le (take 4 bs) # ts)) = bs"
    using ts(2) by (simp add: u32_le_from_le)
  then show ?case
    using Suc.prems(1) [of "u32_from_le (take 4 bs) # ts"] ts(1) by simp
qed

lemma chain_from_fingerprint: "fingerprint (chain_from H k cs) = fingerprint k"
  by (induction cs arbitrary: k) (auto simp: cache_key_extend_def)

lemma chain_from_inj:
  assumes "chain_from H k cs = chain_from H k' ds" and "length cs = length ds"
    and "inj_on H (extend_inputs H k cs \<union> extend_inputs H k' ds)"
  shows "k = k' \<and> cs = ds"
  using assms
proof (induction cs arbitrary: k k' ds)
  case Nil
  then show ?case by simp
next
  case (Cons c cs)
  then obtain d ds' where ds: "ds = d # ds'"
    by (cases ds) auto
  let ?i = "as_bytes (block_bytes (prefix_hash k)) @ concat (map u32_le c)"
  let ?j = "as_bytes (block_bytes (prefix_hash k')) @ concat (map u32_le d)"
  have "inj_on H (extend_inputs H (cache_key_extend H k c) cs
                   \<union> extend_inputs H (cache_key_extend H k' d) ds')"
    using Cons.prems(3) ds by (auto intro: inj_on_subset)
  with Cons.IH [of "cache_key_extend H k c" "cache_key_extend H k' d" ds'] Cons.prems ds
  have ext: "cache_key_extend H k c = cache_key_extend H k' d" and rest: "cs = ds'"
    by simp_all
  from ext have fp: "fingerprint k = fingerprint k'" and "H ?i = H ?j"
    by (simp_all add: cache_key_extend_def hash_tokens_def)
  moreover have "?i \<in> extend_inputs H k (c # cs) \<union> extend_inputs H k' ds"
    and "?j \<in> extend_inputs H k (c # cs) \<union> extend_inputs H k' ds"
    using ds by simp_all
  ultimately have "?i = ?j"
    using Cons.prems(3) by (meson inj_onD)
  then have "block_bytes (prefix_hash k) = block_bytes (prefix_hash k')" and "c = d"
    by (simp_all add: concat_u32_le_inj)
  then have "prefix_hash k = prefix_hash k'"
    by (metis block_id.expand)
  with fp \<open>c = d\<close> rest ds show ?case
    by simp
qed


section \<open>Properties\<close>

text \<open>
  C6.  Chained keys identify a prefix: when the hash has no collision among the byte strings two
  chains of the same number of chunks feed it, the two chains end in the same key iff they have
  the same fingerprint and the same chunks at every depth.
\<close>

theorem chain_key_identifies_prefix:
  assumes "length cs = length ds"
    and "inj_on H (chain_inputs H fp c cs \<union> chain_inputs H fp' d ds)"
  shows "chain_key H fp c cs = chain_key H fp' d ds \<longleftrightarrow> fp = fp' \<and> c = d \<and> cs = ds"
proof
  assume eq: "chain_key H fp c cs = chain_key H fp' d ds"
  have "inj_on H (extend_inputs H (cache_key_root H fp c) cs
                   \<union> extend_inputs H (cache_key_root H fp' d) ds)"
    using assms(2) by (rule inj_on_subset) (auto simp: chain_inputs_def)
  with eq assms(1) have root: "cache_key_root H fp c = cache_key_root H fp' d" and "cs = ds"
    using chain_from_inj by (auto simp: chain_key_def)
  from root have "fp = fp'" and "H (concat (map u32_le c)) = H (concat (map u32_le d))"
    by (simp_all add: cache_key_root_def hash_tokens_def)
  moreover from this have "concat (map u32_le c) = concat (map u32_le d)"
    by (intro inj_onD [OF assms(2)]) (simp_all add: chain_inputs_def)
  ultimately show "fp = fp' \<and> c = d \<and> cs = ds"
    using \<open>cs = ds\<close> by (simp add: concat_u32_le_inj)
qed simp

text \<open>A hash for concrete inputs: collision-free on byte strings of different lengths below 256.\<close>

definition length_hash :: "bytes \<Rightarrow> bytes32" where
  "length_hash bs = fill32 (of_nat (length bs))"

definition example_fingerprint :: model_fingerprint where
  "example_fingerprint = \<lparr>model_id = ''m'', tokenizer_hash = ''t'', kv_layout = ''l''\<rparr>"

theorem chain_key_identifies_prefix_witness:
  "chain_key length_hash example_fingerprint [1] [[2]]
     \<noteq> chain_key length_hash example_fingerprint [1] [[2, 3]]"
proof -
  have "inj_on length_hash (chain_inputs length_hash example_fingerprint [1] [[2]]
                            \<union> chain_inputs length_hash example_fingerprint [1] [[2, 3]])"
    by (auto simp: inj_on_def chain_inputs_def cache_key_root_def hash_tokens_def length_hash_def)
  then show ?thesis
    using chain_key_identifies_prefix
      [of "[[2]]" "[[2, 3]]" length_hash example_fingerprint "[1]" example_fingerprint "[1]"]
    by simp
qed

text \<open>
  A chained key is not separated from a root key: for every key and every extension there is
  a root token sequence (the parent's hash read as eight token ids, then the tokens) with the very
  same cache key, whatever the hash function is.
\<close>

theorem extend_is_a_root:
  "\<exists>ts. length ts = 8 + length tokens
      \<and> cache_key_root H (fingerprint k) ts = cache_key_extend H k tokens"
proof -
  have "length (as_bytes (block_bytes (prefix_hash k))) = 4 * 8"
    by simp
  then obtain ps where ps: "length ps = 8"
    "concat (map u32_le ps) = as_bytes (block_bytes (prefix_hash k))"
    by (rule bytes_as_tokens)
  have "cache_key_root H (fingerprint k) (ps @ tokens) = cache_key_extend H k tokens"
    by (simp add: cache_key_root_def cache_key_extend_def hash_tokens_def ps(2))
  with ps(1) show ?thesis
    by (intro exI [of _ "ps @ tokens"]) simp
qed

text \<open>
  Identifiers survive their text form: given that \<^verbatim>\<open>hex::decode\<close> inverts \<^verbatim>\<open>hex::encode\<close>,
  parsing a printed block or agent identifier gives the identifier back, and a decoded string is
  accepted iff it has 32 bytes.
\<close>

theorem id_text_roundtrip:
  assumes hex: "\<And>bs. hex_decode (hex_encode bs) = Some bs"
  shows "block_id_from_str hex_decode (block_id_to_string hex_encode i) = Inr i
    \<and> agent_id_from_str hex_decode (agent_id_to_string hex_encode a) = Inr a
    \<and> (isl (block_id_from_str hex_decode (hex_encode bs)) \<longleftrightarrow> length bs \<noteq> 32)"
proof -
  have "isl (block_id_from_str hex_decode (hex_encode bs)) \<longleftrightarrow> length bs \<noteq> 32"
    by (simp add: block_id_from_str_def hex try_bytes32_def)
  then show ?thesis
    by (simp add: block_id_from_str_def agent_id_from_str_def block_id_to_string_def
        agent_id_to_string_def hex)
qed

text \<open>A hex codec for concrete inputs: two digits a byte, read back pairwise.\<close>

definition hex_digit :: "nat \<Rightarrow> char" where
  "hex_digit n = (''0123456789abcdef'' ! (n mod 16))"

definition hex_value :: "char \<Rightarrow> nat option" where
  "hex_value c = map_of (zip ''0123456789abcdef'' [0..<16]) c"

definition simple_hex_encode :: "bytes \<Rightarrow> string" where
  "simple_hex_encode bs = concat (map (\<lambda>b. [hex_digit (unat b div 16), hex_digit (unat b)]) bs)"

fun simple_hex_decode :: "string \<Rightarrow> bytes option" where
  "simple_hex_decode [] = Some []"
| "simple_hex_decode [c] = None"
| "simple_hex_decode (c # d # s) =
     (case (hex_value c, hex_value d, simple_hex_decode s) of
        (Some h, Some l, Some bs) \<Rightarrow> Some (of_nat (16 * h + l) # bs)
      | _ \<Rightarrow> None)"

lemma hex_value_digit: "hex_value (hex_digit n) = Some (n mod 16)"
proof -
  have "\<forall>m\<in>set [0..<16]. hex_value (''0123456789abcdef'' ! m) = Some m"
    by (simp add: upt_rec hex_value_def)
  then show ?thesis
    by (simp add: hex_digit_def)
qed

lemma simple_hex_roundtrip: "simple_hex_decode (simple_hex_encode bs) = Some bs"
proof (induction bs)
  case Nil
  then show ?case by (simp add: simple_hex_encode_def)
next
  case (Cons b bs)
  have "unat b < 256"
    using unat_lt [of b] by simp
  then have "unat b div 16 mod 16 = unat b div 16"
    by simp
  then have "(of_nat (16 * (unat b div 16 mod 16) + unat b mod 16) :: u8) = b"
    by (simp only: mult_div_mod_eq) simp
  with Cons show ?case
    by (simp add: simple_hex_encode_def hex_value_digit)
qed

theorem id_text_roundtrip_witness:
  "block_id_from_str simple_hex_decode
     (block_id_to_string simple_hex_encode (BlockId (fill32 171))) = Inr (BlockId (fill32 171))
   \<and> isl (block_id_from_str simple_hex_decode (simple_hex_encode [1, 2]))"
  using id_text_roundtrip [of simple_hex_decode simple_hex_encode "BlockId (fill32 171)" _ "[1, 2]",
      OF simple_hex_roundtrip] by simp

end
