(* ===== verification/Metadata_Types.thy ===== *)
theory Metadata_Types
  imports Kalpak_Core
begin

text \<open>
  The data the control plane replicates: the requests and responses of
  \<^verbatim>\<open>kalpak-control/src/types.rs\<close>, the lease records of \<^verbatim>\<open>leases.rs\<close> and the metadata state of
  \<^verbatim>\<open>state_machine.rs\<close>.  \<^verbatim>\<open>u64\<close> and \<^verbatim>\<open>u32\<close> fields keep their width; \<^verbatim>\<open>usize\<close> counts of a
  collection are \<open>nat\<close>.

  \<open>log_id\<close>, \<open>stored_membership\<close> and \<open>entry_payload\<close> are the data types of the consensus library that
  the store keeps and compares; their fields are the documented ones.

  Bindings are stored under the JSON text of their cache key.  The text is produced by
  \<^verbatim>\<open>serde_json\<close>, so every operation takes it as the argument \<open>bk\<close>; where a theorem needs two
  different keys to have different texts it says \<open>inj bk\<close>.
\<close>

section \<open>Log positions and membership\<close>

record log_id =
  leader_round :: u64
  leader_node :: u64
  log_index :: u64

record basic_membership =
  configs :: "u64 list list"
  nodes :: "(u64 \<times> string) list"

record stored_membership =
  membership_log_id :: "log_id option"
  membership_config :: basic_membership

section \<open>Requests and responses\<close>

record chain_binding =
  cb_key :: cache_key
  cb_blocks :: "block_id list"
  cb_parent :: "cache_key option"

datatype request =
    RequireReplicas "block_id list" nat
  | RegisterAgent agent_id string
  | BindPrefix agent_id cache_key "block_id list" "cache_key option"
  | BindChain agent_id "chain_binding list"
  | BeginUploadLease block_id agent_id "block_id list"
  | CommitUploadLease block_id agent_id chain_binding u64
  | CancelUploadLease block_id agent_id
  | RenewUploadLease block_id agent_id u64 u64
  | AdvanceLeaseClock u64
  | ExpireUploadLease block_id u64 u64

datatype response =
    ReplicasRequired
  | Rejected string
  | Registered
  | Bound
  | LeaseReserved
  | LeaseCancelled
  | LeaseRenewed u64 u64
  | LeaseClockAdvanced
  | LeaseExpired

fun is_rejected :: "response \<Rightarrow> bool" where
  "is_rejected (Rejected _) = True"
| "is_rejected _ = False"

datatype entry_payload =
    Blank
  | Normal request
  | Membership basic_membership

record entry =
  entry_log_id :: log_id
  payload :: entry_payload

section \<open>The replicated state\<close>

record lease_deadline =
  generation :: u64
  deadline_tick :: u64
  ttl_ticks :: u64

record lease_commit =
  commit_binding :: chain_binding
  commit_revision :: u64

record upload_lease =
  lease_agent :: agent_id
  lease_blocks :: "block_id list"
  created_at :: u64
  committed :: "lease_commit option"

record lease_state =
  initialized :: bool
  records :: "(block_id, upload_lease) fmap"
  revisions :: "(string, u64) fmap"
  cancelled :: "(block_id, u64) fmap"
  clock :: u64
  deadlines :: "(block_id, lease_deadline) fmap"
  expired :: "(block_id, u64) fmap"

record agent_record =
  display_name :: string
  registered_at :: u64

record binding_record =
  binding_agent :: agent_id
  binding_blocks :: "block_id list"

record metadata_state =
  block_fences :: "(block_id, u64) fmap"
  leases :: lease_state
  replica_requirements :: "(block_id, nat) fmap"
  agents :: "(agent_id, agent_record) fmap"
  bindings :: "(string, binding_record) fmap"
  children :: "(string, string list) fmap"
  block_refs :: "(block_id, u32) fmap"
  last_applied :: "log_id option"
  membership :: stored_membership

text \<open>The derived \<^verbatim>\<open>Default\<close> of the lease state and of the metadata state.\<close>

definition default_leases :: lease_state where
  "default_leases =
     \<lparr>initialized = False, records = fmempty, revisions = fmempty, cancelled = fmempty,
      clock = 0, deadlines = fmempty, expired = fmempty\<rparr>"

definition default_membership :: stored_membership where
  "default_membership = \<lparr>membership_log_id = None, membership_config = \<lparr>configs = [], nodes = []\<rparr>\<rparr>"

definition default_state :: metadata_state where
  "default_state =
     \<lparr>block_fences = fmempty, leases = default_leases, replica_requirements = fmempty,
      agents = fmempty, bindings = fmempty, children = fmempty, block_refs = fmempty,
      last_applied = None, membership = default_membership\<rparr>"

text \<open>\<^verbatim>\<open>state.last_applied.map(|id| id.index).unwrap_or(0)\<close>\<close>

definition applied_index :: "metadata_state \<Rightarrow> u64" where
  "applied_index s = (case last_applied s of None \<Rightarrow> 0 | Some l \<Rightarrow> log_index l)"

lemma applied_index_cong: "last_applied s = last_applied t \<Longrightarrow> applied_index s = applied_index t"
  by (simp add: applied_index_def)

end
