(* ===== verification/Leases.thy ===== *)
theory Leases
  imports Metadata_Types
begin

text \<open>
  \<^verbatim>\<open>kalpak-control/src/leases.rs\<close>: upload leases.  A lease reserves block hashes for an agent,
  is committed at most once into a binding under an expected revision, or is cancelled, or expires
  at a logical tick.  Every operation is a function from the metadata state to the next state and
  the response, with the early returns of the code in the code's order.
\<close>

section \<open>Limits and validation\<close>

definition MAX_LEASES :: nat where "MAX_LEASES = 4096"
definition MAX_LEASE_BLOCKS :: nat where "MAX_LEASE_BLOCKS = 256"
definition MAX_RESERVED_BLOCKS :: nat where "MAX_RESERVED_BLOCKS = 65536"
definition MAX_TTL_TICKS :: u64 where "MAX_TTL_TICKS = 86400"

lemmas lease_limits = MAX_LEASES_def MAX_LEASE_BLOCKS_def MAX_RESERVED_BLOCKS_def MAX_TTL_TICKS_def

definition valid_key :: "cache_key \<Rightarrow> bool" where
  "valid_key k \<longleftrightarrow>
     list_all (\<lambda>v. length v \<le> 1024)
       [model_id (fingerprint k), tokenizer_hash (fingerprint k), kv_layout (fingerprint k)]"

definition valid_binding :: "chain_binding \<Rightarrow> bool" where
  "valid_binding b \<longleftrightarrow>
     valid_key (cb_key b)
     \<and> (case cb_parent b of
          None \<Rightarrow> True
        | Some p \<Rightarrow> valid_key p \<and> fingerprint p = fingerprint (cb_key b))"

definition bad_deadline :: "lease_state \<Rightarrow> block_id \<Rightarrow> lease_deadline \<Rightarrow> bool" where
  "bad_deadline L i d \<longleftrightarrow>
     \<not> contains_key (records L) i
     \<or> generation d = 0
     \<or> \<not> (1 \<le> ttl_ticks d \<and> ttl_ticks d \<le> MAX_TTL_TICKS)
     \<or> (case checked_sub (deadline_tick d) (ttl_ticks d) of
          None \<Rightarrow> True
        | Some issued \<Rightarrow> clock L < issued)"

definition bad_expired :: "lease_state \<Rightarrow> block_id \<Rightarrow> bool" where
  "bad_expired L i \<longleftrightarrow>
     (case fmlookup (records L) i of None \<Rightarrow> True | Some l \<Rightarrow> committed l \<noteq> None)
     \<or> contains_key (cancelled L) i
     \<or> (case fmlookup (deadlines L) i of None \<Rightarrow> True | Some d \<Rightarrow> clock L < deadline_tick d)"

definition bad_cancelled :: "lease_state \<Rightarrow> block_id \<Rightarrow> bool" where
  "bad_cancelled L i \<longleftrightarrow>
     (case fmlookup (records L) i of None \<Rightarrow> True | Some l \<Rightarrow> committed l \<noteq> None)"

definition bad_record :: "(cache_key \<Rightarrow> string) \<Rightarrow> lease_state \<Rightarrow> upload_lease \<Rightarrow> bool" where
  "bad_record bk L l \<longleftrightarrow>
     lease_blocks l = []
     \<or> MAX_LEASE_BLOCKS < length (lease_blocks l)
     \<or> (case committed l of
          None \<Rightarrow> False
        | Some c \<Rightarrow>
            \<not> valid_binding (commit_binding c)
            \<or> cb_blocks (commit_binding c) \<noteq> lease_blocks l
            \<or> \<not> contains_key (revisions L) (bk (cb_key (commit_binding c))))"

definition reserved_blocks :: "lease_state \<Rightarrow> nat" where
  "reserved_blocks L = fmsum (\<lambda>l. length (lease_blocks l)) (records L)"

definition validate :: "(cache_key \<Rightarrow> string) \<Rightarrow> lease_state \<Rightarrow> string + unit" where
  "validate bk L =
     (if MAX_LEASES < fmsize (records L)
       \<or> fmany (bad_deadline L) (deadlines L)
       \<or> fmany (\<lambda>i _. bad_expired L i) (expired L)
       \<or> fmany (\<lambda>i _. bad_cancelled L i) (cancelled L)
       \<or> (\<not> initialized L \<and> (records L \<noteq> fmempty \<or> revisions L \<noteq> fmempty))
       \<or> MAX_RESERVED_BLOCKS < reserved_blocks L
       \<or> fmany (\<lambda>_ l. bad_record bk L l) (records L)
      then Inl ''invalid upload lease snapshot''
      else Inr ())"

section \<open>Operations\<close>

definition is_expired :: "lease_state \<Rightarrow> block_id \<Rightarrow> bool" where
  "is_expired L i \<longleftrightarrow>
     (case fmlookup (records L) i of None \<Rightarrow> False | Some l \<Rightarrow> committed l = None)
     \<and> \<not> contains_key (cancelled L) i
     \<and> (contains_key (expired L) i
        \<or> (case fmlookup (deadlines L) i of None \<Rightarrow> False | Some d \<Rightarrow> deadline_tick d \<le> clock L))"

text \<open>The first reservation opens the revision fence.\<close>

definition activate :: "metadata_state \<Rightarrow> metadata_state" where
  "activate s =
     (if \<not> initialized (leases s)
      then s\<lparr>leases := (leases s)\<lparr>initialized := True, revisions := fmempty\<rparr>\<rparr>
      else s)"

definition reserve ::
  "metadata_state \<Rightarrow> block_id \<Rightarrow> agent_id \<Rightarrow> block_id list \<Rightarrow> metadata_state \<times> response" where
  "reserve s i a bs =
     (if bs = [] \<or> MAX_LEASE_BLOCKS < length bs \<or> \<not> contains_key (agents s) a
      then (s, Rejected ''lease requires a registered owner and 1..256 block hashes'')
      else
        let s = activate s
        in case fmlookup (records (leases s)) i of
             Some old \<Rightarrow>
               if lease_agent old = a \<and> lease_blocks old = bs
               then if is_expired (leases s) i then (s, Rejected ''upload lease expired'')
                    else if contains_key (cancelled (leases s)) i
                    then (s, Rejected ''upload lease cancelled'')
                    else (s, LeaseReserved)
               else (s, Rejected ''lease ID already belongs to a different reservation'')
           | None \<Rightarrow>
               if MAX_LEASES \<le> fmsize (records (leases s))
                 \<or> MAX_RESERVED_BLOCKS < reserved_blocks (leases s) + length bs
               then (s, Rejected ''replicated upload lease capacity exhausted'')
               else (s\<lparr>leases := (leases s)\<lparr>records :=
                       fmupd i \<lparr>lease_agent = a, lease_blocks = bs, created_at = applied_index s,
                                committed = None\<rparr> (records (leases s))\<rparr>\<rparr>,
                     LeaseReserved))"

text \<open>\<^verbatim>\<open>revisions.get(&key).copied().unwrap_or(0)\<close>\<close>

definition current_revision :: "lease_state \<Rightarrow> string \<Rightarrow> u64" where
  "current_revision L k = (case fmlookup (revisions L) k of None \<Rightarrow> 0 | Some r \<Rightarrow> r)"

definition validate_commit ::
  "(cache_key \<Rightarrow> string) \<Rightarrow> metadata_state \<Rightarrow> block_id \<Rightarrow> agent_id \<Rightarrow> chain_binding \<Rightarrow> u64
     \<Rightarrow> string + bool" where
  "validate_commit bk s i a b expected =
     (if \<not> valid_binding b then Inl ''invalid lease binding fingerprint or parent''
      else case fmlookup (records (leases s)) i of
        None \<Rightarrow> Inl ''unknown upload lease''
      | Some l \<Rightarrow>
          if lease_agent l \<noteq> a \<or> lease_blocks l \<noteq> cb_blocks b
          then Inl ''lease owner or blocks mismatch''
          else if contains_key (cancelled (leases s)) i then Inl ''upload lease cancelled''
          else if is_expired (leases s) i then Inl ''upload lease expired''
          else (case committed l of
            Some old \<Rightarrow>
              if commit_revision old = expected \<and> cb_key (commit_binding old) = cb_key b
                \<and> cb_parent (commit_binding old) = cb_parent b
                \<and> cb_blocks (commit_binding old) = cb_blocks b
              then Inr False
              else Inl ''upload lease already consumed''
          | None \<Rightarrow>
              let k = bk (cb_key b) in
              if (case fmlookup (bindings s) k of None \<Rightarrow> False | Some old \<Rightarrow> binding_agent old \<noteq> a)
              then Inl ''binding belongs to a different agent''
              else
                let current = current_revision (leases s) k in
                if current = - 1 \<or> current \<noteq> expected
                then Inl ''binding revision conflict''
                else Inr True))"

definition cancel :: "metadata_state \<Rightarrow> block_id \<Rightarrow> agent_id \<Rightarrow> metadata_state \<times> response" where
  "cancel s i a =
     (case fmlookup (records (leases s)) i of
        None \<Rightarrow> (s, Rejected ''unknown upload lease'')
      | Some l \<Rightarrow>
          if lease_agent l \<noteq> a then (s, Rejected ''lease owner mismatch'')
          else if committed l \<noteq> None
          then (s, Rejected ''committed upload lease cannot be cancelled'')
          else if is_expired (leases s) i then (s, Rejected ''upload lease expired'')
          else (s\<lparr>leases := (leases s)\<lparr>cancelled :=
                    or_insert i (applied_index s) (cancelled (leases s))\<rparr>\<rparr>,
                LeaseCancelled))"

text \<open>Renewal: an exact retry, the current generation, and a deadline that would not move.\<close>

definition renewal_retry :: "lease_deadline option \<Rightarrow> u64 \<Rightarrow> u64 \<Rightarrow> bool" where
  "renewal_retry old expected ttl \<longleftrightarrow>
     (case old of None \<Rightarrow> False | Some d \<Rightarrow> generation d = expected + 1 \<and> ttl_ticks d = ttl)"

definition current_generation :: "lease_deadline option \<Rightarrow> u64" where
  "current_generation old = (case old of None \<Rightarrow> 0 | Some d \<Rightarrow> generation d)"

definition deadline_kept :: "lease_deadline option \<Rightarrow> u64 \<Rightarrow> bool" where
  "deadline_kept old t \<longleftrightarrow> (case old of None \<Rightarrow> False | Some d \<Rightarrow> t \<le> deadline_tick d)"

definition renew ::
  "metadata_state \<Rightarrow> block_id \<Rightarrow> agent_id \<Rightarrow> u64 \<Rightarrow> u64 \<Rightarrow> metadata_state \<times> response" where
  "renew s i a expected ttl =
     (case fmlookup (records (leases s)) i of
        None \<Rightarrow> (s, Rejected ''unknown upload lease'')
      | Some l \<Rightarrow>
          let old = fmlookup (deadlines (leases s)) i in
          if lease_agent l \<noteq> a \<or> committed l \<noteq> None
            \<or> contains_key (cancelled (leases s)) i \<or> is_expired (leases s) i
          then (s, Rejected ''lease is not pending for this owner'')
          else if \<not> (1 \<le> ttl \<and> ttl \<le> MAX_TTL_TICKS) \<or> expected = - 1
          then (s, Rejected ''invalid TTL or renewal generation'')
          else if renewal_retry old expected ttl
          then (s, LeaseRenewed (generation (the old)) (deadline_tick (the old)))
          else if expected \<noteq> current_generation old
          then (s, Rejected ''lease renewal generation conflict'')
          else case checked_add (clock (leases s)) ttl of
            None \<Rightarrow> (s, Rejected ''lease clock exhausted'')
          | Some deadline \<Rightarrow>
              if deadline_kept old deadline
              then (s, Rejected ''renewal must extend the deadline'')
              else
                let g = current_generation old + 1 in
                (s\<lparr>leases := (leases s)\<lparr>deadlines :=
                    fmupd i \<lparr>generation = g, deadline_tick = deadline, ttl_ticks = ttl\<rparr>
                      (deadlines (leases s))\<rparr>\<rparr>,
                 LeaseRenewed g deadline))"

definition advance :: "metadata_state \<Rightarrow> u64 \<Rightarrow> metadata_state \<times> response" where
  "advance s expected =
     (if expected < clock (leases s) then (s, LeaseClockAdvanced)
      else if expected \<noteq> clock (leases s) then (s, Rejected ''lease clock conflict'')
      else case checked_add expected 1 of
             None \<Rightarrow> (s, Rejected ''lease clock exhausted'')
           | Some n \<Rightarrow> (s\<lparr>leases := (leases s)\<lparr>clock := n\<rparr>\<rparr>, LeaseClockAdvanced))"

definition expire ::
  "metadata_state \<Rightarrow> block_id \<Rightarrow> u64 \<Rightarrow> u64 \<Rightarrow> metadata_state \<times> response" where
  "expire s i g deadline =
     (if \<not> is_expired (leases s) i
       \<or> (case fmlookup (deadlines (leases s)) i of
            None \<Rightarrow> True
          | Some d \<Rightarrow> generation d \<noteq> g \<or> deadline_tick d \<noteq> deadline)
      then (s, Rejected ''stale or premature lease expiry'')
      else (s\<lparr>leases := (leases s)\<lparr>expired :=
                or_insert i (applied_index s) (expired (leases s))\<rparr>\<rparr>,
            LeaseExpired))"

text \<open>The counters of the lease status, in \<^verbatim>\<open>usize\<close> arithmetic.\<close>

record lease_status_counts =
  total_count :: u64
  pending_count :: u64
  committed_count :: u64
  cancelled_count :: u64
  expired_count :: u64
  current_tick :: u64
  expiry_markers :: u64

definition count_keys :: "(block_id \<Rightarrow> upload_lease \<Rightarrow> bool) \<Rightarrow> lease_state \<Rightarrow> nat" where
  "count_keys P L = fcard (ffilter (\<lambda>i. P i (the (fmlookup (records L) i))) (fmdom (records L)))"

definition status_counts :: "lease_state \<Rightarrow> lease_status_counts" where
  "status_counts L =
     (let n = of_nat (fmsize (records L));
          c = of_nat (count_keys (\<lambda>_ l. committed l \<noteq> None) L);
          e = of_nat (count_keys (\<lambda>i _. is_expired L i) L);
          x = of_nat (fmsize (cancelled L))
      in \<lparr>total_count = n, pending_count = n - c - e - x, committed_count = c,
          cancelled_count = x, expired_count = e, current_tick = clock L,
          expiry_markers = of_nat (fmsize (expired L))\<rparr>)"


section \<open>The lease life cycle\<close>

text \<open>
  The specification a lease is meant to follow: it starts absent, is reserved once, and ends
  committed, cancelled or expired.  Of an expired lease the marker in \<open>expired\<close> is only a record;
  the phase is decided by the clock.
\<close>

datatype lease_phase = Absent | Pending | Committed | Cancelled | Expired

definition phase :: "lease_state \<Rightarrow> block_id \<Rightarrow> lease_phase" where
  "phase L i =
     (case fmlookup (records L) i of
        None \<Rightarrow> Absent
      | Some l \<Rightarrow>
          if committed l \<noteq> None then Committed
          else if contains_key (cancelled L) i then Cancelled
          else if is_expired L i then Expired
          else Pending)"

inductive phase_step :: "lease_phase \<Rightarrow> lease_phase \<Rightarrow> bool" where
  stay: "phase_step p p"
| reserved: "phase_step Absent Pending"
| consumed: "phase_step Pending Committed"
| withdrawn: "phase_step Pending Cancelled"
| elapsed: "phase_step Pending Expired"

inductive_simps phase_step_simps [simp]:
  "phase_step Absent q" "phase_step Pending q" "phase_step Committed q" "phase_step Cancelled q"
  "phase_step Expired q"

code_pred phase_step .

section \<open>How each operation changes the state\<close>

lemma activate_simps [simp]:
  "initialized (leases (activate s))"
  "records (leases (activate s)) = records (leases s)"
  "cancelled (leases (activate s)) = cancelled (leases s)"
  "clock (leases (activate s)) = clock (leases s)"
  "deadlines (leases (activate s)) = deadlines (leases s)"
  "expired (leases (activate s)) = expired (leases s)"
  "revisions (leases (activate s)) = (if initialized (leases s) then revisions (leases s) else fmempty)"
  "is_expired (leases (activate s)) i = is_expired (leases s) i"
  "reserved_blocks (leases (activate s)) = reserved_blocks (leases s)"
  "applied_index (activate s) = applied_index s"
  by (simp_all add: activate_def is_expired_def reserved_blocks_def applied_index_def
      cong: option.case_cong)

lemma activate_rest [simp]:
  "block_fences (activate s) = block_fences s"
  "replica_requirements (activate s) = replica_requirements s"
  "agents (activate s) = agents s"
  "bindings (activate s) = bindings s"
  "children (activate s) = children s"
  "block_refs (activate s) = block_refs s"
  "last_applied (activate s) = last_applied s"
  "membership (activate s) = membership s"
  by (simp_all add: activate_def)

lemma reserve_cases:
  assumes "reserve s i a bs = (s', r)"
  obtains (invalid) "s' = s" and "is_rejected r"
  | (known) l where "s' = activate s" and "r = LeaseReserved \<or> is_rejected r"
      and "fmlookup (records (leases s)) i = Some l"
  | (full) "s' = activate s" and "is_rejected r"
      and "MAX_LEASES \<le> fmsize (records (leases s))
           \<or> MAX_RESERVED_BLOCKS < reserved_blocks (leases s) + length bs"
      and "length bs \<le> MAX_LEASE_BLOCKS"
  | (reserved) "r = LeaseReserved" and "bs \<noteq> []" and "length bs \<le> MAX_LEASE_BLOCKS"
      and "contains_key (agents s) a" and "fmlookup (records (leases s)) i = None"
      and "fmsize (records (leases s)) < MAX_LEASES"
      and "reserved_blocks (leases s) + length bs \<le> MAX_RESERVED_BLOCKS"
      and "s' = (activate s)\<lparr>leases := (leases (activate s))\<lparr>records :=
             fmupd i \<lparr>lease_agent = a, lease_blocks = bs, created_at = applied_index s,
               committed = None\<rparr> (records (leases s))\<rparr>\<rparr>"
proof (cases "bs = [] \<or> MAX_LEASE_BLOCKS < length bs \<or> \<not> contains_key (agents s) a")
  case True
  with assms show ?thesis
    by (intro invalid) (auto simp: reserve_def)
next
  case ok: False
  show ?thesis
  proof (cases "fmlookup (records (leases s)) i")
    case None
    with ok assms show ?thesis
      by (cases "MAX_LEASES \<le> fmsize (records (leases s))
           \<or> MAX_RESERVED_BLOCKS < reserved_blocks (leases s) + length bs")
        (auto simp: reserve_def Let_def not_le not_less intro: full reserved)
  next
    case (Some l)
    with ok assms show ?thesis
      by (intro known [of l]) (auto simp: reserve_def Let_def split: if_splits)
  qed
qed

lemma cancel_cases:
  assumes "cancel s i a = (s', r)"
  obtains (unchanged) "s' = s" and "is_rejected r"
  | (cancelled) l where "r = LeaseCancelled" and "fmlookup (records (leases s)) i = Some l"
      and "lease_agent l = a" and "committed l = None" and "\<not> is_expired (leases s) i"
      and "s' = s\<lparr>leases := (leases s)\<lparr>cancelled :=
             or_insert i (applied_index s) (cancelled (leases s))\<rparr>\<rparr>"
  using assms by (auto simp: cancel_def split: if_splits option.splits)

lemma renew_cases:
  assumes "renew s i a expected ttl = (s', r)"
  obtains (rejected) "s' = s" and "is_rejected r"
  | (retried) "s' = s" and "renewal_retry (fmlookup (deadlines (leases s)) i) expected ttl"
      and "r = LeaseRenewed (generation (the (fmlookup (deadlines (leases s)) i)))
                 (deadline_tick (the (fmlookup (deadlines (leases s)) i)))"
  | (renewed) l t where "r = LeaseRenewed (expected + 1) t"
      and "fmlookup (records (leases s)) i = Some l" and "lease_agent l = a" and "committed l = None"
      and "fmlookup (cancelled (leases s)) i = None" and "\<not> is_expired (leases s) i"
      and "1 \<le> ttl" and "ttl \<le> MAX_TTL_TICKS" and "expected \<noteq> - 1"
      and "checked_add (clock (leases s)) ttl = Some t"
      and "expected = current_generation (fmlookup (deadlines (leases s)) i)"
      and "\<not> deadline_kept (fmlookup (deadlines (leases s)) i) t"
      and "s' = s\<lparr>leases := (leases s)\<lparr>deadlines :=
             fmupd i \<lparr>generation = expected + 1, deadline_tick = t, ttl_ticks = ttl\<rparr>
               (deadlines (leases s))\<rparr>\<rparr>"
proof (cases "fmlookup (records (leases s)) i")
  case None
  with assms show ?thesis
    by (intro rejected) (auto simp: renew_def)
next
  case rec: (Some l)
  let ?old = "fmlookup (deadlines (leases s)) i"
  let ?pending = "lease_agent l = a \<and> committed l = None \<and> fmlookup (cancelled (leases s)) i = None
      \<and> \<not> is_expired (leases s) i \<and> 1 \<le> ttl \<and> ttl \<le> MAX_TTL_TICKS \<and> expected \<noteq> - 1"
  show ?thesis
  proof (cases "?pending \<and> (renewal_retry ?old expected ttl \<or> expected = current_generation ?old)")
    case False
    with assms rec show ?thesis
      by (intro rejected) (auto simp: renew_def Let_def split: if_splits)
  next
    case True
    show ?thesis
    proof (cases "renewal_retry ?old expected ttl")
      case retry: True
      with True assms rec show ?thesis
        by (intro retried) (auto simp: renew_def Let_def)
    next
      case False
      with True have cur: "expected = current_generation ?old" and pending: ?pending
        by blast+
      from assms [unfolded renew_def Let_def] False rec pending cur
      have res: "(case checked_add (clock (leases s)) ttl of
              None \<Rightarrow> (s, Rejected ''lease clock exhausted'')
            | Some t \<Rightarrow> if deadline_kept ?old t then (s, Rejected ''renewal must extend the deadline'')
                else (s\<lparr>leases := (leases s)\<lparr>deadlines := fmupd i
                  \<lparr>generation = current_generation ?old + 1, deadline_tick = t, ttl_ticks = ttl\<rparr>
                  (deadlines (leases s))\<rparr>\<rparr>, LeaseRenewed (current_generation ?old + 1) t)) = (s', r)"
        by simp
      show ?thesis
      proof (cases "\<exists>t. checked_add (clock (leases s)) ttl = Some t \<and> \<not> deadline_kept ?old t")
        case False
        with res show ?thesis
          by (intro rejected) (auto split: option.splits if_splits)
      next
        case True
        then obtain t where t: "checked_add (clock (leases s)) ttl = Some t" "\<not> deadline_kept ?old t"
          by blast
        show ?thesis
          by (rule renewed [OF _ rec _ _ _ _ _ _ _ t(1) cur t(2)]) (use res t pending cur in auto)
      qed
    qed
  qed
qed

lemma advance_cases:
  assumes "advance s expected = (s', r)"
  obtains (unchanged) "s' = s"
  | (advanced) n where "r = LeaseClockAdvanced" and "expected = clock (leases s)"
      and "checked_add (clock (leases s)) 1 = Some n"
      and "s' = s\<lparr>leases := (leases s)\<lparr>clock := n\<rparr>\<rparr>"
  using assms by (auto simp: advance_def split: if_splits option.splits)

lemma expire_cases:
  assumes "expire s i g t = (s', r)"
  obtains (unchanged) "s' = s" and "is_rejected r"
  | (expired) d where "r = LeaseExpired" and "is_expired (leases s) i"
      and "fmlookup (deadlines (leases s)) i = Some d" and "generation d = g" and "deadline_tick d = t"
      and "s' = s\<lparr>leases := (leases s)\<lparr>expired :=
             or_insert i (applied_index s) (expired (leases s))\<rparr>\<rparr>"
proof (cases "fmlookup (deadlines (leases s)) i")
  case None
  with assms show ?thesis
    by (intro unchanged) (auto simp: expire_def)
next
  case (Some d)
  show ?thesis
  proof (cases "is_expired (leases s) i \<and> generation d = g \<and> deadline_tick d = t")
    case True
    with assms Some show ?thesis
      by (intro expired [of d]) (simp_all add: expire_def)
  next
    case False
    with assms Some show ?thesis
      by (intro unchanged) (auto simp: expire_def)
  qed
qed

end
