(* ===== verification/State_Machine.thy ===== *)
theory State_Machine
  imports Leases
begin

text \<open>
  \<^verbatim>\<open>kalpak-control/src/state_machine.rs\<close>: applying replicated entries to the metadata state.
  \<open>apply_one\<close> fences the blocks a request touches and delegates to \<open>apply_unfenced\<close>;
  \<open>apply_entries\<close> is the loop of \<^verbatim>\<open>RaftStateMachine::apply\<close>.
\<close>

definition MAX_BLOCK_FENCES :: nat where "MAX_BLOCK_FENCES = 65536"
definition MAX_REPLICA_REQUIREMENTS :: nat where "MAX_REPLICA_REQUIREMENTS = 16384"

section \<open>Bindings\<close>

text \<open>
  Releasing the blocks of a rebound key and acquiring the new ones; \<open>block_refs\<close> counts are
  \<^verbatim>\<open>u32\<close>, the decrement saturates and the increment wraps.
\<close>

definition release_ref :: "block_id \<Rightarrow> (block_id, u32) fmap \<Rightarrow> (block_id, u32) fmap" where
  "release_ref b refs =
     (case fmlookup refs b of
        None \<Rightarrow> refs
      | Some n \<Rightarrow>
          let n' = saturating_sub n 1 in
          if n' = 0 then fmdrop b refs else fmupd b n' refs)"

definition acquire_ref :: "block_id \<Rightarrow> (block_id, u32) fmap \<Rightarrow> (block_id, u32) fmap" where
  "acquire_ref b refs =
     fmupd b ((case fmlookup refs b of None \<Rightarrow> 0 | Some n \<Rightarrow> n) + 1) refs"

definition link_child ::
  "(cache_key \<Rightarrow> string) \<Rightarrow> string \<Rightarrow> cache_key option \<Rightarrow> (string, string list) fmap
     \<Rightarrow> (string, string list) fmap" where
  "link_child bk key_s parent kidmap =
     (case parent of
        None \<Rightarrow> kidmap
      | Some p \<Rightarrow>
          let kids = (case fmlookup kidmap (bk p) of None \<Rightarrow> [] | Some ks \<Rightarrow> ks)
          in fmupd (bk p) (if key_s \<in> set kids then kids else kids @ [key_s]) kidmap)"

definition bump_revision :: "string \<Rightarrow> lease_state \<Rightarrow> lease_state" where
  "bump_revision key_s L =
     (if initialized L
      then L\<lparr>revisions :=
             fmupd key_s (saturating_add (current_revision L key_s) 1) (revisions L)\<rparr>
      else L)"

definition bind_one ::
  "(cache_key \<Rightarrow> string) \<Rightarrow> metadata_state \<Rightarrow> agent_id \<Rightarrow> cache_key \<Rightarrow> block_id list
     \<Rightarrow> cache_key option \<Rightarrow> metadata_state" where
  "bind_one bk s a k bs parent =
     (let key_s = bk k;
          refs = (case fmlookup (bindings s) key_s of
                    None \<Rightarrow> block_refs s
                  | Some old \<Rightarrow> fold release_ref (binding_blocks old) (block_refs s));
          refs = fold acquire_ref bs refs
      in s\<lparr>leases := bump_revision key_s (leases s),
           block_refs := refs,
           bindings := fmupd key_s \<lparr>binding_agent = a, binding_blocks = bs\<rparr> (bindings s),
           children := link_child bk key_s parent (children s)\<rparr>)"

fun bind_many ::
  "(cache_key \<Rightarrow> string) \<Rightarrow> metadata_state \<Rightarrow> agent_id \<Rightarrow> chain_binding list \<Rightarrow> metadata_state" where
  "bind_many bk s a [] = s"
| "bind_many bk s a (b # bs) = bind_many bk (bind_one bk s a (cb_key b) (cb_blocks b) (cb_parent b)) a bs"

section \<open>Requests\<close>

definition raise_requirement :: "nat \<Rightarrow> block_id \<Rightarrow> (block_id, nat) fmap \<Rightarrow> (block_id, nat) fmap" where
  "raise_requirement replicas b m =
     fmupd b (max (case fmlookup m b of None \<Rightarrow> replicas | Some n \<Rightarrow> n) replicas) m"

fun apply_unfenced ::
  "(cache_key \<Rightarrow> string) \<Rightarrow> metadata_state \<Rightarrow> request \<Rightarrow> metadata_state \<times> response" where
  "apply_unfenced bk s (RenewUploadLease lease a expected ttl) = renew s lease a expected ttl"
| "apply_unfenced bk s (AdvanceLeaseClock expected) = advance s expected"
| "apply_unfenced bk s (ExpireUploadLease lease g deadline) = expire s lease g deadline"
| "apply_unfenced bk s (CancelUploadLease lease a) = cancel s lease a"
| "apply_unfenced bk s (BeginUploadLease lease a bs) = reserve s lease a bs"
| "apply_unfenced bk s (CommitUploadLease lease a b expected) =
     (case validate_commit bk s lease a b expected of
        Inl msg \<Rightarrow> (s, Rejected msg)
      | Inr False \<Rightarrow> (s, Bound)
      | Inr True \<Rightarrow>
          let s = bind_one bk s a (cb_key b) (cb_blocks b) (cb_parent b);
              l = the (fmlookup (records (leases s)) lease)
          in (s\<lparr>leases := (leases s)\<lparr>records :=
                  fmupd lease
                    (l\<lparr>committed := Some \<lparr>commit_binding = b, commit_revision = expected\<rparr>\<rparr>)
                    (records (leases s))\<rparr>\<rparr>,
              Bound))"
| "apply_unfenced bk s (RequireReplicas bs replicas) =
     (if \<not> (2 \<le> replicas \<and> replicas \<le> 16) \<or> 4096 < length bs
      then (s, Rejected ''invalid replica requirements'')
      else
        let m = fold (raise_requirement replicas) bs (replica_requirements s) in
        if MAX_REPLICA_REQUIREMENTS < fmsize m
        then (s, Rejected ''replica requirement capacity exhausted'')
        else (s\<lparr>replica_requirements := m\<rparr>, ReplicasRequired))"
| "apply_unfenced bk s (RegisterAgent a name) =
     (s\<lparr>agents := fmupd a \<lparr>display_name = name, registered_at = applied_index s\<rparr> (agents s)\<rparr>,
      Registered)"
| "apply_unfenced bk s (BindChain a bs) = (bind_many bk s a bs, Bound)"
| "apply_unfenced bk s (BindPrefix a k bs parent) = (bind_one bk s a k bs parent, Bound)"

text \<open>The blocks a request touches: those it names and those its binding replaces.\<close>

definition touch_binding ::
  "(cache_key \<Rightarrow> string) \<Rightarrow> metadata_state \<Rightarrow> cache_key \<Rightarrow> block_id list \<Rightarrow> block_id list" where
  "touch_binding bk s k bs =
     bs @ (case fmlookup (bindings s) (bk k) of None \<Rightarrow> [] | Some old \<Rightarrow> binding_blocks old)"

fun touched :: "(cache_key \<Rightarrow> string) \<Rightarrow> metadata_state \<Rightarrow> request \<Rightarrow> block_id list" where
  "touched bk s (BindPrefix _ k bs _) = remdups (touch_binding bk s k bs)"
| "touched bk s (BindChain _ items) =
     remdups (concat (map (\<lambda>b. touch_binding bk s (cb_key b) (cb_blocks b)) items))"
| "touched bk s (CommitUploadLease _ _ b _) = remdups (touch_binding bk s (cb_key b) (cb_blocks b))"
| "touched bk s (BeginUploadLease _ _ bs) = remdups bs"
| "touched bk s (RequireReplicas bs _) = remdups bs"
| "touched bk s (RenewUploadLease lease _ _ _) =
     (case fmlookup (records (leases s)) lease of
        None \<Rightarrow> []
      | Some l \<Rightarrow> remdups (lease_blocks l))"
| "touched bk s _ = []"

definition apply_one ::
  "(cache_key \<Rightarrow> string) \<Rightarrow> metadata_state \<Rightarrow> request \<Rightarrow> metadata_state \<times> response" where
  "apply_one bk s req =
     (let t = touched bk s req in
      if MAX_BLOCK_FENCES
         < fmsize (block_fences s)
           + length (filter (\<lambda>i. \<not> contains_key (block_fences s) i) t)
      then (s, Rejected ''block fence capacity exhausted'')
      else
        let (s', response) = apply_unfenced bk s req in
        if is_rejected response then (s', response)
        else (s'\<lparr>block_fences := fold (\<lambda>i. fmupd i (applied_index s')) t (block_fences s')\<rparr>,
              response))"

definition apply_entry ::
  "(cache_key \<Rightarrow> string) \<Rightarrow> metadata_state \<Rightarrow> entry \<Rightarrow> metadata_state \<times> response" where
  "apply_entry bk s e =
     (let s = s\<lparr>last_applied := Some (entry_log_id e)\<rparr> in
      case payload e of
        Blank \<Rightarrow> (s, Registered)
      | Normal req \<Rightarrow> apply_one bk s req
      | Membership mem \<Rightarrow>
          (s\<lparr>membership := \<lparr>membership_log_id = Some (entry_log_id e), membership_config = mem\<rparr>\<rparr>,
           Registered))"

fun apply_entries ::
  "(cache_key \<Rightarrow> string) \<Rightarrow> metadata_state \<Rightarrow> entry list \<Rightarrow> metadata_state \<times> response list" where
  "apply_entries bk s [] = (s, [])"
| "apply_entries bk s (e # es) =
     (let (s', r) = apply_entry bk s e;
          (s'', rs) = apply_entries bk s' es
      in (s'', r # rs))"

end
