(* ===== verification/Lease_Invariant.thy ===== *)
theory Lease_Invariant
  imports State_Machine
begin

text \<open>
  The lease part of the replicated state under every operation.  \<open>validate\<close> is the check a restarting
  node runs on the lease state of a snapshot; the lemmas show that each operation preserves it, so
  that the check never refuses what the node itself produced.
\<close>

section \<open>What the check says\<close>

lemma validate_iff:
  "validate bk L = Inr () \<longleftrightarrow>
     fmsize (records L) \<le> MAX_LEASES
     \<and> (\<forall>i d. fmlookup (deadlines L) i = Some d \<longrightarrow> \<not> bad_deadline L i d)
     \<and> (\<forall>i t. fmlookup (expired L) i = Some t \<longrightarrow> \<not> bad_expired L i)
     \<and> (\<forall>i t. fmlookup (cancelled L) i = Some t \<longrightarrow> \<not> bad_cancelled L i)
     \<and> (initialized L \<or> records L = fmempty \<and> revisions L = fmempty)
     \<and> reserved_blocks L \<le> MAX_RESERVED_BLOCKS
     \<and> (\<forall>i l. fmlookup (records L) i = Some l \<longrightarrow> \<not> bad_record bk L l)"
  by (auto simp: validate_def fmany_iff not_less) (metis option.distinct(1))+

definition deadline_ok :: "u64 \<Rightarrow> lease_deadline \<Rightarrow> bool" where
  "deadline_ok now d \<longleftrightarrow>
     generation d \<noteq> 0 \<and> 1 \<le> ttl_ticks d \<and> ttl_ticks d \<le> MAX_TTL_TICKS
     \<and> ttl_ticks d \<le> deadline_tick d \<and> deadline_tick d - ttl_ticks d \<le> now"

lemma bad_deadline_iff:
  "bad_deadline L i d \<longleftrightarrow> fmlookup (records L) i = None \<or> \<not> deadline_ok (clock L) d"
  by (auto simp: bad_deadline_def deadline_ok_def checked_sub_def not_less not_le)

lemma bad_expired_iff:
  "\<not> bad_expired L i \<longleftrightarrow>
     (\<exists>l d. fmlookup (records L) i = Some l \<and> committed l = None
          \<and> fmlookup (cancelled L) i = None
          \<and> fmlookup (deadlines L) i = Some d \<and> deadline_tick d \<le> clock L)"
  by (auto simp: bad_expired_def not_less split: option.splits)

lemma bad_cancelled_iff:
  "\<not> bad_cancelled L i \<longleftrightarrow> (\<exists>l. fmlookup (records L) i = Some l \<and> committed l = None)"
  by (auto simp: bad_cancelled_def split: option.splits)

lemma bad_record_iff:
  "\<not> bad_record bk L l \<longleftrightarrow>
     lease_blocks l \<noteq> [] \<and> length (lease_blocks l) \<le> MAX_LEASE_BLOCKS
     \<and> (\<forall>c. committed l = Some c \<longrightarrow>
          valid_binding (commit_binding c) \<and> cb_blocks (commit_binding c) = lease_blocks l
          \<and> fmlookup (revisions L) (bk (cb_key (commit_binding c))) \<noteq> None)"
  by (auto simp: bad_record_def not_less split: option.splits)

lemmas validate_expand = validate_iff bad_deadline_iff bad_expired_iff bad_cancelled_iff bad_record_iff

lemma deadline_ok_mono: "deadline_ok now d \<Longrightarrow> now \<le> now' \<Longrightarrow> deadline_ok now' d"
  by (auto simp: deadline_ok_def)

lemma is_expired_iff:
  "is_expired L i \<longleftrightarrow>
     (\<exists>l. fmlookup (records L) i = Some l \<and> committed l = None)
     \<and> fmlookup (cancelled L) i = None
     \<and> (fmlookup (expired L) i \<noteq> None
        \<or> (\<exists>d. fmlookup (deadlines L) i = Some d \<and> deadline_tick d \<le> clock L))"
  by (auto simp: is_expired_def split: option.splits)

text \<open>In a valid state the clock alone decides expiry: the markers only repeat it.\<close>

lemma valid_is_expired_iff:
  assumes "validate bk L = Inr ()"
  shows "is_expired L i \<longleftrightarrow>
     (\<exists>l d. fmlookup (records L) i = Some l \<and> committed l = None
        \<and> fmlookup (cancelled L) i = None
        \<and> fmlookup (deadlines L) i = Some d \<and> deadline_tick d \<le> clock L)"
proof -
  have "fmlookup (expired L) i \<noteq> None \<Longrightarrow>
      \<exists>d. fmlookup (deadlines L) i = Some d \<and> deadline_tick d \<le> clock L"
    using assms by (auto simp: validate_expand)
  then show ?thesis
    by (auto simp: is_expired_iff)
qed

section \<open>Preservation by the updates of the lease state\<close>

lemma validate_activate:
  assumes "validate bk (leases s) = Inr ()"
  shows "validate bk (leases (activate s)) = Inr ()"
  using assms by (auto simp: validate_expand activate_def reserved_blocks_def)

lemma validate_clock:
  assumes "validate bk L = Inr ()" and "clock L \<le> n"
  shows "validate bk (L\<lparr>clock := n\<rparr>) = Inr ()"
  using assms
  by (auto simp: validate_expand reserved_blocks_def intro: deadline_ok_mono)

lemma validate_deadline:
  assumes "validate bk L = Inr ()" and "fmlookup (records L) i = Some l"
    and "deadline_ok (clock L) d" and "fmlookup (expired L) i = None"
  shows "validate bk (L\<lparr>deadlines := fmupd i d (deadlines L)\<rparr>) = Inr ()"
  using assms by (auto simp: validate_expand reserved_blocks_def)

lemma validate_cancelled:
  assumes "validate bk L = Inr ()" and "fmlookup (records L) i = Some l" and "committed l = None"
    and "fmlookup (expired L) i = None"
  shows "validate bk (L\<lparr>cancelled := or_insert i t (cancelled L)\<rparr>) = Inr ()"
  using assms
  by (auto simp: validate_expand reserved_blocks_def fmlookup_or_insert split: if_splits)

lemma validate_expired:
  assumes "validate bk L = Inr ()" and "is_expired L i"
  shows "validate bk (L\<lparr>expired := or_insert i t (expired L)\<rparr>) = Inr ()"
  using assms(1) valid_is_expired_iff [OF assms(1), of i] assms(2)
  by (auto simp: validate_expand reserved_blocks_def fmlookup_or_insert split: if_splits)

lemma validate_new_record:
  assumes "validate bk L = Inr ()" and "initialized L" and "fmlookup (records L) i = None"
    and "committed l = None" and "lease_blocks l \<noteq> []" and "length (lease_blocks l) \<le> MAX_LEASE_BLOCKS"
    and "fmsize (records L) < MAX_LEASES"
    and "reserved_blocks L + length (lease_blocks l) \<le> MAX_RESERVED_BLOCKS"
  shows "validate bk (L\<lparr>records := fmupd i l (records L)\<rparr>) = Inr ()"
  using assms by (fastforce simp: validate_expand reserved_blocks_def fm_simps split: if_splits)

lemma validate_bump:
  assumes "validate bk L = Inr ()"
  shows "validate bk (bump_revision k L) = Inr ()"
  using assms by (auto simp: validate_expand reserved_blocks_def bump_revision_def)

lemma validate_commit_record:
  assumes "validate bk L = Inr ()" and "initialized L" and "fmlookup (records L) i = Some l"
    and "\<not> contains_key (cancelled L) i" and "\<not> is_expired L i"
    and "valid_binding b" and "cb_blocks b = lease_blocks l"
    and "fmlookup (revisions L) (bk (cb_key b)) \<noteq> None"
  shows "validate bk (L\<lparr>records := fmupd i
           (l\<lparr>committed := Some \<lparr>commit_binding = b, commit_revision = r\<rparr>\<rparr>) (records L)\<rparr>) = Inr ()"
proof -
  let ?l = "l\<lparr>committed := Some \<lparr>commit_binding = b, commit_revision = r\<rparr>\<rparr>"
  have "fmsum (\<lambda>l. length (lease_blocks l)) (fmupd i ?l (records L))
      = fmsum (\<lambda>l. length (lease_blocks l)) (records L)"
    by (rule fmsum_fmupd_same [OF assms(3)]) simp
  moreover have "fmlookup (expired L) i = None"
    using assms(1,5) valid_is_expired_iff [OF assms(1)] by (auto simp: validate_expand is_expired_iff)
  ultimately show ?thesis
    using assms by (auto simp: validate_expand reserved_blocks_def fm_simps split: if_splits)
qed

end
