(* ===== verification/Durability.thy ===== *)
theory Durability
  imports Kalpak_Prelude
begin

text \<open>
  \<^verbatim>\<open>kalpak-control/src/durability.rs\<close> over a model of the file system calls it uses.

  A directory maps names to inodes, an inode has contents.  Both exist twice: as the running
  process sees them and as the disk holds them.  \<^verbatim>\<open>sync_all\<close> on a file copies its contents to the
  disk, \<^verbatim>\<open>sync_all\<close> on the directory copies the names.  After a crash each name is either the
  one on disk or the one in memory.  An inode that only grew since its last sync keeps the synced
  part and some more of what was appended; one that was changed otherwise may hold any bytes.

  Every call may fail.  A \<open>fault\<close> says which call of an operation fails, and for a failing write how
  many bytes had been written.
\<close>

section \<open>The file system\<close>

record file_system =
  dir :: "(string, nat) fmap"
  disk_dir :: "(string, nat) fmap"
  contents :: "nat \<Rightarrow> bytes"
  disk_contents :: "nat \<Rightarrow> bytes"
  next_inode :: nat

text \<open>\<^verbatim>\<open>std::fs::read\<close>; \<open>None\<close> is \<^verbatim>\<open>NotFound\<close>.\<close>

definition read_file :: "file_system \<Rightarrow> string \<Rightarrow> bytes option" where
  "read_file fs name = map_option (contents fs) (fmlookup (dir fs) name)"

definition open_truncate :: "string \<Rightarrow> file_system \<Rightarrow> nat \<times> file_system" where
  "open_truncate name fs =
     (case fmlookup (dir fs) name of
        Some i \<Rightarrow> (i, fs\<lparr>contents := (contents fs)(i := [])\<rparr>)
      | None \<Rightarrow>
          (next_inode fs,
           fs\<lparr>dir := fmupd name (next_inode fs) (dir fs),
              contents := (contents fs)(next_inode fs := []),
              next_inode := Suc (next_inode fs)\<rparr>))"

definition open_append :: "string \<Rightarrow> file_system \<Rightarrow> nat \<times> file_system" where
  "open_append name fs =
     (case fmlookup (dir fs) name of
        Some i \<Rightarrow> (i, fs)
      | None \<Rightarrow>
          (next_inode fs,
           fs\<lparr>dir := fmupd name (next_inode fs) (dir fs),
              contents := (contents fs)(next_inode fs := []),
              next_inode := Suc (next_inode fs)\<rparr>))"

definition write_append :: "nat \<Rightarrow> bytes \<Rightarrow> file_system \<Rightarrow> file_system" where
  "write_append i bs fs = fs\<lparr>contents := (contents fs)(i := contents fs i @ bs)\<rparr>"

definition set_len :: "nat \<Rightarrow> nat \<Rightarrow> file_system \<Rightarrow> file_system" where
  "set_len i n fs =
     fs\<lparr>contents := (contents fs)(i :=
          take n (contents fs i) @ replicate (n - length (contents fs i)) 0)\<rparr>"

definition sync_file :: "nat \<Rightarrow> file_system \<Rightarrow> file_system" where
  "sync_file i fs = fs\<lparr>disk_contents := (disk_contents fs)(i := contents fs i)\<rparr>"

definition rename_file :: "string \<Rightarrow> string \<Rightarrow> file_system \<Rightarrow> file_system" where
  "rename_file old new fs =
     (case fmlookup (dir fs) old of
        Some i \<Rightarrow> fs\<lparr>dir := fmupd new i (fmdrop old (dir fs))\<rparr>
      | None \<Rightarrow> fs)"

definition sync_directory :: "file_system \<Rightarrow> file_system" where
  "sync_directory fs = fs\<lparr>disk_dir := dir fs\<rparr>"

text \<open>Inodes in use are below the next one, and no inode has two names.\<close>

definition fs_ok :: "file_system \<Rightarrow> bool" where
  "fs_ok fs \<longleftrightarrow>
     (\<forall>n i. fmlookup (dir fs) n = Some i \<or> fmlookup (disk_dir fs) n = Some i \<longrightarrow> i < next_inode fs)
     \<and> (\<forall>n m i. fmlookup (dir fs) n = Some i \<and> fmlookup (dir fs) m = Some i \<longrightarrow> n = m)"

text \<open>What may be found after a crash.  A rename is atomic: it never leaves one inode under both names.\<close>

definition torn :: "bytes \<Rightarrow> bytes \<Rightarrow> bytes \<Rightarrow> bool" where
  "torn synced current found \<longleftrightarrow>
     (take (length synced) current = synced \<longrightarrow>
        (\<exists>k\<ge>length synced. found = take k current))"

definition crash :: "file_system \<Rightarrow> file_system \<Rightarrow> bool" where
  "crash fs fs' \<longleftrightarrow>
     (\<forall>n. fmlookup (dir fs') n = fmlookup (dir fs) n \<or> fmlookup (dir fs') n = fmlookup (disk_dir fs) n)
     \<and> (\<forall>i. torn (disk_contents fs i) (contents fs i) (contents fs' i))
     \<and> disk_dir fs' = dir fs' \<and> disk_contents fs' = contents fs' \<and> next_inode fs' = next_inode fs
     \<and> fs_ok fs'"

text \<open>
  A name is stable with contents \<open>c\<close> when memory and disk agree on it, no other name leads to its
  inode, and its contents are on disk: whatever happens to other files, a crash leaves it as it is.
\<close>

definition durable_as :: "file_system \<Rightarrow> string \<Rightarrow> bytes option \<Rightarrow> bool" where
  "durable_as fs name c \<longleftrightarrow>
     fmlookup (disk_dir fs) name = fmlookup (dir fs) name
     \<and> (case fmlookup (dir fs) name of
          None \<Rightarrow> c = None
        | Some i \<Rightarrow>
            c = Some (contents fs i) \<and> disk_contents fs i = contents fs i
            \<and> (\<forall>m. m \<noteq> name \<longrightarrow> fmlookup (dir fs) m \<noteq> Some i))"

section \<open>Replacing a file\<close>

text \<open>
  \<^verbatim>\<open>path.with_extension("pending")\<close>: the callers' names have exactly one dot, so the extension
  is what follows it.
\<close>

definition pending_name :: "string \<Rightarrow> string" where
  "pending_name path = takeWhile (\<lambda>c. c \<noteq> CHR ''.'') path @ ''.pending''"

text \<open>
  Writing a file under a temporary name, syncing it, renaming it over the old one and syncing the
  directory, up to the point where a call fails: \<open>n\<close> calls have succeeded; \<open>m\<close> bytes of a failing
  write are in the file.
\<close>

definition publish_upto :: "nat \<Rightarrow> nat \<Rightarrow> string \<Rightarrow> string \<Rightarrow> bytes \<Rightarrow> file_system \<Rightarrow> file_system" where
  "publish_upto n m tmp path bs fs =
     (if n = 0 then fs
      else
        let (i, fs) = open_truncate tmp fs in
        if n = 1 then write_append i (take m bs) fs
        else
          let fs = write_append i bs fs in
          if n = 2 then fs
          else
            let fs = sync_file i fs in
            if n = 3 then fs
            else
              let fs = rename_file tmp path fs in
              if n = 4 then fs else sync_directory fs)"

definition replace_upto :: "nat \<Rightarrow> nat \<Rightarrow> string \<Rightarrow> bytes \<Rightarrow> file_system \<Rightarrow> file_system" where
  "replace_upto n m path bs fs = publish_upto n m (pending_name path) path bs fs"

datatype fault = NoFault | FaultAt nat nat

definition replace :: "fault \<Rightarrow> string \<Rightarrow> bytes \<Rightarrow> file_system \<Rightarrow> (string + unit) \<times> file_system" where
  "replace fault path bs fs =
     (case fault of
        NoFault \<Rightarrow> (Inr (), replace_upto 5 0 path bs fs)
      | FaultAt n m \<Rightarrow>
          if n < 5 then (Inl ''io error'', replace_upto n m path bs fs)
          else (Inr (), replace_upto 5 0 path bs fs))"

section \<open>Lemmas\<close>

lemma stable_read: "durable_as fs name c \<Longrightarrow> read_file fs name = c"
  by (auto simp: durable_as_def read_file_def split: option.splits)

lemma torn_synced [simp]: "torn c c c' \<longleftrightarrow> c' = c"
  by (auto simp: torn_def)

lemma crash_synced:
  assumes "crash fs fs'" and "disk_contents fs i = contents fs i"
  shows "contents fs' i = contents fs i"
proof -
  have "torn (disk_contents fs i) (contents fs i) (contents fs' i)"
    using assms(1) by (simp add: crash_def)
  with assms(2) show ?thesis by simp
qed

lemma crash_stable:
  assumes "durable_as fs name c" and "crash fs fs'"
  shows "read_file fs' name = c"
proof -
  have "fmlookup (dir fs') name = fmlookup (dir fs) name"
    using assms by (auto simp: durable_as_def crash_def)
  with assms show ?thesis
    using crash_synced [OF assms(2)] by (auto simp: durable_as_def read_file_def split: option.splits)
qed

lemma stable_open_truncate:
  assumes "durable_as fs name c" and "fs_ok fs" and "other \<noteq> name"
  shows "durable_as (snd (open_truncate other fs)) name c"
  using assms by (auto simp: durable_as_def open_truncate_def fs_ok_def split: option.splits)

lemma open_truncate_inode:
  assumes "open_truncate other fs = (i, fs')" and "fs_ok fs"
  shows "fmlookup (dir fs') other = Some i" and "contents fs' i = []" and "fs_ok fs'"
    and "m \<noteq> other \<Longrightarrow> fmlookup (dir fs') m \<noteq> Some i"
  using assms unfolding open_truncate_def fs_ok_def
  by (auto split: option.splits if_splits simp: less_Suc_eq) (metis less_irrefl)+


lemma stable_write_other:
  assumes "durable_as fs name c" and "fmlookup (dir fs) name \<noteq> Some i"
  shows "durable_as (write_append i bs fs) name c" and "durable_as (sync_file i fs) name c"
  using assms by (auto simp: durable_as_def write_append_def sync_file_def split: option.splits)

lemma fs_ok_write [simp]:
  "fs_ok (write_append i bs fs) = fs_ok fs" "fs_ok (sync_file i fs) = fs_ok fs"
  by (simp_all add: fs_ok_def write_append_def sync_file_def)

lemma write_sync_dir [simp]:
  "dir (write_append i bs fs) = dir fs" "dir (sync_file i fs) = dir fs"
  "disk_dir (write_append i bs fs) = disk_dir fs" "disk_dir (sync_file i fs) = disk_dir fs"
  "contents (write_append i bs fs) i = contents fs i @ bs"
  "contents (sync_file i fs) = contents fs" "disk_contents (sync_file i fs) i = contents fs i"
  by (simp_all add: write_append_def sync_file_def)

text \<open>The state just before the rename: the new contents are on disk under the temporary name.\<close>

lemma publish_before_rename:
  assumes "fs_ok fs" and "durable_as fs path c" and "tmp \<noteq> path"
  shows "n \<le> 3 \<Longrightarrow> durable_as (publish_upto n m tmp path bs fs) path c"
    and "\<exists>i. fmlookup (dir (publish_upto 3 m tmp path bs fs)) (tmp) = Some i
          \<and> contents (publish_upto 3 m tmp path bs fs) i = bs
          \<and> disk_contents (publish_upto 3 m tmp path bs fs) i = bs
          \<and> fs_ok (publish_upto 3 m tmp path bs fs)"
proof -
  obtain i fs1 where op: "open_truncate (tmp) fs = (i, fs1)"
    by fastforce
  note inode = open_truncate_inode [OF op assms(1)]
  have st: "durable_as fs1 path c"
    using stable_open_truncate [OF assms(2,1,3)] op by simp
  have ne: "fmlookup (dir fs1) path \<noteq> Some i"
    using inode(4) [of path] assms(3) by simp
  have w: "durable_as (write_append i bs' fs1) path c" for bs'
    using stable_write_other(1) [OF st ne] .
  have "durable_as (sync_file i (write_append i bs fs1)) path c"
    using stable_write_other(2) [OF w] ne by simp
  with w st assms(2) show "n \<le> 3 \<Longrightarrow> durable_as (publish_upto n m tmp path bs fs) path c"
    by (auto simp: publish_upto_def op Let_def)
  show "\<exists>i. fmlookup (dir (publish_upto 3 m tmp path bs fs)) (tmp) = Some i
          \<and> contents (publish_upto 3 m tmp path bs fs) i = bs
          \<and> disk_contents (publish_upto 3 m tmp path bs fs) i = bs
          \<and> fs_ok (publish_upto 3 m tmp path bs fs)"
    by (rule exI [of _ i]) (simp add: publish_upto_def op inode Let_def)
qed

lemma publish_upto_rename:
  "publish_upto 4 m tmp path bs fs = rename_file (tmp) path (publish_upto 3 m tmp path bs fs)"
  "n \<ge> 5 \<Longrightarrow> publish_upto n m tmp path bs fs = sync_directory (publish_upto 4 m tmp path bs fs)"
  by (auto simp: publish_upto_def Let_def split: prod.splits)

lemma publish_upto_any_m: "n \<noteq> 1 \<Longrightarrow> publish_upto n m tmp path bs fs = publish_upto n 0 tmp path bs fs"
  by (simp add: publish_upto_def)

lemma rename_crash:
  assumes "durable_as fs path c" and "fmlookup (dir fs) tmp = Some i" and "tmp \<noteq> path"
    and "disk_contents fs i = contents fs i" and "crash (rename_file tmp path fs) fs'"
  shows "read_file fs' path = c \<or> read_file fs' path = Some (contents fs i)"
proof -
  have "fmlookup (dir fs') path = fmlookup (dir (rename_file tmp path fs)) path
      \<or> fmlookup (dir fs') path = fmlookup (disk_dir (rename_file tmp path fs)) path"
    using assms(5) unfolding crash_def by blast
  then have "fmlookup (dir fs') path = Some i \<or> fmlookup (dir fs') path = fmlookup (disk_dir fs) path"
    using assms(2) by (simp add: rename_file_def)
  moreover have "contents fs' j = contents fs j" if "disk_contents fs j = contents fs j" for j
    using crash_synced [OF assms(5)] assms(2) that by (simp add: rename_file_def)
  ultimately show ?thesis
    using assms(1,4) by (auto simp: durable_as_def read_file_def split: option.splits)
qed

lemma rename_sync_stable:
  assumes "fs_ok fs" and "fmlookup (dir fs) tmp = Some i" and "tmp \<noteq> path"
    and "disk_contents fs i = contents fs i"
  shows "durable_as (sync_directory (rename_file tmp path fs)) path (Some (contents fs i))"
    and "fs_ok (sync_directory (rename_file tmp path fs))"
  using assms by (auto simp: durable_as_def sync_directory_def rename_file_def fs_ok_def)

text \<open>Once all five calls have succeeded the new contents are durable.\<close>

lemma publish_done:
  assumes "fs_ok fs" and "durable_as fs path c" and "tmp \<noteq> path" and "n \<ge> 5"
  shows "durable_as (publish_upto n m tmp path bs fs) path (Some bs)"
    and "fs_ok (publish_upto n m tmp path bs fs)"
proof -
  let ?before = "publish_upto 3 0 tmp path bs fs"
  obtain i where i: "fmlookup (dir ?before) (tmp) = Some i" "contents ?before i = bs"
    "disk_contents ?before i = bs" "fs_ok ?before"
    using publish_before_rename(2) [OF assms(1-3)] by blast
  have "publish_upto n m tmp path bs fs = sync_directory (rename_file (tmp) path ?before)"
    using publish_upto_any_m [of 3 m] by (simp add: publish_upto_rename assms(4))
  then show "durable_as (publish_upto n m tmp path bs fs) path (Some bs)"
    and "fs_ok (publish_upto n m tmp path bs fs)"
    using rename_sync_stable [OF i(4) i(1) assms(3)] i(2,3) by simp_all
qed

lemma publish_crash:
  assumes "fs_ok fs" and "durable_as fs path c" and "tmp \<noteq> path"
    and "crash (publish_upto n m tmp path bs fs) fs'"
  shows "read_file fs' path = c \<or> read_file fs' path = Some bs"
proof -
  consider "n \<le> 3" | "n = 4" | "n \<ge> 5" by linarith
  then show ?thesis
  proof cases
    case 1
    then show ?thesis
      using crash_stable [OF publish_before_rename(1) [OF assms(1-3)] assms(4)] by simp
  next
    case 2
    let ?before = "publish_upto 3 m tmp path bs fs"
    obtain i where i: "fmlookup (dir ?before) (tmp) = Some i" "contents ?before i = bs"
      "disk_contents ?before i = bs"
      using publish_before_rename(2) [OF assms(1-3)] by blast
    from 2 show ?thesis
      using rename_crash [OF publish_before_rename(1) [OF assms(1-3), of 3 m bs] i(1) assms(3)]
        i(2,3) assms(4) by (simp add: publish_upto_rename(1))
  next
    case 3
    then show ?thesis
      using crash_stable [OF publish_done(1) [OF assms(1-3)] assms(4)] by simp
  qed
qed

lemma replace_Ok:
  assumes "fs_ok fs" and "durable_as fs path c" and "pending_name path \<noteq> path"
    and "replace fault path bs fs = (Inr (), fs')"
  shows "durable_as fs' path (Some bs)" and "fs_ok fs'"
  using publish_done [OF assms(1-3), of 5 0 bs] assms(4)
  by (auto simp: replace_def replace_upto_def split: fault.splits if_splits)

lemma replace_stops: "\<exists>n m. snd (replace fault path bs fs) = replace_upto n m path bs fs"
  by (auto simp: replace_def split: fault.splits)

lemma replace_upto_crash:
  assumes "fs_ok fs" and "durable_as fs path c" and "pending_name path \<noteq> path"
    and "crash (replace_upto n m path bs fs) fs'"
  shows "read_file fs' path = c \<or> read_file fs' path = Some bs"
  using publish_crash [OF assms(1-3)] assms(4) by (simp add: replace_upto_def)

text \<open>Publishing one file leaves every other file as durable as it was.\<close>

lemma publish_other:
  assumes "fs_ok fs" and "durable_as fs other c" and "other \<noteq> tmp" and "other \<noteq> path"
  shows "durable_as (publish_upto n m tmp path bs fs) other c"
proof -
  obtain i fs1 where op: "open_truncate tmp fs = (i, fs1)"
    by fastforce
  note inode = open_truncate_inode [OF op assms(1)]
  have st: "durable_as fs1 other c"
    using stable_open_truncate [OF assms(2,1), of tmp] op assms(3) by auto
  have ne: "fmlookup (dir fs1) other \<noteq> Some i"
    using inode(4) [of other] assms(3) by simp
  have w: "durable_as (write_append i bs' fs1) other c" for bs'
    using stable_write_other(1) [OF st ne] .
  have sy: "durable_as (sync_file i (write_append i bs fs1)) other c" (is "durable_as ?fs2 _ _")
    using stable_write_other(2) [OF w] ne by simp
  have "fmlookup (dir ?fs2) tmp = Some i"
    using inode(1) by simp
  then have rn: "durable_as (rename_file tmp path ?fs2) other c" (is "durable_as ?fs3 _ _")
    using sy assms(3,4) ne by (auto simp: durable_as_def rename_file_def split: option.splits)
  have "durable_as (sync_directory ?fs3) other c"
    using rn by (auto simp: durable_as_def sync_directory_def split: option.splits)
  with assms(2) st w sy rn show ?thesis
    by (simp add: publish_upto_def op Let_def)
qed

lemma publish_fs_ok:
  assumes "fs_ok fs"
  shows "fs_ok (publish_upto n m tmp path bs fs)"
proof -
  obtain i fs1 where op: "open_truncate tmp fs = (i, fs1)"
    by fastforce
  note inode = open_truncate_inode [OF op assms]
  have "fs_ok (rename_file tmp path fs2)" if "fs_ok fs2" for fs2
    using that by (auto simp: fs_ok_def rename_file_def split: option.splits)
  moreover have "fs_ok (sync_directory fs2)" if "fs_ok fs2" for fs2
    using that by (simp add: fs_ok_def sync_directory_def)
  ultimately show ?thesis
    using inode(3) assms by (simp add: publish_upto_def op Let_def)
qed

section \<open>Properties\<close>

text \<open>
  C5.  Publishing a control-plane file is crash-safe at every point.  Suppose the file is stably
  on disk (or absent).  Whichever call of \<open>replace\<close> fails, or after however many calls the machine
  crashes, a reader finds the old contents or the complete new contents, never a mixture; and once
  \<open>replace\<close> has returned \<open>Ok\<close>, the new contents are stable: every later crash leaves them.
\<close>

theorem replace_crash_safe:
  assumes "fs_ok fs" and "durable_as fs path c" and "pending_name path \<noteq> path"
  shows "(crash (replace_upto n m path bs fs) fs' \<longrightarrow>
            read_file fs' path = c \<or> read_file fs' path = Some bs)
       \<and> (replace fault path bs fs = (Inr (), fs'') \<longrightarrow>
            fs_ok fs'' \<and> durable_as fs'' path (Some bs)
            \<and> (crash fs'' fs' \<longrightarrow> read_file fs' path = Some bs))"
  using replace_upto_crash [OF assms] replace_Ok [OF assms] crash_stable by blast

definition example_fs :: file_system where
  "example_fs =
     \<lparr>dir = fmupd ''meta.json'' 0 fmempty, disk_dir = fmupd ''meta.json'' 0 fmempty,
      contents = (\<lambda>_. [1]), disk_contents = (\<lambda>_. [1]), next_inode = 1\<rparr>"

theorem replace_crash_safe_witness:
  "read_file (snd (replace NoFault ''meta.json'' [2, 3] example_fs)) ''meta.json'' = Some [2, 3]
   \<and> durable_as (snd (replace NoFault ''meta.json'' [2, 3] example_fs)) ''meta.json'' (Some [2, 3])"
proof -
  have "fs_ok example_fs" and "durable_as example_fs ''meta.json'' (Some [1])"
    by (auto simp: fs_ok_def durable_as_def example_fs_def split: if_splits)
  moreover have "pending_name ''meta.json'' \<noteq> ''meta.json''"
    by (simp add: pending_name_def)
  ultimately have "durable_as (snd (replace NoFault ''meta.json'' [2, 3] example_fs)) ''meta.json''
      (Some [2, 3])"
    using replace_crash_safe [of example_fs "''meta.json''" "Some [1]" 0 0 "[2, 3]" example_fs NoFault
        "snd (replace NoFault ''meta.json'' [2, 3] example_fs)"]
    by (simp add: replace_def)
  then show ?thesis
    using stable_read by blast
qed

end
