(* ===== verification/Snapshot.thy ===== *)
theory Snapshot
  imports State_Machine Durability
begin

text \<open>
  The snapshot half of \<^verbatim>\<open>kalpak-control/src/state_machine.rs\<close>: the six payload layouts, the checks
  of \<open>decode_snapshot\<close>, and the store's \<open>open\<close>, \<open>build_snapshot\<close>, \<open>install_snapshot\<close>,
  \<open>persist_snapshot\<close> and \<open>get_current_snapshot\<close>.

  The binary codec (bincode) and the JSON of the durable file are arguments: a \<open>codec\<close> holds one
  decoder per layout, which returns the value and the number of bytes it consumed, and the encoder
  of the current layout.
\<close>

section \<open>Payload layouts\<close>

record v3_lease_state =
  v3_initialized :: bool
  v3_records :: "(block_id, upload_lease) fmap"
  v3_revisions :: "(string, u64) fmap"

record v4_lease_state =
  v4_initialized :: bool
  v4_records :: "(block_id, upload_lease) fmap"
  v4_revisions :: "(string, u64) fmap"
  v4_cancelled :: "(block_id, u64) fmap"

text \<open>The layout without fences and leases (version one has no replica requirements either).\<close>

record legacy_metadata =
  old_agents :: "(agent_id, agent_record) fmap"
  old_bindings :: "(string, binding_record) fmap"
  old_children :: "(string, string list) fmap"
  old_block_refs :: "(block_id, u32) fmap"
  old_last_applied :: "log_id option"
  old_membership :: stored_membership

record v2_metadata = legacy_metadata +
  old_replica_requirements :: "(block_id, nat) fmap"

record 'l versioned_metadata = v2_metadata +
  old_leases :: 'l

definition with_leases :: "('l \<Rightarrow> lease_state) \<Rightarrow> 'l versioned_metadata \<Rightarrow> metadata_state" where
  "with_leases convert old =
     \<lparr>block_fences = fmempty, leases = convert (old_leases old),
      replica_requirements = old_replica_requirements old, agents = old_agents old,
      bindings = old_bindings old, children = old_children old, block_refs = old_block_refs old,
      last_applied = old_last_applied old, membership = old_membership old\<rparr>"

definition from_v4_leases :: "v4_lease_state \<Rightarrow> lease_state" where
  "from_v4_leases l =
     default_leases\<lparr>initialized := v4_initialized l, records := v4_records l,
       revisions := v4_revisions l, cancelled := v4_cancelled l\<rparr>"

definition from_v3 :: "v3_lease_state versioned_metadata \<Rightarrow> metadata_state" where
  "from_v3 old =
     \<lparr>block_fences = fmempty,
      leases = default_leases\<lparr>initialized := v3_initialized (old_leases old),
        records := v3_records (old_leases old), revisions := v3_revisions (old_leases old)\<rparr>,
      replica_requirements = old_replica_requirements old, agents = old_agents old,
      bindings = old_bindings old, children = old_children old, block_refs = old_block_refs old,
      last_applied = old_last_applied old, membership = old_membership old\<rparr>"

definition from_v2 :: "v2_metadata \<Rightarrow> metadata_state" where
  "from_v2 old =
     \<lparr>block_fences = fmempty, leases = default_leases,
      replica_requirements = old_replica_requirements old, agents = old_agents old,
      bindings = old_bindings old, children = old_children old, block_refs = old_block_refs old,
      last_applied = old_last_applied old, membership = old_membership old\<rparr>"

definition from_legacy :: "legacy_metadata \<Rightarrow> metadata_state" where
  "from_legacy old =
     \<lparr>block_fences = fmempty, leases = default_leases, replica_requirements = fmempty,
      agents = old_agents old, bindings = old_bindings old, children = old_children old,
      block_refs = old_block_refs old, last_applied = old_last_applied old,
      membership = old_membership old\<rparr>"

definition SNAPSHOT_V2 :: bytes where "SNAPSHOT_V2 = str_bytes ''KLPKSM02''"
definition SNAPSHOT_V3 :: bytes where "SNAPSHOT_V3 = str_bytes ''KLPKSM03''"
definition SNAPSHOT_V4 :: bytes where "SNAPSHOT_V4 = str_bytes ''KLPKSM04''"
definition SNAPSHOT_V5 :: bytes where "SNAPSHOT_V5 = str_bytes ''KLPKSM05''"
definition SNAPSHOT_V6 :: bytes where "SNAPSHOT_V6 = str_bytes ''KLPKSM06''"

lemmas snapshot_tags = SNAPSHOT_V2_def SNAPSHOT_V3_def SNAPSHOT_V4_def SNAPSHOT_V5_def SNAPSHOT_V6_def

definition strip_prefix :: "bytes \<Rightarrow> bytes \<Rightarrow> bytes option" where
  "strip_prefix p data = (if take (length p) data = p then Some (drop (length p) data) else None)"

record codec =
  decode_v6 :: "bytes \<Rightarrow> string + metadata_state \<times> nat"
  decode_v5 :: "bytes \<Rightarrow> string + lease_state versioned_metadata \<times> nat"
  decode_v4 :: "bytes \<Rightarrow> string + v4_lease_state versioned_metadata \<times> nat"
  decode_v3 :: "bytes \<Rightarrow> string + v3_lease_state versioned_metadata \<times> nat"
  decode_v2 :: "bytes \<Rightarrow> string + v2_metadata \<times> nat"
  decode_v1 :: "bytes \<Rightarrow> string + legacy_metadata \<times> nat"
  encode_v6 :: "metadata_state \<Rightarrow> string + bytes"

text \<open>One decoded payload: converted to the current state, the tag added to the bytes consumed.\<close>

definition converted :: "('a \<Rightarrow> metadata_state) \<Rightarrow> nat \<Rightarrow> string + 'a \<times> nat \<Rightarrow> string + metadata_state \<times> nat" where
  "converted f tag r = map_sum id (\<lambda>(old, consumed). (f old, consumed + tag)) r"

definition decode_payload :: "codec \<Rightarrow> bytes \<Rightarrow> string + metadata_state \<times> nat" where
  "decode_payload c data =
     (case strip_prefix SNAPSHOT_V6 data of
        Some p \<Rightarrow> converted id (length SNAPSHOT_V6) (decode_v6 c p)
      | None \<Rightarrow>
     (case strip_prefix SNAPSHOT_V5 data of
        Some p \<Rightarrow> converted (with_leases id) (length SNAPSHOT_V5) (decode_v5 c p)
      | None \<Rightarrow>
     (case strip_prefix SNAPSHOT_V4 data of
        Some p \<Rightarrow> converted (with_leases from_v4_leases) (length SNAPSHOT_V4) (decode_v4 c p)
      | None \<Rightarrow>
     (case strip_prefix SNAPSHOT_V3 data of
        Some p \<Rightarrow> converted from_v3 (length SNAPSHOT_V3) (decode_v3 c p)
      | None \<Rightarrow>
     (case strip_prefix SNAPSHOT_V2 data of
        Some p \<Rightarrow> converted from_v2 (length SNAPSHOT_V2) (decode_v2 c p)
      | None \<Rightarrow> converted from_legacy 0 (decode_v1 c data))))))"

section \<open>Checks\<close>

record snapshot_meta =
  last_log_id :: "log_id option"
  last_membership :: stored_membership
  snapshot_id :: string

datatype 'a outcome = Ok 'a | Failed string | Panicked

text \<open>
  \<^verbatim>\<open>map.iter().any(f)\<close> over a \<^verbatim>\<open>BTreeMap\<close>: keys in ascending order, the first hit ends the
  search; the closure may panic (\<open>None\<close>).
\<close>

fun any_checked :: "('a \<Rightarrow> bool option) \<Rightarrow> 'a list \<Rightarrow> bool option" where
  "any_checked f [] = Some False"
| "any_checked f (x # xs) =
     (case f x of
        None \<Rightarrow> None
      | Some True \<Rightarrow> Some True
      | Some False \<Rightarrow> any_checked f xs)"

text \<open>\<^verbatim>\<open>records[id]\<close> panics on a missing key.\<close>

definition bad_position :: "metadata_state \<Rightarrow> block_id \<times> u64 \<Rightarrow> bool option" where
  "bad_position s e =
     (case fmlookup (records (leases s)) (fst e) of
        None \<Rightarrow> None
      | Some l \<Rightarrow> Some (snd e < created_at l \<or> applied_index s < snd e))"

definition inconsistent_leases :: "(cache_key \<Rightarrow> string) \<Rightarrow> metadata_state \<Rightarrow> bool" where
  "inconsistent_leases bk s \<longleftrightarrow>
     fmany (\<lambda>k _. \<not> contains_key (bindings s) k) (revisions (leases s))
     \<or> fmany (\<lambda>_ l. \<not> contains_key (agents s) (lease_agent l)
          \<or> (case committed l of
               None \<Rightarrow> False
             | Some c \<Rightarrow>
                 (case fmlookup (revisions (leases s)) (bk (cb_key (commit_binding c))) of
                    None \<Rightarrow> True
                  | Some r \<Rightarrow> r \<le> commit_revision c)))
         (records (leases s))"

definition check_state :: "(cache_key \<Rightarrow> string) \<Rightarrow> metadata_state \<Rightarrow> metadata_state outcome" where
  "check_state bk s =
     (if MAX_REPLICA_REQUIREMENTS < fmsize (replica_requirements s)
        \<or> fmany (\<lambda>_ n. \<not> (2 \<le> n \<and> n \<le> 16)) (replica_requirements s)
      then Failed ''invalid snapshot replica requirements''
      else case validate bk (leases s) of
        Inl e \<Rightarrow> Failed e
      | Inr _ \<Rightarrow>
          if MAX_BLOCK_FENCES < fmsize (block_fences s)
            \<or> fmany (\<lambda>_ t. applied_index s < t) (block_fences s)
          then Failed ''invalid block fence positions''
          else case any_checked (bad_position s) (btree_entries (cancelled (leases s))) of
            None \<Rightarrow> Panicked
          | Some True \<Rightarrow> Failed ''invalid lease cancellation position''
          | Some False \<Rightarrow>
              (case any_checked (bad_position s) (btree_entries (expired (leases s))) of
                 None \<Rightarrow> Panicked
               | Some True \<Rightarrow> Failed ''invalid lease expiry position''
               | Some False \<Rightarrow>
                   if inconsistent_leases bk s then Failed ''inconsistent upload lease snapshot''
                   else Ok s))"

definition decode_snapshot ::
  "(cache_key \<Rightarrow> string) \<Rightarrow> codec \<Rightarrow> snapshot_meta \<Rightarrow> bytes \<Rightarrow> metadata_state outcome" where
  "decode_snapshot bk c meta data =
     (case decode_payload c data of
        Inl e \<Rightarrow> Failed e
      | Inr (s, consumed) \<Rightarrow>
          if consumed \<noteq> length data \<or> last_applied s \<noteq> last_log_id meta
            \<or> membership s \<noteq> last_membership meta
          then Failed ''snapshot metadata/payload mismatch''
          else check_state bk s)"

section \<open>The store\<close>

record durable_snapshot =
  version :: u32
  saved_meta :: snapshot_meta
  saved_data :: bytes

text \<open>The JSON codec of the durable file.\<close>

record json_codec =
  to_json :: "durable_snapshot \<Rightarrow> string + bytes"
  from_json :: "bytes \<Rightarrow> string + durable_snapshot"

record state_machine_store =
  state :: metadata_state
  snapshot :: "(snapshot_meta \<times> bytes) option"
  snapshot_idx :: u64
  durable :: bool

definition SNAPSHOT_FILE :: string where "SNAPSHOT_FILE = ''raft-snapshot.json''"

definition default_store :: state_machine_store where
  "default_store = \<lparr>state = default_state, snapshot = None, snapshot_idx = 0, durable = False\<rparr>"

text \<open>\<open>StateMachineStore::open\<close>, on the directory's file system.\<close>

definition open_store ::
  "(cache_key \<Rightarrow> string) \<Rightarrow> codec \<Rightarrow> json_codec \<Rightarrow> file_system \<Rightarrow> state_machine_store outcome" where
  "open_store bk c j fs =
     (let store = default_store\<lparr>durable := True\<rparr> in
      case read_file fs SNAPSHOT_FILE of
        None \<Rightarrow> Ok store
      | Some bs \<Rightarrow>
          (case from_json j bs of
             Inl e \<Rightarrow> Failed e
           | Inr saved \<Rightarrow>
               if version saved \<noteq> 1 then Failed ''unsupported snapshot version''
               else case decode_snapshot bk c (saved_meta saved) (saved_data saved) of
                      Failed e \<Rightarrow> Failed e
                    | Panicked \<Rightarrow> Panicked
                    | Ok s \<Rightarrow>
                        Ok (store\<lparr>state := s, snapshot := Some (saved_meta saved, saved_data saved)\<rparr>)))"

definition persist_snapshot ::
  "json_codec \<Rightarrow> fault \<Rightarrow> state_machine_store \<Rightarrow> snapshot_meta \<Rightarrow> bytes \<Rightarrow> file_system
     \<Rightarrow> (string + unit) \<times> file_system" where
  "persist_snapshot j fault store meta data fs =
     (if durable store
      then case to_json j \<lparr>version = 1, saved_meta = meta, saved_data = data\<rparr> of
             Inl e \<Rightarrow> (Inl e, fs)
           | Inr bs \<Rightarrow> replace fault SNAPSHOT_FILE bs fs
      else (Inr (), fs))"

text \<open>
  \<^verbatim>\<open>format!("snapshot-{}-{idx}", ..)\<close>; \<open>fmt\<close> prints the identifier from the two numbers.
\<close>

definition build_snapshot ::
  "codec \<Rightarrow> json_codec \<Rightarrow> (u64 \<Rightarrow> u64 \<Rightarrow> string) \<Rightarrow> fault \<Rightarrow> state_machine_store \<Rightarrow> file_system
     \<Rightarrow> (string + snapshot_meta \<times> bytes) \<times> state_machine_store \<times> file_system" where
  "build_snapshot c j fmt fault store fs =
     (case encode_v6 c (state store) of
        Inl e \<Rightarrow> (Inl e, store, fs)
      | Inr encoded \<Rightarrow>
          let data = SNAPSHOT_V6 @ encoded;
              idx = snapshot_idx store + 1;
              store = store\<lparr>snapshot_idx := idx\<rparr>;
              meta = \<lparr>last_log_id = last_applied (state store),
                      last_membership = membership (state store),
                      snapshot_id = fmt (applied_index (state store)) idx\<rparr>
          in case persist_snapshot j fault store meta data fs of
               (Inl e, fs) \<Rightarrow> (Inl e, store, fs)
             | (Inr _, fs) \<Rightarrow> (Inr (meta, data), store\<lparr>snapshot := Some (meta, data)\<rparr>, fs))"

definition install_snapshot ::
  "(cache_key \<Rightarrow> string) \<Rightarrow> codec \<Rightarrow> json_codec \<Rightarrow> fault \<Rightarrow> state_machine_store \<Rightarrow> snapshot_meta
     \<Rightarrow> bytes \<Rightarrow> file_system \<Rightarrow> (unit outcome) \<times> state_machine_store \<times> file_system" where
  "install_snapshot bk c j fault store meta data fs =
     (case decode_snapshot bk c meta data of
        Failed e \<Rightarrow> (Failed e, store, fs)
      | Panicked \<Rightarrow> (Panicked, store, fs)
      | Ok s \<Rightarrow>
          (case persist_snapshot j fault store meta data fs of
             (Inl e, fs) \<Rightarrow> (Failed e, store, fs)
           | (Inr _, fs) \<Rightarrow>
               (Ok (), store\<lparr>state := s, snapshot := Some (meta, data)\<rparr>, fs)))"

definition get_current_snapshot :: "state_machine_store \<Rightarrow> (snapshot_meta \<times> bytes) option" where
  "get_current_snapshot store = snapshot store"

definition applied_state :: "state_machine_store \<Rightarrow> log_id option \<times> stored_membership" where
  "applied_state store = (last_applied (state store), membership (state store))"

text \<open>\<open>RaftStateMachine::apply\<close> on the store.\<close>

definition apply_store ::
  "(cache_key \<Rightarrow> string) \<Rightarrow> state_machine_store \<Rightarrow> entry list \<Rightarrow> state_machine_store \<times> response list" where
  "apply_store bk store es =
     (let (s, rs) = apply_entries bk (state store) es in (store\<lparr>state := s\<rparr>, rs))"

end
