(* ===== verification/Metadata_Invariant.thy ===== *)
theory Metadata_Invariant
  imports Lease_Invariant Snapshot
begin

text \<open>
  The well-formedness invariant of the replicated state: what \<open>decode_snapshot\<close> checks, and that no
  lease was created after the last applied entry.  Every request preserves it, so every reachable
  state can be snapshotted and read back.
\<close>

section \<open>The invariant\<close>

definition requirements_ok :: "metadata_state \<Rightarrow> bool" where
  "requirements_ok s \<longleftrightarrow>
     fmsize (replica_requirements s) \<le> MAX_REPLICA_REQUIREMENTS
     \<and> (\<forall>i n. fmlookup (replica_requirements s) i = Some n \<longrightarrow> 2 \<le> n \<and> n \<le> 16)"

definition fences_ok :: "metadata_state \<Rightarrow> bool" where
  "fences_ok s \<longleftrightarrow>
     fmsize (block_fences s) \<le> MAX_BLOCK_FENCES
     \<and> (\<forall>i t. fmlookup (block_fences s) i = Some t \<longrightarrow> t \<le> applied_index s)"

definition positions_ok :: "metadata_state \<Rightarrow> (block_id, u64) fmap \<Rightarrow> bool" where
  "positions_ok s m \<longleftrightarrow>
     (\<forall>i t. fmlookup m i = Some t \<longrightarrow>
        (\<exists>l. fmlookup (records (leases s)) i = Some l \<and> created_at l \<le> t \<and> t \<le> applied_index s))"

definition created_ok :: "metadata_state \<Rightarrow> bool" where
  "created_ok s \<longleftrightarrow>
     (\<forall>i l. fmlookup (records (leases s)) i = Some l \<longrightarrow> created_at l \<le> applied_index s)"

definition owners_ok :: "metadata_state \<Rightarrow> bool" where
  "owners_ok s \<longleftrightarrow>
     (\<forall>i l. fmlookup (records (leases s)) i = Some l \<longrightarrow> fmlookup (agents s) (lease_agent l) \<noteq> None)"

definition commits_ok :: "(cache_key \<Rightarrow> string) \<Rightarrow> metadata_state \<Rightarrow> bool" where
  "commits_ok bk s \<longleftrightarrow>
     (\<forall>i l c. fmlookup (records (leases s)) i = Some l \<longrightarrow> committed l = Some c \<longrightarrow>
        (\<exists>r. fmlookup (revisions (leases s)) (bk (cb_key (commit_binding c))) = Some r
             \<and> commit_revision c < r))"

definition revisions_bound :: "metadata_state \<Rightarrow> bool" where
  "revisions_bound s \<longleftrightarrow>
     (\<forall>k r. fmlookup (revisions (leases s)) k = Some r \<longrightarrow> fmlookup (bindings s) k \<noteq> None)"

definition state_inv :: "(cache_key \<Rightarrow> string) \<Rightarrow> metadata_state \<Rightarrow> bool" where
  "state_inv bk s \<longleftrightarrow>
     requirements_ok s \<and> validate bk (leases s) = Inr () \<and> fences_ok s
     \<and> positions_ok s (cancelled (leases s)) \<and> positions_ok s (expired (leases s))
     \<and> created_ok s \<and> owners_ok s \<and> commits_ok bk s \<and> revisions_bound s"

lemmas state_inv_parts = requirements_ok_def fences_ok_def positions_ok_def created_ok_def
  owners_ok_def commits_ok_def revisions_bound_def

section \<open>The invariant and the snapshot check\<close>

lemma any_checked_False: "any_checked f xs = Some False \<longleftrightarrow> (\<forall>x\<in>set xs. f x = Some False)"
  by (induction xs) (auto split: option.splits bool.splits)

lemma any_checked_None: "any_checked f xs = None \<Longrightarrow> \<exists>x\<in>set xs. f x = None"
  by (induction xs) (auto split: option.splits bool.splits)

lemma bad_positions_iff:
  "any_checked (bad_position s) (btree_entries m) = Some False \<longleftrightarrow> positions_ok s m"
  by (fastforce simp: any_checked_False set_btree_entries bad_position_def positions_ok_def
      split: option.splits)

lemma bad_positions_panic:
  assumes "any_checked (bad_position s) (btree_entries m) = None"
  obtains i t where "fmlookup m i = Some t" and "fmlookup (records (leases s)) i = None"
  using any_checked_None [OF assms] that
  by (auto simp: set_btree_entries bad_position_def split: option.splits)

lemma requirements_check:
  "\<not> (MAX_REPLICA_REQUIREMENTS < fmsize (replica_requirements s)
      \<or> fmany (\<lambda>_ n. \<not> (2 \<le> n \<and> n \<le> 16)) (replica_requirements s)) \<longleftrightarrow> requirements_ok s"
  by (auto simp: requirements_ok_def fmany_iff not_less)

lemma fences_check:
  "\<not> (MAX_BLOCK_FENCES < fmsize (block_fences s)
      \<or> fmany (\<lambda>_ t. applied_index s < t) (block_fences s)) \<longleftrightarrow> fences_ok s"
  by (auto simp: fences_ok_def fmany_iff not_less)

lemma inconsistent_iff:
  "\<not> inconsistent_leases bk s \<longleftrightarrow> owners_ok s \<and> commits_ok bk s \<and> revisions_bound s"
  unfolding inconsistent_leases_def fmany_iff owners_ok_def commits_ok_def revisions_bound_def
  by (fastforce simp: not_le split: option.splits)

lemma check_state_Ok_iff:
  "check_state bk s = Ok s' \<longleftrightarrow>
     s' = s \<and> requirements_ok s \<and> validate bk (leases s) = Inr () \<and> fences_ok s
     \<and> positions_ok s (cancelled (leases s)) \<and> positions_ok s (expired (leases s))
     \<and> owners_ok s \<and> commits_ok bk s \<and> revisions_bound s"
  unfolding check_state_def requirements_check [symmetric] fences_check [symmetric]
    bad_positions_iff [symmetric] inconsistent_iff [symmetric]
  by (auto split: sum.splits option.splits bool.splits)

lemma check_state_no_panic: "check_state bk s \<noteq> Panicked"
proof
  assume "check_state bk s = Panicked"
  then have valid: "validate bk (leases s) = Inr ()"
    and "any_checked (bad_position s) (btree_entries (cancelled (leases s))) = None
       \<or> any_checked (bad_position s) (btree_entries (expired (leases s))) = None"
    by (auto simp: check_state_def split: sum.splits option.splits bool.splits if_splits)
  then obtain i t where "fmlookup (cancelled (leases s)) i = Some t \<or> fmlookup (expired (leases s)) i = Some t"
    and "fmlookup (records (leases s)) i = None"
    by (meson bad_positions_panic)
  with valid show False
    by (auto simp: validate_expand)
qed

lemma state_inv_check: "state_inv bk s \<longleftrightarrow> check_state bk s = Ok s \<and> created_ok s"
  by (auto simp: state_inv_def check_state_Ok_iff)


section \<open>Preservation\<close>

lemma state_inv_default: "state_inv bk default_state"
  by (simp add: state_inv_def default_state_def default_leases_def state_inv_parts validate_expand
      reserved_blocks_def)

text \<open>The parts that only depend on the records and on \<open>applied_index\<close>.\<close>

lemma state_inv_leases:
  assumes "state_inv bk s" and "validate bk L = Inr ()"
    and "\<And>i l. fmlookup (records L) i = Some l \<Longrightarrow>
           fmlookup (agents s) (lease_agent l) \<noteq> None \<and> created_at l \<le> applied_index s
           \<and> (\<forall>c. committed l = Some c \<longrightarrow>
                (\<exists>r. fmlookup (revisions L) (bk (cb_key (commit_binding c))) = Some r \<and> commit_revision c < r))"
    and "\<And>k r. fmlookup (revisions L) k = Some r \<Longrightarrow> fmlookup (bindings s) k \<noteq> None"
    and "\<And>i t. fmlookup (cancelled L) i = Some t \<or> fmlookup (expired L) i = Some t \<Longrightarrow>
           \<exists>l. fmlookup (records L) i = Some l \<and> created_at l \<le> t \<and> t \<le> applied_index s"
  shows "state_inv bk (s\<lparr>leases := L\<rparr>)"
  using assms
  by (fastforce simp: state_inv_def state_inv_parts applied_index_def)

lemma state_inv_records:
  assumes "state_inv bk s" and "fmlookup (records (leases s)) i = Some l"
  shows "fmlookup (agents s) (lease_agent l) \<noteq> None" and "created_at l \<le> applied_index s"
    and "committed l = Some c \<Longrightarrow>
      \<exists>r. fmlookup (revisions (leases s)) (bk (cb_key (commit_binding c))) = Some r \<and> commit_revision c < r"
  using assms unfolding state_inv_def state_inv_parts by blast+

lemma state_inv_maps:
  assumes "state_inv bk s"
  shows "validate bk (leases s) = Inr ()"
    and "fmlookup (revisions (leases s)) k = Some r \<Longrightarrow> fmlookup (bindings s) k \<noteq> None"
    and "fmlookup (cancelled (leases s)) i = Some t \<or> fmlookup (expired (leases s)) i = Some t \<Longrightarrow>
      \<exists>l. fmlookup (records (leases s)) i = Some l \<and> created_at l \<le> t \<and> t \<le> applied_index s"
  using assms unfolding state_inv_def state_inv_parts by blast+

lemma absent_unmarked:
  assumes "state_inv bk s" and "fmlookup (records (leases s)) i = None"
  shows "fmlookup (cancelled (leases s)) i = None" and "fmlookup (expired (leases s)) i = None"
proof -
  have "\<not> (\<exists>t. fmlookup (cancelled (leases s)) i = Some t \<or> fmlookup (expired (leases s)) i = Some t)"
    using state_inv_maps(3) [OF assms(1), of i] assms(2) by fastforce
  then show "fmlookup (cancelled (leases s)) i = None" and "fmlookup (expired (leases s)) i = None"
    by (metis option.exhaust)+
qed

lemma uninitialized_empty:
  assumes "state_inv bk s" and "\<not> initialized (leases s)"
  shows "records (leases s) = fmempty" and "revisions (leases s) = fmempty"
  using state_inv_maps(1) [OF assms(1)] assms(2) by (simp_all add: validate_iff)

lemma activate_id:
  assumes "state_inv bk s"
  shows "activate s = s \<or> records (leases s) = fmempty"
  using uninitialized_empty [OF assms] by (auto simp: activate_def)

lemma state_inv_activate:
  assumes "state_inv bk s"
  shows "state_inv bk (activate s)"
proof (cases "initialized (leases s)")
  case True
  with assms show ?thesis
    by (simp add: activate_def)
next
  case False
  note empty = uninitialized_empty [OF assms False]
  have "validate bk ((leases s)\<lparr>initialized := True, revisions := fmempty\<rparr>) = Inr ()"
    using validate_activate [OF state_inv_maps(1) [OF assms]] False by (simp add: activate_def)
  then have "state_inv bk (s\<lparr>leases := (leases s)\<lparr>initialized := True, revisions := fmempty\<rparr>\<rparr>)"
    using assms empty state_inv_maps(3) [OF assms]
    by (intro state_inv_leases) simp_all
  with False show ?thesis
    by (simp add: activate_def)
qed

lemma state_inv_new_record:
  assumes inv: "state_inv bk s" and "initialized (leases s)"
    and new: "fmlookup (records (leases s)) i = None"
    and "committed l = None" and "lease_blocks l \<noteq> []" and "length (lease_blocks l) \<le> MAX_LEASE_BLOCKS"
    and "fmsize (records (leases s)) < MAX_LEASES"
    and "reserved_blocks (leases s) + length (lease_blocks l) \<le> MAX_RESERVED_BLOCKS"
    and "fmlookup (agents s) (lease_agent l) \<noteq> None" and "created_at l \<le> applied_index s"
  shows "state_inv bk (s\<lparr>leases := (leases s)\<lparr>records := fmupd i l (records (leases s))\<rparr>\<rparr>)"
proof -
  have "validate bk ((leases s)\<lparr>records := fmupd i l (records (leases s))\<rparr>) = Inr ()"
    using assms by (intro validate_new_record [OF state_inv_maps(1) [OF inv]]) simp_all
  then show ?thesis
    using assms state_inv_maps(2,3) [OF inv] state_inv_records [OF inv] absent_unmarked [OF inv new]
    by (intro state_inv_leases [OF inv]) (auto split: if_splits)
qed

lemma state_inv_reserve:
  assumes "state_inv bk s" and "reserve s i a bs = (s', r)"
  shows "state_inv bk s'"
  using assms(2)
proof (cases rule: reserve_cases)
  case reserved
  let ?l = "\<lparr>lease_agent = a, lease_blocks = bs, created_at = applied_index s, committed = None\<rparr>"
  show ?thesis
    using state_inv_new_record [OF state_inv_activate [OF assms(1)], of i ?l] reserved by simp
qed (use assms(1) state_inv_activate in auto)

lemma state_inv_cancel:
  assumes "state_inv bk s" and "cancel s i a = (s', r)"
  shows "state_inv bk s'"
  using assms(2)
proof (cases rule: cancel_cases)
  case (cancelled l)
  note valid = state_inv_maps(1) [OF assms(1)]
  have "fmlookup (expired (leases s)) i = None"
    using cancelled valid by (auto simp: validate_expand is_expired_iff)
  with cancelled have "validate bk ((leases s)\<lparr>cancelled := or_insert i (applied_index s)
      (cancelled (leases s))\<rparr>) = Inr ()"
    by (intro validate_cancelled [OF valid])
  then have "state_inv bk (s\<lparr>leases := (leases s)\<lparr>cancelled := or_insert i (applied_index s)
      (cancelled (leases s))\<rparr>\<rparr>)"
    using cancelled state_inv_maps [OF assms(1)] state_inv_records [OF assms(1)]
    by (intro state_inv_leases [OF assms(1)]) (fastforce simp: fmlookup_or_insert split: if_splits)+
  with cancelled show ?thesis
    by simp
qed (use assms(1) in auto)

lemma state_inv_expire:
  assumes "state_inv bk s" and "expire s i g t = (s', r)"
  shows "state_inv bk s'"
  using assms(2)
proof (cases rule: expire_cases)
  case (expired d)
  note valid = state_inv_maps(1) [OF assms(1)]
  obtain l where l: "fmlookup (records (leases s)) i = Some l"
    using expired by (auto simp: is_expired_iff)
  have "validate bk ((leases s)\<lparr>expired := or_insert i (applied_index s) (expired (leases s))\<rparr>) = Inr ()"
    using expired by (intro validate_expired [OF valid])
  then have "state_inv bk (s\<lparr>leases := (leases s)\<lparr>expired := or_insert i (applied_index s)
      (expired (leases s))\<rparr>\<rparr>)"
    using l state_inv_maps [OF assms(1)] state_inv_records [OF assms(1)]
    by (intro state_inv_leases [OF assms(1)]) (fastforce simp: fmlookup_or_insert split: if_splits)+
  with expired show ?thesis
    by simp
qed (use assms(1) in auto)

lemma state_inv_advance:
  assumes "state_inv bk s" and "advance s e = (s', r)"
  shows "state_inv bk s'"
  using assms(2)
proof (cases rule: advance_cases)
  case (advanced n)
  have "validate bk ((leases s)\<lparr>clock := n\<rparr>) = Inr ()"
    using advanced by (intro validate_clock [OF state_inv_maps(1) [OF assms(1)]] checked_add_le(1))
  then have "state_inv bk (s\<lparr>leases := (leases s)\<lparr>clock := n\<rparr>\<rparr>)"
    using state_inv_maps [OF assms(1)] state_inv_records [OF assms(1)]
    by (intro state_inv_leases [OF assms(1)]) auto
  with advanced show ?thesis
    by simp
qed (use assms(1) in auto)

lemma state_inv_renew:
  assumes "state_inv bk s" and "renew s i a e ttl = (s', r)"
  shows "state_inv bk s'"
  using assms(2)
proof (cases rule: renew_cases)
  case (renewed l t)
  note valid = state_inv_maps(1) [OF assms(1)]
  let ?d = "\<lparr>generation = e + 1, deadline_tick = t, ttl_ticks = ttl\<rparr>"
  have "t = clock (leases s) + ttl" and "ttl \<le> t"
    using renewed checked_add_SomeD checked_add_le by blast+
  then have "deadline_ok (clock (leases s)) ?d"
    using renewed word_Suc_unat(3) by (simp add: deadline_ok_def)
  moreover have "fmlookup (expired (leases s)) i = None"
    using renewed valid by (auto simp: validate_expand is_expired_iff)
  ultimately have "validate bk ((leases s)\<lparr>deadlines := fmupd i ?d (deadlines (leases s))\<rparr>) = Inr ()"
    using renewed by (intro validate_deadline [OF valid])
  then have "state_inv bk (s\<lparr>leases := (leases s)\<lparr>deadlines := fmupd i ?d (deadlines (leases s))\<rparr>\<rparr>)"
    using state_inv_maps [OF assms(1)] state_inv_records [OF assms(1)]
    by (intro state_inv_leases [OF assms(1)]) auto
  with renewed show ?thesis
    by simp
qed (use assms(1) in auto)


lemma bind_one_simps [simp]:
  "leases (bind_one bk s a k bs p) = bump_revision (bk k) (leases s)"
  "bindings (bind_one bk s a k bs p) = fmupd (bk k) \<lparr>binding_agent = a, binding_blocks = bs\<rparr> (bindings s)"
  "children (bind_one bk s a k bs p) = link_child bk (bk k) p (children s)"
  "agents (bind_one bk s a k bs p) = agents s"
  "replica_requirements (bind_one bk s a k bs p) = replica_requirements s"
  "block_fences (bind_one bk s a k bs p) = block_fences s"
  "last_applied (bind_one bk s a k bs p) = last_applied s"
  "membership (bind_one bk s a k bs p) = membership s"
  "applied_index (bind_one bk s a k bs p) = applied_index s"
  by (simp_all add: bind_one_def Let_def applied_index_def)

lemma bump_revision_simps [simp]:
  "initialized (bump_revision k L) = initialized L" "records (bump_revision k L) = records L"
  "cancelled (bump_revision k L) = cancelled L" "clock (bump_revision k L) = clock L"
  "deadlines (bump_revision k L) = deadlines L" "expired (bump_revision k L) = expired L"
  "is_expired (bump_revision k L) i = is_expired L i"
  by (simp_all add: bump_revision_def is_expired_def cong: option.case_cong)

lemma bump_revision_lookup:
  "fmlookup (revisions (bump_revision k L)) j =
     (if initialized L \<and> k = j
      then Some (saturating_add (current_revision L k) 1)
      else fmlookup (revisions L) j)"
  by (simp add: bump_revision_def)

lemma bump_revision_ge:
  assumes "fmlookup (revisions L) j = Some r"
  shows "\<exists>r'. fmlookup (revisions (bump_revision k L)) j = Some r' \<and> r \<le> r'"
  using assms saturating_add_ge [of r 1] by (auto simp: bump_revision_lookup current_revision_def)

lemma commits_ok_bump:
  assumes "commits_ok bk s" and "fmlookup (records (leases s)) i = Some l" and "committed l = Some c"
  shows "\<exists>r. fmlookup (revisions (bump_revision k (leases s))) (bk (cb_key (commit_binding c))) = Some r
        \<and> commit_revision c < r"
proof -
  obtain r where "fmlookup (revisions (leases s)) (bk (cb_key (commit_binding c))) = Some r"
    and "commit_revision c < r"
    using assms unfolding commits_ok_def by blast
  with bump_revision_ge [of "leases s" _ r k] show ?thesis
    by (meson order_less_le_trans)
qed

lemma state_inv_bind_one:
  assumes "state_inv bk s"
  shows "state_inv bk (bind_one bk s a k bs p)"
proof -
  have "validate bk (bump_revision (bk k) (leases s)) = Inr ()"
    using assms by (intro validate_bump) (simp add: state_inv_def)
  moreover have "commits_ok bk (bind_one bk s a k bs p)"
    using commits_ok_bump [of bk s] assms unfolding state_inv_def commits_ok_def by simp
  moreover have "revisions_bound (bind_one bk s a k bs p)"
    using assms by (auto simp: state_inv_def revisions_bound_def bump_revision_lookup)
  ultimately show ?thesis
    using assms by (simp add: state_inv_def requirements_ok_def fences_ok_def positions_ok_def
        created_ok_def owners_ok_def)
qed

lemma state_inv_bind_many: "state_inv bk s \<Longrightarrow> state_inv bk (bind_many bk s a bs)"
  by (induction bk s a bs rule: bind_many.induct) (auto intro: state_inv_bind_one)

text \<open>What a successful \<open>validate_commit\<close> says; in particular the lease to mark exists.\<close>

lemma validate_commit_True:
  assumes "validate_commit bk s i a b expected = Inr True"
  obtains l where "fmlookup (records (leases s)) i = Some l" and "valid_binding b"
    and "lease_agent l = a" and "lease_blocks l = cb_blocks b" and "committed l = None"
    and "fmlookup (cancelled (leases s)) i = None" and "\<not> is_expired (leases s) i"
    and "\<And>old. fmlookup (bindings s) (bk (cb_key b)) = Some old \<Longrightarrow> binding_agent old = a"
    and "current_revision (leases s) (bk (cb_key b)) = expected"
    and "expected \<noteq> - 1"
proof (cases "fmlookup (records (leases s)) i")
  case None
  with assms show ?thesis
    by (simp add: validate_commit_def split: if_splits)
next
  case (Some l)
  have ok: "valid_binding b" "lease_agent l = a" "lease_blocks l = cb_blocks b"
    "fmlookup (cancelled (leases s)) i = None" "\<not> is_expired (leases s) i"
    using assms Some by (auto simp: validate_commit_def split: if_splits)
  then have fresh: "committed l = None"
    using assms Some by (auto simp: validate_commit_def split: if_splits option.splits)
  then have own: "\<not> (case fmlookup (bindings s) (bk (cb_key b)) of None \<Rightarrow> False
      | Some old \<Rightarrow> binding_agent old \<noteq> a)"
    using assms Some ok by (auto simp: validate_commit_def Let_def split: if_splits)
  with fresh have "current_revision (leases s) (bk (cb_key b)) = expected" and "expected \<noteq> - 1"
    using assms Some ok by (auto simp: validate_commit_def Let_def split: if_splits)
  moreover have "binding_agent old = a" if "fmlookup (bindings s) (bk (cb_key b)) = Some old" for old
    using own that by simp
  ultimately show ?thesis
    using that [of l] Some ok fresh by blast
qed

lemma state_inv_commit:
  assumes inv: "state_inv bk s" and ok: "validate_commit bk s i a b expected = Inr True"
  shows "state_inv bk (fst (apply_unfenced bk s (CommitUploadLease i a b expected)))"
proof -
  obtain l where l: "fmlookup (records (leases s)) i = Some l" "valid_binding b"
    "lease_blocks l = cb_blocks b" "fmlookup (cancelled (leases s)) i = None"
    "\<not> is_expired (leases s) i" "expected \<noteq> - 1"
    "current_revision (leases s) (bk (cb_key b)) = expected"
    using ok by (rule validate_commit_True)
  let ?s = "bind_one bk s a (cb_key b) (cb_blocks b) (cb_parent b)"
  let ?l = "l\<lparr>committed := Some \<lparr>commit_binding = b, commit_revision = expected\<rparr>\<rparr>"
  have inv': "state_inv bk ?s"
    by (rule state_inv_bind_one [OF inv])
  have init: "initialized (leases s)"
    using uninitialized_empty(1) [OF inv] l(1) by fastforce
  then have rev: "fmlookup (revisions (leases ?s)) (bk (cb_key b)) = Some (expected + 1)"
    using l(6,7) by (simp add: bump_revision_lookup saturating_add_1)
  have "expected < expected + 1"
    using l(6) by (rule word_Suc_unat)
  moreover have "validate bk ((leases ?s)\<lparr>records := fmupd i ?l (records (leases ?s))\<rparr>) = Inr ()"
    using l init rev by (intro validate_commit_record [OF state_inv_maps(1) [OF inv']]) simp_all
  ultimately have "state_inv bk (?s\<lparr>leases := (leases ?s)\<lparr>records := fmupd i ?l (records (leases ?s))\<rparr>\<rparr>)"
    using l(1) rev state_inv_records [OF inv'] state_inv_maps(2,3) [OF inv']
    by (intro state_inv_leases [OF inv']) (fastforce split: if_splits)+
  then show ?thesis
    using ok l(1) by (simp add: Let_def)
qed


lemma raise_requirement_lookup:
  "fmlookup (raise_requirement n b m) i =
     (if b = i then Some (max (case fmlookup m b of None \<Rightarrow> n | Some k \<Rightarrow> k) n) else fmlookup m i)"
  by (simp add: raise_requirement_def)

lemma raise_requirements_bounds:
  assumes "\<And>i k. fmlookup m i = Some k \<Longrightarrow> 2 \<le> k \<and> k \<le> 16" and "2 \<le> n" and "n \<le> 16"
    and "fmlookup (fold (raise_requirement n) bs m) i = Some k"
  shows "2 \<le> k \<and> k \<le> 16"
  using assms
proof (induction bs arbitrary: m)
  case (Cons b bs)
  have "2 \<le> k \<and> k \<le> 16" if "fmlookup (raise_requirement n b m) i = Some k" for i k
    using that Cons.prems(1-3) by (force simp: raise_requirement_lookup split: if_splits option.splits)
  with Cons show ?case
    by (metis fold_simps(2))
qed simp

lemma state_inv_unfenced:
  assumes "state_inv bk s"
  shows "state_inv bk (fst (apply_unfenced bk s req))"
proof (cases req)
  case (RequireReplicas bs n)
  let ?m = "fold (raise_requirement n) bs (replica_requirements s)"
  have "\<forall>i k. fmlookup (replica_requirements s) i = Some k \<longrightarrow> 2 \<le> k \<and> k \<le> 16"
    using assms by (simp add: state_inv_def requirements_ok_def)
  then have "\<forall>i k. fmlookup ?m i = Some k \<longrightarrow> 2 \<le> k \<and> k \<le> 16" if "2 \<le> n" "n \<le> 16"
    using raise_requirements_bounds that by blast
  then have "state_inv bk (s\<lparr>replica_requirements := ?m\<rparr>)"
    if "2 \<le> n" "n \<le> 16" "fmsize ?m \<le> MAX_REPLICA_REQUIREMENTS"
    using assms that by (simp add: state_inv_def state_inv_parts applied_index_def)
  with RequireReplicas assms show ?thesis
    by (simp add: Let_def not_le not_less)
next
  case (RegisterAgent a n)
  with assms show ?thesis
    by (simp add: state_inv_def state_inv_parts applied_index_def)
next
  case (CommitUploadLease i a b e)
  with assms show ?thesis
    using state_inv_commit [OF assms, of i a b e]
    by (cases "validate_commit bk s i a b e") (auto split: bool.splits)
next
  case (BeginUploadLease i a bs)
  with state_inv_reserve [OF assms, of i a bs] show ?thesis by (simp add: prod_eq_iff)
next
  case (CancelUploadLease i a)
  with state_inv_cancel [OF assms, of i a] show ?thesis by (simp add: prod_eq_iff)
next
  case (RenewUploadLease i a e t)
  with state_inv_renew [OF assms, of i a e t] show ?thesis by (simp add: prod_eq_iff)
next
  case (AdvanceLeaseClock e)
  with state_inv_advance [OF assms, of e] show ?thesis by (simp add: prod_eq_iff)
next
  case (ExpireUploadLease i g t)
  with state_inv_expire [OF assms, of i g t] show ?thesis by (simp add: prod_eq_iff)
qed (use assms in \<open>simp_all add: state_inv_bind_one state_inv_bind_many\<close>)

text \<open>No request moves the log position, and none but the fencing itself touches the fences.\<close>

lemma bind_many_simps [simp]:
  "last_applied (bind_many bk s a bs) = last_applied s"
  "block_fences (bind_many bk s a bs) = block_fences s"
  "membership (bind_many bk s a bs) = membership s"
  "agents (bind_many bk s a bs) = agents s"
  "replica_requirements (bind_many bk s a bs) = replica_requirements s"
  by (induction bk s a bs rule: bind_many.induct) simp_all

lemma unfenced_frame [simp]:
  "last_applied (fst (apply_unfenced bk s req)) = last_applied s"
  "block_fences (fst (apply_unfenced bk s req)) = block_fences s"
  "membership (fst (apply_unfenced bk s req)) = membership s"
proof -
  let ?s' = "fst (apply_unfenced bk s req)"
  have "last_applied ?s' = last_applied s \<and> block_fences ?s' = block_fences s \<and> membership ?s' = membership s"
  proof (cases req)
    case (BeginUploadLease i a bs)
    have "last_applied s' = last_applied s \<and> block_fences s' = block_fences s
        \<and> membership s' = membership s" if "reserve s i a bs = (s', r)" for s' r
      using that by (cases rule: reserve_cases) simp_all
    then show ?thesis
      using BeginUploadLease by (simp add: prod_eq_iff)
  next
    case (RenewUploadLease i a e t)
    have "last_applied s' = last_applied s \<and> block_fences s' = block_fences s
        \<and> membership s' = membership s" if "renew s i a e t = (s', r)" for s' r
      using that by (cases rule: renew_cases) simp_all
    then show ?thesis
      using RenewUploadLease by (simp add: prod_eq_iff)
  qed (auto simp: Let_def cancel_def advance_def expire_def split: option.splits sum.splits bool.splits)
  then show "last_applied ?s' = last_applied s" "block_fences ?s' = block_fences s"
    "membership ?s' = membership s"
    by blast+
qed

lemma unfenced_applied_index [simp]: "applied_index (fst (apply_unfenced bk s req)) = applied_index s"
  by (simp add: applied_index_def)


lemma fold_fmupd_lookup:
  "fmlookup (fold (\<lambda>i. fmupd i t) is m) j = (if j \<in> set is then Some t else fmlookup m j)"
  by (induction "is" arbitrary: m) auto

lemma fold_fmupd_size:
  assumes "distinct is"
  shows "fmsize (fold (\<lambda>i. fmupd i t) is m)
       = fmsize m + length (filter (\<lambda>i. fmlookup m i = None) is)"
  using assms
proof (induction "is" arbitrary: m)
  case (Cons i "is")
  have "filter (\<lambda>j. fmlookup (fmupd i t m) j = None) is = filter (\<lambda>j. fmlookup m j = None) is"
    using Cons.prems by (intro filter_cong) auto
  with Cons show ?case
    by (simp add: fmsize_fmupd)
qed simp

lemma distinct_touched: "distinct (touched bk s req)"
  by (cases "(bk, s, req)" rule: touched.cases) (auto split: option.splits)

lemma state_inv_fences:
  assumes "state_inv bk s" and "distinct t"
    and "fmsize (block_fences s) + length (filter (\<lambda>i. \<not> contains_key (block_fences s) i) t)
         \<le> MAX_BLOCK_FENCES"
  shows "state_inv bk (s\<lparr>block_fences := fold (\<lambda>i. fmupd i (applied_index s)) t (block_fences s)\<rparr>)"
  using assms
  by (auto simp: state_inv_def state_inv_parts applied_index_def fold_fmupd_lookup fold_fmupd_size)

lemma state_inv_apply_one:
  assumes "state_inv bk s"
  shows "state_inv bk (fst (apply_one bk s req))"
proof -
  obtain s' r where a: "apply_unfenced bk s req = (s', r)" by fastforce
  then have "state_inv bk s'" and "block_fences s' = block_fences s"
    using state_inv_unfenced [OF assms, of req] unfenced_frame(2) [of bk s req] by simp_all
  then show ?thesis
    using state_inv_fences [of bk s' "touched bk s req"] distinct_touched [of bk s req] assms
    by (auto simp: apply_one_def Let_def a not_less)
qed

section \<open>Sequences of entries\<close>

text \<open>
  Consensus delivers entries in log order.  \<open>along\<close> says that a condition holds at every entry of a
  run; \<open>in_order\<close> that the entry's index is not below the last applied one.
\<close>

fun along ::
  "(metadata_state \<Rightarrow> entry \<Rightarrow> bool) \<Rightarrow> (cache_key \<Rightarrow> string) \<Rightarrow> metadata_state \<Rightarrow> entry list \<Rightarrow> bool" where
  "along P bk s [] = True"
| "along P bk s (e # es) = (P s e \<and> along P bk (fst (apply_entry bk s e)) es)"

definition in_order :: "metadata_state \<Rightarrow> entry \<Rightarrow> bool" where
  "in_order s e \<longleftrightarrow> applied_index s \<le> log_index (entry_log_id e)"

lemma apply_entries_Cons [simp]:
  "fst (apply_entries bk s (e # es)) = fst (apply_entries bk (fst (apply_entry bk s e)) es)"
  "snd (apply_entries bk s (e # es)) =
     snd (apply_entry bk s e) # snd (apply_entries bk (fst (apply_entry bk s e)) es)"
  by (simp_all add: split_def Let_def)

declare apply_entries.simps(2) [simp del]

lemma apply_entries_append:
  "fst (apply_entries bk s (es @ fs)) = fst (apply_entries bk (fst (apply_entries bk s es)) fs)"
  by (induction es arbitrary: s) simp_all


lemma along_append:
  "along P bk s (es @ fs) \<longleftrightarrow> along P bk s es \<and> along P bk (fst (apply_entries bk s es)) fs"
  by (induction es arbitrary: s) simp_all

text \<open>An invariant of single entries is one of every run, and so is a preorder they respect.\<close>

locale apply_invariant =
  fixes bk :: "cache_key \<Rightarrow> string"
    and I :: "metadata_state \<Rightarrow> bool"
    and P :: "metadata_state \<Rightarrow> entry \<Rightarrow> bool"
  assumes entry_step: "I s \<Longrightarrow> P s e \<Longrightarrow> I (fst (apply_entry bk s e))"
begin

lemma run: "I s \<Longrightarrow> along P bk s es \<Longrightarrow> I (fst (apply_entries bk s es))"
  by (induction es arbitrary: s) (auto simp: entry_step)

end

locale apply_preorder = apply_invariant +
  fixes R :: "metadata_state \<Rightarrow> metadata_state \<Rightarrow> bool"
  assumes refl: "R s s"
    and trans: "R s t \<Longrightarrow> R t u \<Longrightarrow> R s u"
    and entry_related: "I s \<Longrightarrow> P s e \<Longrightarrow> R s (fst (apply_entry bk s e))"
begin

lemma run_related: "I s \<Longrightarrow> along P bk s es \<Longrightarrow> R s (fst (apply_entries bk s es))"
proof (induction es arbitrary: s)
  case (Cons e es)
  then have "R s (fst (apply_entry bk s e))"
    and "R (fst (apply_entry bk s e)) (fst (apply_entries bk (fst (apply_entry bk s e)) es))"
    by (simp_all add: entry_step entry_related)
  then show ?case
    by (auto intro: trans)
qed (simp add: refl)

end

lemma state_inv_applied:
  assumes "state_inv bk s" and "applied_index s \<le> log_index l"
  shows "state_inv bk (s\<lparr>last_applied := Some l\<rparr>)"
  using assms
  by (fastforce simp: state_inv_def state_inv_parts applied_index_def [of "s\<lparr>last_applied := Some l\<rparr>"]
      intro: order_trans)

lemma state_inv_membership: "state_inv bk (s\<lparr>membership := m\<rparr>) = state_inv bk s"
  by (simp add: state_inv_def state_inv_parts applied_index_def)

interpretation metadata: apply_invariant bk "state_inv bk" in_order
proof
  fix s e
  assume "state_inv bk s" and "in_order s e"
  then have "state_inv bk (s\<lparr>last_applied := Some (entry_log_id e)\<rparr>)"
    using state_inv_applied by (simp add: in_order_def)
  then show "state_inv bk (fst (apply_entry bk s e))"
    by (simp add: apply_entry_def Let_def state_inv_membership state_inv_apply_one
        split: entry_payload.split)
qed

end
