(* ===== verification/Snapshot_Recovery.thy ===== *)
theory Snapshot_Recovery
  imports Metadata_Invariant
begin

text \<open>
  Snapshots as a recovery mechanism: what a node builds it can read back, after a restart the state
  is the one of the last published snapshot, and replaying the rest of the log gives the state of a
  node that never restarted.
\<close>

section \<open>Round trip of the current layout\<close>

lemma strip_prefix_append [simp]: "strip_prefix p (p @ data) = Some data"
  by (simp add: strip_prefix_def)

lemma converted_Inr:
  "converted f t r = Inr (s, n) \<longleftrightarrow> (\<exists>old k. r = Inr (old, k) \<and> s = f old \<and> n = k + t)"
  by (cases r) (auto simp: converted_def)

lemma decode_payload_v6:
  assumes "decode_v6 c bs = Inr (s, length bs)"
  shows "decode_payload c (SNAPSHOT_V6 @ bs) = Inr (s, length (SNAPSHOT_V6 @ bs))"
  using assms by (simp add: decode_payload_def converted_def)

definition meta_of :: "metadata_state \<Rightarrow> string \<Rightarrow> snapshot_meta" where
  "meta_of s sid = \<lparr>last_log_id = last_applied s, last_membership = membership s, snapshot_id = sid\<rparr>"

lemma decode_own_snapshot:
  assumes "state_inv bk s" and "decode_v6 c bs = Inr (s, length bs)"
  shows "decode_snapshot bk c (meta_of s sid) (SNAPSHOT_V6 @ bs) = Ok s"
  using assms decode_payload_v6 [OF assms(2)]
  by (simp add: decode_snapshot_def meta_of_def state_inv_check)

lemma decode_snapshot_Ok:
  assumes "decode_snapshot bk c meta data = Ok s"
  shows "check_state bk s = Ok s" and "last_applied s = last_log_id meta"
    and "membership s = last_membership meta" and "\<exists>n. decode_payload c data = Inr (s, n)"
  using assms check_state_Ok_iff [of bk]
  by (auto simp: decode_snapshot_def split: sum.splits if_splits)

lemma decode_no_panic: "decode_snapshot bk c meta data \<noteq> Panicked"
  using check_state_no_panic by (auto simp: decode_snapshot_def split: sum.splits)

lemma snapshot_pending: "pending_name SNAPSHOT_FILE \<noteq> SNAPSHOT_FILE"
  by (simp add: pending_name_def SNAPSHOT_FILE_def)

text \<open>
  The laws of the two codecs the store relies on: decoding an encoded value gives the value back
  and consumes all bytes.
\<close>

definition codec_ok :: "codec \<Rightarrow> json_codec \<Rightarrow> bool" where
  "codec_ok c j \<longleftrightarrow>
     (\<forall>s bs. encode_v6 c s = Inr bs \<longrightarrow> decode_v6 c bs = Inr (s, length bs))
     \<and> (\<forall>d bs. to_json j d = Inr bs \<longrightarrow> from_json j bs = Inr d)"

text \<open>A file that holds the snapshot of \<open>s\<close> (or no file, for the initial state).\<close>

definition holds_snapshot ::
  "(cache_key \<Rightarrow> string) \<Rightarrow> codec \<Rightarrow> json_codec \<Rightarrow> bytes option \<Rightarrow> metadata_state \<Rightarrow> bool" where
  "holds_snapshot bk c j file s \<longleftrightarrow>
     (case file of
        None \<Rightarrow> s = default_state
      | Some bs \<Rightarrow>
          (case from_json j bs of
             Inl _ \<Rightarrow> False
           | Inr d \<Rightarrow> version d = 1 \<and> decode_snapshot bk c (saved_meta d) (saved_data d) = Ok s))"

lemma open_holds:
  assumes "holds_snapshot bk c j (read_file fs SNAPSHOT_FILE) s"
  obtains store where "open_store bk c j fs = Ok store" and "state store = s" and "durable store"
  using assms that
  by (auto simp: open_store_def holds_snapshot_def default_store_def Let_def
      split: option.splits sum.splits)

text \<open>Building a snapshot: the meta it publishes and the file it writes.\<close>

lemma build_snapshot_cases:
  assumes "build_snapshot c j fmt fault store fs = (r, store', fs')"
  obtains (encode) e where "encode_v6 c (state store) = Inl e" and "r = Inl e" and "store' = store"
      and "fs' = fs"
  | (persist) bs where "encode_v6 c (state store) = Inr bs"
      and "state store' = state store" and "durable store' = durable store"
      and "\<exists>sid. persist_snapshot j fault (store\<lparr>snapshot_idx := snapshot_idx store + 1\<rparr>)
              (meta_of (state store) sid) (SNAPSHOT_V6 @ bs) fs = (map_sum id (\<lambda>_. ()) r, fs')
            \<and> (\<forall>m d. r = Inr (m, d) \<longrightarrow> m = meta_of (state store) sid \<and> d = SNAPSHOT_V6 @ bs
                 \<and> snapshot store' = Some (m, d))"
      and "isl r \<Longrightarrow> snapshot store' = snapshot store"
proof (cases "encode_v6 c (state store)")
  case (Inl e)
  with assms show ?thesis
    by (intro encode) (auto simp: build_snapshot_def)
next
  case (Inr bs)
  let ?store = "store\<lparr>snapshot_idx := snapshot_idx store + 1\<rparr>"
  let ?sid = "fmt (applied_index (state store)) (snapshot_idx store + 1)"
  obtain q fs1 where q: "persist_snapshot j fault ?store (meta_of (state store) ?sid)
      (SNAPSHOT_V6 @ bs) fs = (q, fs1)"
    by fastforce
  with Inr assms show ?thesis
    by (intro persist [OF Inr])
      (auto simp: build_snapshot_def meta_of_def Let_def split: sum.splits intro!: exI [of _ ?sid])
qed

text \<open>
  A crash while a snapshot that the checks accept is being published: the file holds the old or the
  new one, and the new one once the publication was acknowledged.
\<close>

lemma persist_crash:
  assumes "codec_ok c j" and "fs_ok fs" and "durable_as fs SNAPSHOT_FILE old"
    and "holds_snapshot bk c j old prior" and "decode_snapshot bk c meta data = Ok s"
    and "durable store" and "persist_snapshot j fault store meta data fs = (r, fs')"
    and "crash fs' fs''"
  shows "holds_snapshot bk c j (read_file fs'' SNAPSHOT_FILE) prior
       \<or> holds_snapshot bk c j (read_file fs'' SNAPSHOT_FILE) s"
    and "r = Inr () \<Longrightarrow> holds_snapshot bk c j (read_file fs'' SNAPSHOT_FILE) s"
proof -
  let ?d = "\<lparr>version = 1, saved_meta = meta, saved_data = data\<rparr>"
  have new: "holds_snapshot bk c j (Some js) s" if "to_json j ?d = Inr js" for js
    using assms(1,5) that by (simp add: codec_ok_def holds_snapshot_def)
  show "holds_snapshot bk c j (read_file fs'' SNAPSHOT_FILE) prior
       \<or> holds_snapshot bk c j (read_file fs'' SNAPSHOT_FILE) s"
  proof (cases "to_json j ?d")
    case (Inl e)
    with assms show ?thesis
      using crash_stable [OF assms(3)] by (auto simp: persist_snapshot_def)
  next
    case (Inr js)
    then have "fs' = snd (replace fault SNAPSHOT_FILE js fs)"
      using assms(6,7) by (simp add: persist_snapshot_def)
    then obtain n m where "fs' = replace_upto n m SNAPSHOT_FILE js fs"
      using replace_stops by metis
    with replace_upto_crash [OF assms(2,3) snapshot_pending] assms(4,8) new [OF Inr] show ?thesis
      by metis
  qed
  show "holds_snapshot bk c j (read_file fs'' SNAPSHOT_FILE) s" if ok: "r = Inr ()"
  proof -
    obtain js where "to_json j ?d = Inr js" and "replace fault SNAPSHOT_FILE js fs = (Inr (), fs')"
      using assms(6,7) ok by (auto simp: persist_snapshot_def split: sum.splits)
    then show ?thesis
      using replace_Ok [OF assms(2,3) snapshot_pending] crash_stable [OF _ assms(8)] new by metis
  qed
qed

section \<open>Properties\<close>

text \<open>Codecs for concrete inputs: they know one state and one file.\<close>

definition one_state_codec :: "metadata_state \<Rightarrow> codec" where
  "one_state_codec s =
     \<lparr>decode_v6 = (\<lambda>bs. if bs = [7] then Inr (s, 1) else Inl ''bad''),
      decode_v5 = (\<lambda>_. Inl ''bad''), decode_v4 = (\<lambda>_. Inl ''bad''), decode_v3 = (\<lambda>_. Inl ''bad''),
      decode_v2 = (\<lambda>_. Inl ''bad''), decode_v1 = (\<lambda>_. Inl ''bad''),
      encode_v6 = (\<lambda>t. if t = s then Inr [7] else Inl ''unsupported'')\<rparr>"

definition one_file_json :: "durable_snapshot \<Rightarrow> json_codec" where
  "one_file_json d =
     \<lparr>to_json = (\<lambda>e. if e = d then Inr [9] else Inl ''unsupported''),
      from_json = (\<lambda>bs. if bs = [9] then Inr d else Inl ''bad'')\<rparr>"

definition example_entries :: "entry list" where
  "example_entries =
     [\<lparr>entry_log_id = \<lparr>leader_round = 1, leader_node = 1, log_index = 1\<rparr>, payload = Blank\<rparr>,
      \<lparr>entry_log_id = \<lparr>leader_round = 1, leader_node = 1, log_index = 2\<rparr>,
       payload = Normal (RegisterAgent (AgentId (fill32 1)) ''a'')\<rparr>]"

definition example_state :: "(cache_key \<Rightarrow> string) \<Rightarrow> metadata_state" where
  "example_state bk = fst (apply_entries bk default_state example_entries)"

definition example_store :: "(cache_key \<Rightarrow> string) \<Rightarrow> state_machine_store" where
  "example_store bk = \<lparr>state = example_state bk, snapshot = None, snapshot_idx = 0, durable = True\<rparr>"

definition example_durable :: "(cache_key \<Rightarrow> string) \<Rightarrow> durable_snapshot" where
  "example_durable bk =
     \<lparr>version = 1, saved_meta = meta_of (example_state bk) ''s'', saved_data = SNAPSHOT_V6 @ [7]\<rparr>"

definition empty_fs :: file_system where
  "empty_fs = \<lparr>dir = fmempty, disk_dir = fmempty, contents = (\<lambda>_. []), disk_contents = (\<lambda>_. []),
     next_inode = 0\<rparr>"

lemma example_in_order: "along in_order bk default_state example_entries"
  by (simp add: example_entries_def in_order_def apply_entry_def default_state_def applied_index_def)

lemma example_codec_ok: "codec_ok (one_state_codec s) (one_file_json d)"
  by (auto simp: codec_ok_def one_state_codec_def one_file_json_def split: if_splits)

lemma example_build:
  "build_snapshot (one_state_codec (example_state bk)) (one_file_json (example_durable bk)) (\<lambda>_ _. ''s'')
     NoFault (example_store bk) empty_fs
   = (Inr (meta_of (example_state bk) ''s'', SNAPSHOT_V6 @ [7]),
      (example_store bk)\<lparr>snapshot_idx := 1,
         snapshot := Some (meta_of (example_state bk) ''s'', SNAPSHOT_V6 @ [7])\<rparr>,
      snd (replace NoFault SNAPSHOT_FILE [9] empty_fs))"
  by (simp add: build_snapshot_def persist_snapshot_def one_state_codec_def one_file_json_def
      example_store_def example_durable_def meta_of_def replace_def Let_def)

text \<open>
  C1.  Whatever entries a node has applied in log order, its snapshot is accepted by its own
  checks: decoding the payload \<open>build_snapshot\<close> writes, under the meta data it publishes, gives the
  state back.  (A restarting node never refuses a snapshot the same code wrote.)
\<close>

theorem reachable_snapshot_roundtrip:
  assumes "along in_order bk default_state es"
    and "\<forall>s bs. encode_v6 c s = Inr bs \<longrightarrow> decode_v6 c bs = Inr (s, length bs)"
    and "build_snapshot c j fmt fault \<lparr>state = fst (apply_entries bk default_state es), snapshot = old,
           snapshot_idx = n, durable = d\<rparr> fs = (Inr (meta, data), store', fs')"
  shows "decode_snapshot bk c meta data = Ok (fst (apply_entries bk default_state es))
       \<and> state store' = fst (apply_entries bk default_state es)
       \<and> get_current_snapshot store' = Some (meta, data)"
  using assms(3)
proof (cases rule: build_snapshot_cases)
  case (persist bs)
  then obtain sid where "meta = meta_of (fst (apply_entries bk default_state es)) sid"
    and "data = SNAPSHOT_V6 @ bs" and "snapshot store' = Some (meta, data)"
    by auto
  moreover have "state_inv bk (fst (apply_entries bk default_state es))"
    using metadata.run [OF state_inv_default assms(1)] .
  ultimately show ?thesis
    using decode_own_snapshot assms(2) persist by (simp add: get_current_snapshot_def)
qed simp

theorem reachable_snapshot_roundtrip_witness:
  "decode_snapshot (\<lambda>_. []) (one_state_codec (example_state (\<lambda>_. [])))
     (meta_of (example_state (\<lambda>_. [])) ''s'') (SNAPSHOT_V6 @ [7]) = Ok (example_state (\<lambda>_. []))
   \<and> fmlookup (agents (example_state (\<lambda>_. []))) (AgentId (fill32 1)) \<noteq> None"
proof
  let ?s = "example_state (\<lambda>_. [])"
  have "\<forall>s bs. encode_v6 (one_state_codec ?s) s = Inr bs \<longrightarrow>
      decode_v6 (one_state_codec ?s) bs = Inr (s, length bs)"
    using example_codec_ok by (simp add: codec_ok_def)
  with reachable_snapshot_roundtrip [OF example_in_order, of "one_state_codec ?s"]
    example_build [of "\<lambda>_. []"]
  show "decode_snapshot (\<lambda>_. []) (one_state_codec ?s) (meta_of ?s ''s'') (SNAPSHOT_V6 @ [7]) = Ok ?s"
    by (simp add: example_store_def example_state_def)
  show "fmlookup (agents ?s) (AgentId (fill32 1)) \<noteq> None"
    by (simp add: example_state_def example_entries_def apply_entry_def apply_one_def default_state_def)
qed

text \<open>
  C2.  Restart loses nothing.  A node whose file stably holds the snapshot of the state after the
  entries \<open>es1\<close> has applied \<open>es2\<close> as well and builds a snapshot; whichever file system call fails, and
  even if the machine crashes right after, reopening succeeds, with the state after \<open>es1\<close> or the
  state after \<open>es1 @ es2\<close>, and with the latter if the build reported success.  In every case replaying
  the entries behind the state that was found gives the state of a node that never restarted.
\<close>

theorem restart_recovers:
  assumes "codec_ok c j" and "fs_ok fs" and "durable_as fs SNAPSHOT_FILE old"
    and "holds_snapshot bk c j old (fst (apply_entries bk default_state es1))" and "durable store"
    and "state store = fst (apply_entries bk default_state (es1 @ es2))"
    and "along in_order bk default_state (es1 @ es2 @ later)"
    and "build_snapshot c j fmt fault store fs = (r, store', fs')" and "crash fs' fs''"
  shows "\<exists>again rest. open_store bk c j fs'' = Ok again
      \<and> (state again = fst (apply_entries bk default_state es1) \<and> rest = es2 @ later
         \<or> state again = state store \<and> rest = later)
      \<and> (\<not> isl r \<longrightarrow> state again = state store \<and> rest = later)
      \<and> state (fst (apply_store bk again rest)) = fst (apply_entries bk default_state (es1 @ es2 @ later))"
proof -
  let ?prior = "fst (apply_entries bk default_state es1)"
  have inv: "state_inv bk (state store)"
    using metadata.run [OF state_inv_default, of bk "es1 @ es2"] assms(6,7)
    by (simp add: along_append apply_entries_append)
  obtain s where hold: "holds_snapshot bk c j (read_file fs'' SNAPSHOT_FILE) s"
    and s: "s = ?prior \<or> s = state store" and ok: "\<not> isl r \<Longrightarrow> s = state store"
    using assms(8)
  proof (cases rule: build_snapshot_cases)
    case encode
    then show ?thesis
      using that [of ?prior] crash_stable [OF assms(3)] assms(4,9) by auto
  next
    case (persist bs)
    then obtain sid where w: "persist_snapshot j fault (store\<lparr>snapshot_idx := snapshot_idx store + 1\<rparr>)
        (meta_of (state store) sid) (SNAPSHOT_V6 @ bs) fs = (map_sum id (\<lambda>_. ()) r, fs')"
      by blast
    have "decode_snapshot bk c (meta_of (state store) sid) (SNAPSHOT_V6 @ bs) = Ok (state store)"
      using decode_own_snapshot [OF inv] persist(1) assms(1) by (simp add: codec_ok_def)
    from persist_crash [OF assms(1-4) this _ w assms(9)] assms(5) show ?thesis
      using that by (cases r) auto
  qed
  from hold obtain again where again: "open_store bk c j fs'' = Ok again" "state again = s"
    by (rule open_holds)
  have replay: "state (fst (apply_store bk again rest)) = fst (apply_entries bk (state again) rest)" for rest
    by (simp add: apply_store_def split_def Let_def)
  show ?thesis
  proof (cases "s = state store")
    case True
    with again show ?thesis
      by (intro exI [of _ again] exI [of _ later]) (simp add: replay assms(6) apply_entries_append)
  next
    case False
    with s ok again show ?thesis
      by (intro exI [of _ again] exI [of _ "es2 @ later"]) (auto simp: replay apply_entries_append)
  qed
qed

definition later_entry :: entry where
  "later_entry =
     \<lparr>entry_log_id = \<lparr>leader_round = 1, leader_node = 1, log_index = 3\<rparr>,
      payload = Normal (RegisterAgent (AgentId (fill32 2)) ''b'')\<rparr>"

text \<open>The directory sync fails (fault four) and the machine stops: the new file is there all the same.\<close>

lemma example_fault_build:
  "build_snapshot (one_state_codec (example_state bk)) (one_file_json (example_durable bk)) (\<lambda>_ _. ''s'')
     (FaultAt 4 0) (example_store bk) empty_fs
   = (Inl ''io error'', (example_store bk)\<lparr>snapshot_idx := 1\<rparr>, replace_upto 4 0 SNAPSHOT_FILE [9] empty_fs)"
  by (simp add: build_snapshot_def persist_snapshot_def one_state_codec_def one_file_json_def
      example_store_def example_durable_def meta_of_def replace_def Let_def)

lemma empty_fs_ok: "fs_ok empty_fs" "durable_as empty_fs SNAPSHOT_FILE None"
  by (simp_all add: fs_ok_def durable_as_def empty_fs_def)

text \<open>The crash after the failed sync may also lose the rename.\<close>

definition rename_lost :: file_system where
  "rename_lost =
     \<lparr>dir = fmempty, disk_dir = fmempty, contents = (\<lambda>_. [])(0 := [9]), disk_contents = (\<lambda>_. [])(0 := [9]),
      next_inode = 1\<rparr>"

lemmas file_calls = replace_def replace_upto_def publish_upto_def open_truncate_def write_append_def
  sync_file_def rename_file_def sync_directory_def empty_fs_def fs_ok_def

lemma example_crashes:
  "crash (replace_upto 4 0 SNAPSHOT_FILE [9] empty_fs) rename_lost"
  "crash (snd (replace NoFault SNAPSHOT_FILE [9] empty_fs)) (snd (replace NoFault SNAPSHOT_FILE [9] empty_fs))"
  by (auto simp: crash_def file_calls rename_lost_def split: if_splits)

theorem restart_recovers_witness:
  "(\<exists>again. open_store (\<lambda>_. []) (one_state_codec (example_state (\<lambda>_. [])))
       (one_file_json (example_durable (\<lambda>_. []))) (snd (replace NoFault SNAPSHOT_FILE [9] empty_fs)) = Ok again
     \<and> state (fst (apply_store (\<lambda>_. []) again [later_entry]))
       = fst (apply_entries (\<lambda>_. []) default_state (example_entries @ [later_entry])))
   \<and> (\<exists>again rest. open_store (\<lambda>_. []) (one_state_codec (example_state (\<lambda>_. [])))
       (one_file_json (example_durable (\<lambda>_. []))) rename_lost = Ok again
     \<and> state (fst (apply_store (\<lambda>_. []) again rest))
       = fst (apply_entries (\<lambda>_. []) default_state (example_entries @ [later_entry])))"
proof -
  have order: "along in_order (\<lambda>_. []) default_state ([] @ example_entries @ [later_entry])"
    using example_in_order
    by (simp add: along_append later_entry_def example_entries_def in_order_def apply_entry_def
        apply_one_def default_state_def applied_index_def)
  have holds: "holds_snapshot (\<lambda>_. []) c j None (fst (apply_entries (\<lambda>_. []) default_state []))" for c j
    by (simp add: holds_snapshot_def)
  have store: "durable (example_store (\<lambda>_. []))" "state (example_store (\<lambda>_. []))
      = fst (apply_entries (\<lambda>_. []) default_state ([] @ example_entries))"
    by (simp_all add: example_store_def example_state_def)
  note run = restart_recovers [OF example_codec_ok empty_fs_ok holds store order]
  show ?thesis
    using run [OF example_build example_crashes(2)] run [OF example_fault_build example_crashes(1)]
    by auto
qed

text \<open>
  C3.  Installing a received snapshot is all or nothing and never panics.  In memory: if the payload
  is refused or the file cannot be published, the replica's state and its current snapshot are as
  before; if it is accepted, the new state satisfies every check and carries the advertised log
  position and membership.  On disk: after a crash the store opens, with the received snapshot if the
  call succeeded, and if it failed with the snapshot the file held before or with the received one
  (a failing directory sync comes after the rename), never with anything else.
\<close>

theorem install_snapshot_atomic:
  assumes "install_snapshot bk c j fault store meta data fs = (r, store', fs')"
  shows "(case r of
            Ok _ \<Rightarrow>
              decode_snapshot bk c meta data = Ok (state store')
              \<and> check_state bk (state store') = Ok (state store')
              \<and> applied_state store' = (last_log_id meta, last_membership meta)
              \<and> get_current_snapshot store' = Some (meta, data)
          | Failed _ \<Rightarrow> store' = store
          | Panicked \<Rightarrow> False)
       \<and> (codec_ok c j \<and> fs_ok fs \<and> durable_as fs SNAPSHOT_FILE old \<and> holds_snapshot bk c j old prior
          \<and> durable store \<and> crash fs' fs'' \<longrightarrow>
            (\<exists>again. open_store bk c j fs'' = Ok again
              \<and> (state again = prior \<or> decode_snapshot bk c meta data = Ok (state again))
              \<and> (r = Ok () \<longrightarrow> state again = state store')))" (is "?memory \<and> (?hyp \<longrightarrow> ?disk)")
proof (intro conjI impI)
  show ?memory
    using assms decode_no_panic [of bk c meta data] decode_snapshot_Ok [of bk c meta data]
    by (auto simp: install_snapshot_def applied_state_def get_current_snapshot_def
        split: outcome.splits sum.splits prod.splits)
  assume hyp: ?hyp
  obtain s where "holds_snapshot bk c j (read_file fs'' SNAPSHOT_FILE) s"
    and s: "s = prior \<or> decode_snapshot bk c meta data = Ok s" and ok: "r = Ok () \<longrightarrow> s = state store'"
  proof (cases "decode_snapshot bk c meta data")
    case (Ok new)
    obtain q fs1 where q: "persist_snapshot j fault store meta data fs = (q, fs1)"
      by fastforce
    with assms Ok have "fs1 = fs'" and r: "r = Ok () \<longrightarrow> q = Inr () \<and> state store' = new"
      by (auto simp: install_snapshot_def split: sum.splits)
    with persist_crash [of c j fs old bk prior meta data new store fault q fs' fs''] q hyp Ok show ?thesis
      using that by blast
  qed (use assms hyp crash_stable decode_no_panic that [of prior] in \<open>auto simp: install_snapshot_def\<close>)
  then show ?disk
    using open_holds by metis
qed

theorem install_snapshot_atomic_witness:
  "\<exists>again. open_store (\<lambda>_. []) (one_state_codec (example_state (\<lambda>_. [])))
       (one_file_json (example_durable (\<lambda>_. []))) (snd (replace NoFault SNAPSHOT_FILE [9] empty_fs)) = Ok again
     \<and> state again = example_state (\<lambda>_. [])"
proof -
  let ?s = "example_state (\<lambda>_. [])"
  let ?c = "one_state_codec ?s" and ?j = "one_file_json (example_durable (\<lambda>_. []))"
  let ?store = "default_store\<lparr>durable := True\<rparr>" and ?meta = "meta_of ?s ''s''"
  have "decode_v6 ?c [7] = Inr (?s, length [7::u8])"
    by (simp add: one_state_codec_def)
  moreover have "state_inv (\<lambda>_. []) ?s"
    using metadata.run [OF state_inv_default example_in_order] by (simp add: example_state_def)
  ultimately have "decode_snapshot (\<lambda>_. []) ?c ?meta (SNAPSHOT_V6 @ [7]) = Ok ?s"
    using decode_own_snapshot by blast
  then have "install_snapshot (\<lambda>_. []) ?c ?j NoFault ?store ?meta (SNAPSHOT_V6 @ [7]) empty_fs
      = (Ok (), ?store\<lparr>state := ?s, snapshot := Some (?meta, SNAPSHOT_V6 @ [7])\<rparr>,
         snd (replace NoFault SNAPSHOT_FILE [9] empty_fs))"
    by (simp add: install_snapshot_def persist_snapshot_def one_file_json_def example_durable_def replace_def)
  from install_snapshot_atomic [OF this, of None default_state
      "snd (replace NoFault SNAPSHOT_FILE [9] empty_fs)"] show ?thesis
    using example_codec_ok empty_fs_ok example_crashes(2) by (auto simp: holds_snapshot_def)
qed

text \<open>
  A payload without the current tag never yields block fences: an upgraded state knows no
  fence history, so none is invented.  Layouts before version five carry no deadlines or expiry
  marks, and before version three no leases at all.
\<close>

theorem upgraded_state_has_no_fences:
  assumes "decode_snapshot bk c meta data = Ok s" and "strip_prefix SNAPSHOT_V6 data = None"
  shows "block_fences s = fmempty
    \<and> (strip_prefix SNAPSHOT_V5 data = None \<longrightarrow>
         deadlines (leases s) = fmempty \<and> expired (leases s) = fmempty \<and> clock (leases s) = 0)
    \<and> (strip_prefix SNAPSHOT_V5 data = None \<and> strip_prefix SNAPSHOT_V4 data = None
       \<and> strip_prefix SNAPSHOT_V3 data = None \<longrightarrow> leases s = default_leases)"
  using decode_snapshot_Ok(4) [OF assms(1)] assms(2)
  by (auto simp: decode_payload_def converted_Inr with_leases_def from_v4_leases_def from_v3_def
      from_v2_def from_legacy_def default_leases_def split: option.splits)

definition v2_codec :: codec where
  "v2_codec = (one_state_codec default_state)\<lparr>decode_v2 := (\<lambda>_. Inr
     (\<lparr>old_agents = fmempty, old_bindings = fmempty, old_children = fmempty, old_block_refs = fmempty,
       old_last_applied = None, old_membership = default_membership,
       old_replica_requirements = fmupd (BlockId (fill32 5)) 3 fmempty\<rparr>, 0))\<rparr>"

theorem upgraded_state_has_no_fences_witness:
  "\<exists>s. decode_snapshot (\<lambda>_. []) v2_codec (meta_of default_state []) SNAPSHOT_V2 = Ok s
     \<and> fmlookup (replica_requirements s) (BlockId (fill32 5)) = Some 3
     \<and> block_fences s = fmempty \<and> leases s = default_leases"
proof -
  let ?s = "default_state\<lparr>replica_requirements := fmupd (BlockId (fill32 5)) 3 fmempty\<rparr>"
  have tags: "strip_prefix SNAPSHOT_V6 SNAPSHOT_V2 = None" "strip_prefix SNAPSHOT_V5 SNAPSHOT_V2 = None"
    "strip_prefix SNAPSHOT_V4 SNAPSHOT_V2 = None" "strip_prefix SNAPSHOT_V3 SNAPSHOT_V2 = None"
    "strip_prefix SNAPSHOT_V2 SNAPSHOT_V2 = Some []"
    by (simp_all add: strip_prefix_def snapshot_tags str_bytes_def)
  have "check_state (\<lambda>_. []) ?s = Ok ?s"
    by (auto simp: check_state_Ok_iff default_state_def default_leases_def state_inv_parts
        validate_expand reserved_blocks_def fmsize_fmupd MAX_REPLICA_REQUIREMENTS_def)
  then have ok: "decode_snapshot (\<lambda>_. []) v2_codec (meta_of default_state []) SNAPSHOT_V2 = Ok ?s"
    by (simp add: decode_snapshot_def decode_payload_def tags converted_def v2_codec_def from_v2_def
        meta_of_def default_state_def one_state_codec_def)
  then show ?thesis
    using upgraded_state_has_no_fences [OF ok tags(1)] tags by (intro exI [of _ ?s]) simp
qed

end
