(* ===== verification/Log_Store.thy ===== *)
theory Log_Store
  imports Metadata_Types Durability
begin

text \<open>
  \<^verbatim>\<open>kalpak-control/src/log_store.rs\<close>: the Raft log.  In memory it is a map from index to entry; on
  disk it is one JSON line per entry, with the vote, the purge position and the commit position in
  a second file.  The JSON codec is an argument; the file system is the one of \<open>Durability\<close>, so an
  append may tear, a rewrite may stop anywhere, and the machine may crash in between.

  A volatile store (\<^verbatim>\<open>in_memory\<close>) has neither directory nor file handle.  The handle of a durable
  store is an inode: it keeps pointing to its file when the name moves on.
\<close>

section \<open>State\<close>

record vote =
  vote_round :: u64
  vote_node :: u64
  vote_committed :: bool

record log_meta =
  meta_vote :: "vote option"
  meta_last_purged :: "log_id option"
  meta_committed :: "log_id option"

record log_store =
  log :: "(u64, entry) fmap"
  last_purged :: "log_id option"
  saved_vote :: "vote option"
  committed_id :: "log_id option"
  log_file :: "nat option"
  has_dir :: bool

record log_codec =
  entry_json :: "entry \<Rightarrow> string + bytes"
  entry_parse :: "bytes \<Rightarrow> string + entry"
  meta_json :: "log_meta \<Rightarrow> string + bytes"
  meta_parse :: "bytes \<Rightarrow> string + log_meta"

definition LOG_FILE :: string where "LOG_FILE = ''raft-log.jsonl''"
definition META_FILE :: string where "META_FILE = ''raft-meta.json''"
definition LOG_TMP :: string where "LOG_TMP = LOG_FILE @ ''.tmp''"
definition NEWLINE :: u8 where "NEWLINE = 10"

lemmas log_names = LOG_FILE_def META_FILE_def LOG_TMP_def pending_name_def

definition default_meta :: log_meta where
  "default_meta = \<lparr>meta_vote = None, meta_last_purged = None, meta_committed = None\<rparr>"

definition in_memory :: log_store where
  "in_memory = \<lparr>log = fmempty, last_purged = None, saved_vote = None, committed_id = None,
     log_file = None, has_dir = False\<rparr>"

section \<open>Opening\<close>

text \<open>\<^verbatim>\<open>content.split_inclusive(|b| *b == b'\\n')\<close>\<close>

fun split_inclusive :: "u8 \<Rightarrow> bytes \<Rightarrow> bytes list" where
  "split_inclusive d [] = []"
| "split_inclusive d (x # xs) =
     (if x = d then [x] # split_inclusive d xs
      else case split_inclusive d xs of
             [] \<Rightarrow> [[x]]
           | l # ls \<Rightarrow> (x # l) # ls)"

definition insert_entry :: "entry \<Rightarrow> (u64, entry) fmap \<Rightarrow> (u64, entry) fmap" where
  "insert_entry e m = fmupd (log_index (entry_log_id e)) e m"

fun replay_lines ::
  "log_codec \<Rightarrow> bytes list \<Rightarrow> (u64, entry) fmap \<Rightarrow> nat \<Rightarrow> string + (u64, entry) fmap \<times> nat" where
  "replay_lines c [] m n = Inr (m, n)"
| "replay_lines c (l # ls) m n =
     (if l = [] \<or> last l \<noteq> NEWLINE then Inr (m, n)
      else case entry_parse c l of
             Inl e \<Rightarrow> Inl e
           | Inr e \<Rightarrow> replay_lines c ls (insert_entry e m) (n + length l))"

definition read_meta :: "log_codec \<Rightarrow> file_system \<Rightarrow> string + log_meta" where
  "read_meta c fs =
     (case read_file fs META_FILE of None \<Rightarrow> Inr default_meta | Some bs \<Rightarrow> meta_parse c bs)"

definition read_log :: "log_codec \<Rightarrow> file_system \<Rightarrow> string + (u64, entry) fmap \<times> nat" where
  "read_log c fs =
     (case read_file fs LOG_FILE of
        None \<Rightarrow> Inr (fmempty, 0)
      | Some content \<Rightarrow> replay_lines c (split_inclusive NEWLINE content) fmempty 0)"

text \<open>
  \<open>LogStore::open\<close>.  The last four calls (open for append, \<^verbatim>\<open>set_len\<close>, \<^verbatim>\<open>sync_all\<close>, syncing the
  directory) may fail.
\<close>

definition open_log :: "log_codec \<Rightarrow> fault \<Rightarrow> file_system \<Rightarrow> (string + log_store) \<times> file_system" where
  "open_log c fault fs =
     (case read_meta c fs of
        Inl e \<Rightarrow> (Inl e, fs)
      | Inr meta \<Rightarrow>
          (case read_log c fs of
             Inl e \<Rightarrow> (Inl e, fs)
           | Inr (m, valid_len) \<Rightarrow>
               let (i, opened) = open_append LOG_FILE fs;
                   cut = set_len i valid_len opened;
                   synced = sync_file i cut;
                   store = \<lparr>log = m, last_purged = meta_last_purged meta, saved_vote = meta_vote meta,
                            committed_id = meta_committed meta, log_file = Some i, has_dir = True\<rparr>
               in case fault of
                    FaultAt n _ \<Rightarrow>
                      if n = 0 then (Inl ''io error'', fs)
                      else if n = 1 then (Inl ''io error'', opened)
                      else if n = 2 then (Inl ''io error'', cut)
                      else if n = 3 then (Inl ''io error'', synced)
                      else (Inr store, sync_directory synced)
                  | NoFault \<Rightarrow> (Inr store, sync_directory synced)))"

section \<open>Writing\<close>

definition persist_meta ::
  "log_codec \<Rightarrow> fault \<Rightarrow> log_store \<Rightarrow> file_system \<Rightarrow> (string + unit) \<times> file_system" where
  "persist_meta c fault st fs =
     (if \<not> has_dir st then (Inr (), fs)
      else case meta_json c \<lparr>meta_vote = saved_vote st, meta_last_purged = last_purged st,
                             meta_committed = committed_id st\<rparr> of
             Inl e \<Rightarrow> (Inl e, fs)
           | Inr bs \<Rightarrow> replace fault META_FILE bs fs)"

text \<open>The lines of a list of entries, up to the first one that does not serialize.\<close>

fun encode_lines :: "log_codec \<Rightarrow> entry list \<Rightarrow> bytes \<times> string option" where
  "encode_lines c [] = ([], None)"
| "encode_lines c (e # es) =
     (case entry_json c e of
        Inl err \<Rightarrow> ([], Some err)
      | Inr js \<Rightarrow> (let (bs, err) = encode_lines c es in (js @ [NEWLINE] @ bs, err)))"

definition rewrite_log ::
  "log_codec \<Rightarrow> fault \<Rightarrow> log_store \<Rightarrow> file_system \<Rightarrow> (string + unit) \<times> log_store \<times> file_system" where
  "rewrite_log c fault st fs =
     (if \<not> has_dir st then (Inr (), st, fs)
      else
        let (bs, err) = encode_lines c (map snd (btree_entries (log st))) in
        case err of
          Some e \<Rightarrow> (Inl e, st, publish_upto 1 (length bs) LOG_TMP LOG_FILE bs fs)
        | None \<Rightarrow>
            let finished = publish_upto 5 0 LOG_TMP LOG_FILE bs fs;
                (i, reopened) = open_append LOG_FILE finished
            in case fault of
                 FaultAt n m \<Rightarrow>
                   if n < 5 then (Inl ''io error'', st, publish_upto n m LOG_TMP LOG_FILE bs fs)
                   else if n = 5 then (Inl ''io error'', st, finished)
                   else (Inr (), st\<lparr>log_file := Some i\<rparr>, reopened)
               | NoFault \<Rightarrow> (Inr (), st\<lparr>log_file := Some i\<rparr>, reopened))"

definition append_durable ::
  "log_codec \<Rightarrow> fault \<Rightarrow> log_store \<Rightarrow> entry \<Rightarrow> file_system \<Rightarrow> (string + unit) \<times> file_system" where
  "append_durable c fault st e fs =
     (case log_file st of
        None \<Rightarrow> (Inr (), fs)
      | Some i \<Rightarrow>
          (case entry_json c e of
             Inl err \<Rightarrow> (Inl err, fs)
           | Inr js \<Rightarrow>
               (case fault of
                  FaultAt 0 m \<Rightarrow> (Inl ''io error'', write_append i (take m (js @ [NEWLINE])) fs)
                | _ \<Rightarrow> (Inr (), write_append i (js @ [NEWLINE]) fs))))"

fun next_fault :: "fault \<Rightarrow> fault" where
  "next_fault NoFault = NoFault"
| "next_fault (FaultAt n m) = FaultAt (n - 1) m"

definition sync_log :: "fault \<Rightarrow> log_store \<Rightarrow> file_system \<Rightarrow> (string + unit) \<times> file_system" where
  "sync_log fault st fs =
     (case log_file st of
        None \<Rightarrow> (Inr (), fs)
      | Some i \<Rightarrow>
          (case fault of
             FaultAt 0 _ \<Rightarrow> (Inl ''io error'', fs)
           | _ \<Rightarrow> (Inr (), sync_file i fs)))"

fun append_log ::
  "log_codec \<Rightarrow> fault \<Rightarrow> entry list \<Rightarrow> log_store \<Rightarrow> file_system
     \<Rightarrow> (string + unit) \<times> log_store \<times> file_system" where
  "append_log c fault [] st fs =
     (case sync_log fault st fs of (r, fs') \<Rightarrow> (r, st, fs'))"
| "append_log c fault (e # es) st fs =
     (case append_durable c fault st e fs of
        (Inl err, fs') \<Rightarrow> (Inl err, st, fs')
      | (Inr _, fs') \<Rightarrow>
          append_log c (next_fault fault) es (st\<lparr>log := insert_entry e (log st)\<rparr>) fs')"

definition save_vote ::
  "log_codec \<Rightarrow> fault \<Rightarrow> vote \<Rightarrow> log_store \<Rightarrow> file_system \<Rightarrow> (string + unit) \<times> log_store \<times> file_system" where
  "save_vote c fault v st fs =
     (let st' = st\<lparr>saved_vote := Some v\<rparr>; (r, fs') = persist_meta c fault st' fs in (r, st', fs'))"

definition save_committed ::
  "log_codec \<Rightarrow> fault \<Rightarrow> log_id option \<Rightarrow> log_store \<Rightarrow> file_system
     \<Rightarrow> (string + unit) \<times> log_store \<times> file_system" where
  "save_committed c fault i st fs =
     (let st' = st\<lparr>committed_id := i\<rparr>; (r, fs') = persist_meta c fault st' fs in (r, st', fs'))"

definition truncate_log ::
  "log_codec \<Rightarrow> fault \<Rightarrow> log_id \<Rightarrow> log_store \<Rightarrow> file_system \<Rightarrow> (string + unit) \<times> log_store \<times> file_system" where
  "truncate_log c fault l st fs =
     rewrite_log c fault (st\<lparr>log := fmfilter (\<lambda>i. i < log_index l) (log st)\<rparr>) fs"

definition purge_log ::
  "log_codec \<Rightarrow> fault \<Rightarrow> fault \<Rightarrow> log_id \<Rightarrow> log_store \<Rightarrow> file_system
     \<Rightarrow> (string + unit) \<times> log_store \<times> file_system" where
  "purge_log c meta_fault fault l st fs =
     (let st' = st\<lparr>last_purged := Some l, log := fmfilter (\<lambda>i. log_index l < i) (log st)\<rparr> in
      case persist_meta c meta_fault st' fs of
        (Inl e, fs') \<Rightarrow> (Inl e, st', fs')
      | (Inr _, fs') \<Rightarrow> rewrite_log c fault st' fs')"

section \<open>Reading\<close>

text \<open>\<open>try_get_log_entries\<close> for the half-open range \<open>lo..hi\<close>, and the log state.\<close>

definition try_get_log_entries :: "(u64 \<Rightarrow> bool) \<Rightarrow> log_store \<Rightarrow> entry list" where
  "try_get_log_entries in_range st = map snd (filter (\<lambda>(i, _). in_range i) (btree_entries (log st)))"

definition get_log_state :: "log_store \<Rightarrow> log_id option \<times> log_id option" where
  "get_log_state st =
     (last_purged st,
      case btree_entries (log st) of
        [] \<Rightarrow> last_purged st
      | es \<Rightarrow> Some (entry_log_id (snd (last es))))"

end
