(* ===== verification/Log_Recovery.thy ===== *)
theory Log_Recovery
  imports Log_Store
begin

text \<open>
  What a restart finds in the Raft log: every acknowledged append, of an unacknowledged one a prefix,
  and after a truncation or a purge either the old or the new log.
\<close>

section \<open>The laws of the codec\<close>

text \<open>Compact JSON holds no newline, and a parser accepts the line an entry was printed to.\<close>

definition log_codec_ok :: "log_codec \<Rightarrow> bool" where
  "log_codec_ok c \<longleftrightarrow>
     (\<forall>e js. entry_json c e = Inr js \<longrightarrow>
        NEWLINE \<notin> set js \<and> entry_parse c (js @ [NEWLINE]) = Inr e)
     \<and> (\<forall>m bs. meta_json c m = Inr bs \<longrightarrow> meta_parse c bs = Inr m)"

section \<open>Replaying lines\<close>

lemma split_inclusive_line:
  "d \<notin> set l \<Longrightarrow> split_inclusive d (l @ d # r) = (l @ [d]) # split_inclusive d r"
  by (induction l) auto

lemma split_inclusive_tail: "d \<notin> set l \<Longrightarrow> split_inclusive d l = (if l = [] then [] else [l])"
  by (induction l) auto

lemma replay_tail:
  assumes "NEWLINE \<notin> set l"
  shows "replay_lines c (split_inclusive NEWLINE l) m n = Inr (m, n)"
proof (cases "l = []")
  case False
  then have "last l \<noteq> NEWLINE"
    using assms last_in_set by metis
  with assms show ?thesis
    by (simp add: split_inclusive_tail)
qed simp

lemma encode_lines_Cons:
  "encode_lines c (e # es) = (bs, None) \<longleftrightarrow>
     (\<exists>js rest. entry_json c e = Inr js \<and> encode_lines c es = (rest, None)
        \<and> bs = js @ NEWLINE # rest)"
  by (auto split: sum.splits prod.splits)

lemma encode_lines_append:
  assumes "encode_lines c xs = (bs, None)" and "encode_lines c ys = (cs, None)"
  shows "encode_lines c (xs @ ys) = (bs @ cs, None)"
  using assms
proof (induction xs arbitrary: bs)
  case (Cons e es)
  then show ?case
    by (auto simp del: encode_lines.simps simp add: encode_lines_Cons)
qed simp

text \<open>
  Reading back the first \<open>k\<close> bytes of a file of lines gives the entries whose lines are complete, and
  the length up to which the file is valid.
\<close>

lemma replay_torn:
  assumes "log_codec_ok c" and "encode_lines c es = (bs, None)"
  shows "\<exists>j n. j \<le> length es \<and> n \<le> k
    \<and> replay_lines c (split_inclusive NEWLINE (take k bs)) m z
        = Inr (fold insert_entry (take j es) m, z + n)
    \<and> encode_lines c (take j es) = (take n bs, None) \<and> n \<le> length bs
    \<and> (\<forall>i\<le>length es. length (fst (encode_lines c (take i es))) \<le> k \<longrightarrow> i \<le> j)"
  using assms(2)
proof (induction es arbitrary: bs k m z)
  case Nil
  then show ?case by simp
next
  case (Cons e es)
  then obtain js rest where e: "entry_json c e = Inr js" and rest: "encode_lines c es = (rest, None)"
    and bs: "bs = js @ NEWLINE # rest"
    by (auto simp del: encode_lines.simps simp add: encode_lines_Cons)
  have law: "NEWLINE \<notin> set js" "entry_parse c (js @ [NEWLINE]) = Inr e"
    using assms(1) e by (simp_all add: log_codec_ok_def)
  have len: "length (fst (encode_lines c (take (Suc i) (e # es))))
      = length js + 1 + length (fst (encode_lines c (take i es)))" for i
    using e by (simp add: split_def Let_def)
  show ?case
  proof (cases "k \<le> length js")
    case True
    then have "take k bs = take k js" by (simp add: bs)
    moreover have "NEWLINE \<notin> set (take k js)"
      using law(1) by (meson in_set_takeD)
    moreover have "i = 0" if "length (fst (encode_lines c (take i (e # es)))) \<le> k" for i
      using that True len by (cases i) auto
    ultimately show ?thesis
      by (intro exI [of _ 0]) (auto simp: replay_tail)
  next
    case False
    define q where "q = k - Suc (length js)"
    have "take k bs = js @ NEWLINE # take q rest"
      using False by (simp add: bs q_def take_Cons')
    then have split: "split_inclusive NEWLINE (take k bs)
        = (js @ [NEWLINE]) # split_inclusive NEWLINE (take q rest)"
      by (simp add: split_inclusive_line law(1))
    obtain j n where jn: "j \<le> length es" "n \<le> q"
      "replay_lines c (split_inclusive NEWLINE (take q rest)) (insert_entry e m) (z + Suc (length js))
         = Inr (fold insert_entry (take j es) (insert_entry e m), z + Suc (length js) + n)"
      "encode_lines c (take j es) = (take n rest, None)" "n \<le> length rest"
      "\<forall>i\<le>length es. length (fst (encode_lines c (take i es))) \<le> q \<longrightarrow> i \<le> j"
      using Cons.IH [OF rest] by meson
    have "i \<le> Suc j" if "i \<le> length (e # es)" "length (fst (encode_lines c (take i (e # es)))) \<le> k" for i
      using that len jn(6) False by (cases i) (auto simp: q_def)
    moreover have "replay_lines c (split_inclusive NEWLINE (take k bs)) m z
        = Inr (fold insert_entry (take (Suc j) (e # es)) m, z + (Suc (length js) + n))"
      using jn(3) by (simp add: split law(2))
    moreover have "encode_lines c (take (Suc j) (e # es)) = (take (Suc (length js) + n) bs, None)"
      using jn(4) by (simp add: e bs)
    ultimately show ?thesis
      using jn(1,2,5) False
      by - (rule exI [of _ "Suc j"], rule exI [of _ "Suc (length js) + n"],
          simp del: encode_lines.simps take_Suc_Cons add: q_def, simp add: bs)
  qed
qed


section \<open>Stores and their files\<close>

definition meta_of_store :: "log_store \<Rightarrow> log_meta" where
  "meta_of_store st =
     \<lparr>meta_vote = saved_vote st, meta_last_purged = last_purged st, meta_committed = committed_id st\<rparr>"

definition meta_holds :: "log_codec \<Rightarrow> bytes option \<Rightarrow> log_meta \<Rightarrow> bool" where
  "meta_holds c file meta \<longleftrightarrow>
     (case file of None \<Rightarrow> meta = default_meta | Some bs \<Rightarrow> meta_parse c bs = Inr meta)"

definition log_holds :: "log_codec \<Rightarrow> bytes \<Rightarrow> (u64, entry) fmap \<Rightarrow> bool" where
  "log_holds c bs m \<longleftrightarrow> (\<exists>es. encode_lines c es = (bs, None) \<and> m = fold insert_entry es fmempty)"

text \<open>A durable store whose two files are on disk and say what is in memory.\<close>

definition log_ok :: "log_codec \<Rightarrow> log_store \<Rightarrow> file_system \<Rightarrow> bool" where
  "log_ok c st fs \<longleftrightarrow>
     fs_ok fs \<and> has_dir st
     \<and> (\<exists>i bs. log_file st = Some i \<and> fmlookup (dir fs) LOG_FILE = Some i
          \<and> durable_as fs LOG_FILE (Some bs) \<and> log_holds c bs (log st))
     \<and> (\<exists>mf. durable_as fs META_FILE mf \<and> meta_holds c mf (meta_of_store st))"

text \<open>Opening succeeds with the given log and meta data, and yields a store in good order.\<close>

definition recovers :: "log_codec \<Rightarrow> file_system \<Rightarrow> log_meta \<Rightarrow> (u64, entry) fmap \<Rightarrow> bool" where
  "recovers c fs meta m \<longleftrightarrow>
     (\<exists>st fs'. open_log c NoFault fs = (Inr st, fs') \<and> log st = m \<and> meta_of_store st = meta
        \<and> log_ok c st fs')"

lemma names_differ [simp]:
  "LOG_FILE \<noteq> META_FILE" "META_FILE \<noteq> LOG_FILE" "LOG_TMP \<noteq> LOG_FILE" "META_FILE \<noteq> LOG_TMP"
  "pending_name META_FILE \<noteq> META_FILE" "LOG_FILE \<noteq> pending_name META_FILE"
  "pending_name META_FILE \<noteq> LOG_FILE"
  by (simp_all add: log_names)

lemma crash_settled:
  assumes "crash fs fs'"
  shows "fs_ok fs'" and "durable_as fs' name (read_file fs' name)"
  using assms
  by (auto simp: crash_def durable_as_def read_file_def fs_ok_def split: option.splits)

lemma open_append_inode:
  assumes "open_append name fs = (i, fs')" and "fs_ok fs"
  shows "fmlookup (dir fs') name = Some i"
    and "contents fs' i = (case read_file fs name of None \<Rightarrow> [] | Some bs \<Rightarrow> bs)"
    and "fs_ok fs'"
    and "other \<noteq> name \<Longrightarrow> fmlookup (dir fs') other \<noteq> Some i"
  using assms unfolding open_append_def fs_ok_def read_file_def
  by (auto split: option.splits if_splits simp: less_Suc_eq) (metis less_irrefl)+

lemma open_append_other:
  assumes "open_append name fs = (i, fs')" and "fs_ok fs" and "durable_as fs other c" and "other \<noteq> name"
  shows "durable_as fs' other c"
proof -
  have "fmlookup (dir fs) other \<noteq> Some (next_inode fs)"
    using assms(2) unfolding fs_ok_def by blast
  with assms(1,3,4) show ?thesis
    by (auto simp: durable_as_def open_append_def split: option.splits if_splits)
qed

lemma open_recovers:
  assumes settled: "fs_ok fs" "\<And>name. durable_as fs name (read_file fs name)"
    and meta: "meta_holds c (read_file fs META_FILE) meta"
    and log: "read_log c fs = Inr (m, n)"
    and lines: "\<exists>es. encode_lines c es = (take n (case read_file fs LOG_FILE of None \<Rightarrow> [] | Some bs \<Rightarrow> bs), None)
        \<and> m = fold insert_entry es fmempty"
    and len: "n \<le> length (case read_file fs LOG_FILE of None \<Rightarrow> [] | Some bs \<Rightarrow> bs)"
  shows "recovers c fs meta m"
proof -
  obtain i opened where op: "open_append LOG_FILE fs = (i, opened)" by fastforce
  define final where "final = sync_directory (sync_file i (set_len i n opened))"
  define st where "st = \<lparr>log = m, last_purged = meta_last_purged meta, saved_vote = meta_vote meta,
      committed_id = meta_committed meta, log_file = Some i, has_dir = True\<rparr>"
  have open_ok: "open_log c NoFault fs = (Inr st, final)"
    using meta log op
    by (auto simp: open_log_def read_meta_def meta_holds_def final_def st_def Let_def
        split: option.splits)
  note i = open_append_inode [OF op settled(1)]
  have uniq: "fmlookup (dir opened) nm \<noteq> Some i" if "nm \<noteq> LOG_FILE" for nm
    using i(4) that .
  have "durable_as final LOG_FILE (Some (take n (contents opened i)))"
    using i(1) uniq len i(2)
    by (auto simp: durable_as_def final_def sync_directory_def sync_file_def set_len_def)
  moreover have "durable_as final META_FILE (read_file fs META_FILE)"
    using open_append_other [OF op settled(1) settled(2) [of META_FILE]] uniq [of META_FILE]
    by (auto simp: durable_as_def final_def sync_directory_def sync_file_def set_len_def
        split: option.splits)
  moreover have "fs_ok final"
    using i(3) by (auto simp: fs_ok_def final_def sync_directory_def sync_file_def set_len_def)
  moreover have "fmlookup (dir final) LOG_FILE = Some i"
    using i(1) by (simp add: final_def sync_directory_def sync_file_def set_len_def)
  moreover have store: "log st = m" "log_file st = Some i" "has_dir st" "meta_of_store st = meta"
    by (simp_all add: st_def meta_of_store_def)
  moreover have "log_holds c (take n (contents opened i)) m"
    unfolding log_holds_def i(2) by (rule lines)
  ultimately have "log_ok c st final"
    unfolding log_ok_def using meta by auto
  then show ?thesis
    unfolding recovers_def using open_ok store by blast
qed

section \<open>Appending\<close>

text \<open>
  An append only extends the log file, by some bytes of the lines of a prefix of the entries; when it
  succeeds it has written and synced all of them.
\<close>

lemma append_log_effect:
  assumes "append_log c fault es st fs = (r, st', fs')" and "log_file st = Some i"
  shows "\<exists>p w k. encode_lines c (take p es) = (w, None) \<and> p \<le> length es
     \<and> dir fs' = dir fs \<and> disk_dir fs' = disk_dir fs \<and> next_inode fs' = next_inode fs
     \<and> contents fs' i = contents fs i @ take k w
     \<and> (\<forall>j. j \<noteq> i \<longrightarrow> contents fs' j = contents fs j \<and> disk_contents fs' j = disk_contents fs j)
     \<and> (if r = Inr ()
        then p = length es \<and> k = length w \<and> st' = st\<lparr>log := fold insert_entry es (log st)\<rparr>
          \<and> disk_contents fs' i = contents fs' i
        else disk_contents fs' i = disk_contents fs i)"
  using assms
proof (induction es arbitrary: fault st fs)
  case Nil
  then show ?case
    by - (rule exI [of _ 0], rule exI [of _ "[]"], rule exI [of _ 0],
        auto simp: sync_log_def sync_file_def split: fault.splits nat.splits)
next
  case (Cons e es)
  show ?case
  proof (cases "entry_json c e")
    case (Inl err)
    then show ?thesis
      using Cons.prems
      by - (rule exI [of _ 0], rule exI [of _ "[]"], rule exI [of _ 0],
          auto simp: append_durable_def)
  next
    case (Inr js)
    let ?line = "js @ [NEWLINE]"
    show ?thesis
    proof (cases "\<exists>m. fault = FaultAt 0 m")
      case True
      then obtain m where "fault = FaultAt 0 m" by blast
      then show ?thesis
        using Cons.prems Inr
        by - (rule exI [of _ "Suc 0"], rule exI [of _ ?line], rule exI [of _ m],
            auto simp: append_durable_def write_append_def)
    next
      case False
      then have "append_durable c fault st e fs = (Inr (), write_append i ?line fs)"
        using Cons.prems(2) Inr by (auto simp: append_durable_def split: fault.splits nat.splits)
      then have rest: "append_log c (next_fault fault) es (st\<lparr>log := insert_entry e (log st)\<rparr>)
          (write_append i ?line fs) = (r, st', fs')"
        using Cons.prems(1) by simp
      have "log_file (st\<lparr>log := insert_entry e (log st)\<rparr>) = Some i"
        using Cons.prems(2) by simp
      from Cons.IH [OF rest this] show ?thesis
        apply (elim exE)
        subgoal for p w k
          by (rule exI [of _ "Suc p"], rule exI [of _ "?line @ w"], rule exI [of _ "length ?line + k"])
            (simp add: Inr write_append_def split: if_splits)
        done
    qed
  qed
qed

text \<open>Reading back a torn log file that starts with the lines of \<open>xs\<close>.\<close>

lemma torn_log_recovers:
  assumes codec: "log_codec_ok c" and crash: "crash fs fs'"
    and xs: "encode_lines c xs = (bs, None)" and ys: "encode_lines c ys = (w, None)"
    and stored: "fmlookup (dir fs') LOG_FILE = Some i" "contents fs' i = take k (bs @ w)" "length bs \<le> k"
    and meta: "meta_holds c (read_file fs' META_FILE) meta"
  shows "\<exists>j\<le>length ys. (length (bs @ w) \<le> k \<longrightarrow> j = length ys)
    \<and> recovers c fs' meta (fold insert_entry (take j ys) (fold insert_entry xs fmempty))"
proof -
  note all = encode_lines_append [OF xs ys]
  obtain j n where jn: "j \<le> length (xs @ ys)" "n \<le> k"
    "replay_lines c (split_inclusive NEWLINE (take k (bs @ w))) fmempty 0
       = Inr (fold insert_entry (take j (xs @ ys)) fmempty, 0 + n)"
    "encode_lines c (take j (xs @ ys)) = (take n (bs @ w), None)" "n \<le> length (bs @ w)"
    "\<forall>i\<le>length (xs @ ys). length (fst (encode_lines c (take i (xs @ ys)))) \<le> k \<longrightarrow> i \<le> j"
    using replay_torn [OF codec all, of k fmempty 0] by blast
  have "length xs \<le> j"
    using jn(6) [rule_format, of "length xs"] xs stored(3) by simp
  then have prefix: "take j (xs @ ys) = xs @ take (j - length xs) ys"
    by simp
  have full: "j = length (xs @ ys)" if "length (bs @ w) \<le> k"
    using jn(1) jn(6) [rule_format, of "length (xs @ ys)"] all that by simp
  have read: "read_file fs' LOG_FILE = Some (take k (bs @ w))"
    using stored(1,2) by (simp add: read_file_def)
  have "recovers c fs' meta (fold insert_entry (take j (xs @ ys)) fmempty)"
  proof (rule open_recovers [OF crash_settled [OF crash] meta])
    show "read_log c fs' = Inr (fold insert_entry (take j (xs @ ys)) fmempty, n)"
      using jn(3) by (simp add: read_log_def read)
    show "\<exists>es. encode_lines c es = (take n (case read_file fs' LOG_FILE of None \<Rightarrow> [] | Some bs \<Rightarrow> bs), None)
        \<and> fold insert_entry (take j (xs @ ys)) fmempty = fold insert_entry es fmempty"
      using jn(2,4) by (intro exI [of _ "take j (xs @ ys)"]) (simp add: read min_def)
    show "n \<le> length (case read_file fs' LOG_FILE of None \<Rightarrow> [] | Some bs \<Rightarrow> bs)"
      using jn(2,5) by (simp add: read)
  qed
  then show ?thesis
    using prefix full jn(1) by (intro exI [of _ "j - length xs"]) simp
qed

lemma torn_append_cases:
  assumes "torn d (bs @ take k w) found" and "d = bs \<or> d = bs @ take k w"
  shows "\<exists>q\<ge>length d. found = take q (bs @ w)"
proof -
  have "take (length d) (bs @ take k w) = d"
    using assms(2) by (metis append_eq_conv_conj order_refl take_all)
  then obtain l where "l \<ge> length d" "found = take l (bs @ take k w)"
    using assms(1) unfolding torn_def by blast
  then show ?thesis
    using assms(2)
    by (intro exI [of _ "length bs + min (l - length bs) k"]) (auto simp: min_def split: if_splits)
qed

text \<open>A crash after an append to a file on disk: the file holds its old bytes and a prefix of the new ones.\<close>

lemma append_crash:
  assumes "durable_as fs nm (Some bs)" and "fmlookup (dir fs) nm = Some i"
    and "dir fs' = dir fs" and "disk_dir fs' = disk_dir fs" and "contents fs' i = bs @ take k w"
    and "disk_contents fs' i = (if synced then bs @ take k w else bs)" and "crash fs' fs''"
  shows "\<exists>q. fmlookup (dir fs'') nm = Some i \<and> contents fs'' i = bs @ take q w
    \<and> read_file fs'' nm = Some (bs @ take q w) \<and> (synced \<longrightarrow> length (take k w) \<le> q)"
proof -
  have "torn (disk_contents fs' i) (bs @ take k w) (contents fs'' i)"
    using assms(5,7) unfolding crash_def by metis
  moreover have "disk_contents fs' i = bs \<or> disk_contents fs' i = bs @ take k w" using assms(6) by (auto split: if_splits)
  ultimately obtain q where q: "length (disk_contents fs' i) \<le> q" "contents fs'' i = take q (bs @ w)"
    using torn_append_cases by blast
  have "length bs \<le> q" "synced \<longrightarrow> length (take k w) \<le> q - length bs" using q(1) assms(6) by (auto split: if_splits)
  moreover from this have "contents fs'' i = bs @ take (q - length bs) w" using q(2) by simp
  moreover have "fmlookup (dir fs'') nm = Some i"
    using assms(1-4,7) unfolding crash_def durable_as_def by (metis option.inject)
  ultimately show ?thesis by (intro exI [of _ "q - length bs"]) (simp add: read_file_def)
qed

text \<open>A settled file system with complete files recovers to what they say.\<close>

lemma file_recovers:
  assumes "log_codec_ok c" and "crash fs fs'" and "read_file fs' LOG_FILE = Some bs"
    and "log_holds c bs m" and "meta_holds c (read_file fs' META_FILE) meta"
  shows "recovers c fs' meta m"
proof -
  obtain xs where "encode_lines c xs = (bs, None)" "m = fold insert_entry xs fmempty"
    using assms(4) by (auto simp: log_holds_def)
  moreover obtain i where "fmlookup (dir fs') LOG_FILE = Some i" "contents fs' i = take (length bs) (bs @ [])"
    using assms(3) by (auto simp: read_file_def)
  ultimately show ?thesis
    using torn_log_recovers [OF assms(1,2), of xs bs "[]" "[]" i "length bs" meta] assms(5) by simp
qed

lemma log_ok_crash:
  assumes "log_codec_ok c" and "log_ok c st fs" and "crash fs fs'"
  shows "recovers c fs' (meta_of_store st) (log st)"
proof -
  obtain bs mf where "durable_as fs LOG_FILE (Some bs)" "log_holds c bs (log st)"
    "durable_as fs META_FILE mf" "meta_holds c mf (meta_of_store st)"
    using assms(2) by (auto simp: log_ok_def)
  then show ?thesis
    using file_recovers [OF assms(1,3)] crash_stable [OF _ assms(3)] by simp
qed

section \<open>Rewriting\<close>

definition log_keyed :: "(u64, entry) fmap \<Rightarrow> bool" where
  "log_keyed m \<longleftrightarrow> (\<forall>i e. fmlookup m i = Some e \<longrightarrow> log_index (entry_log_id e) = i)"

lemma log_holds_keyed: "log_holds c bs m \<Longrightarrow> log_keyed m"
proof -
  have "log_keyed m \<Longrightarrow> log_keyed (insert_entry e m)" for e m
    by (simp add: log_keyed_def insert_entry_def)
  then have "log_keyed m \<Longrightarrow> log_keyed (fold insert_entry es m)" for es m
    by (induction es arbitrary: m) simp_all
  moreover have "log_keyed fmempty" by (simp add: log_keyed_def)
  ultimately show "log_holds c bs m \<Longrightarrow> log_keyed m"
    by (auto simp: log_holds_def)
qed

lemma fold_insert_lookup:
  assumes "distinct (map (\<lambda>e. log_index (entry_log_id e)) es)"
  shows "fmlookup (fold insert_entry es m) i =
    (case map_of (map (\<lambda>e. (log_index (entry_log_id e), e)) es) i of None \<Rightarrow> fmlookup m i | Some e \<Rightarrow> Some e)"
  using assms
proof (induction es arbitrary: m)
  case (Cons e es)
  have "map_of (map (\<lambda>e. (log_index (entry_log_id e), e)) es) (log_index (entry_log_id e)) = None"
    using Cons.prems by (force simp: map_of_eq_None_iff)
  with Cons show ?case
    by (auto simp: insert_entry_def split: option.splits)
qed simp

text \<open>Writing the entries of a log in index order and replaying them gives the log back.\<close>

lemma rewrite_holds:
  assumes "log_keyed m" and "encode_lines c (map snd (btree_entries m)) = (bs, None)"
  shows "log_holds c bs m"
proof -
  let ?key = "\<lambda>e. log_index (entry_log_id e)"
  have keys: "?key (snd x) = fst x" if "x \<in> set (btree_entries m)" for x
    using assms(1) that unfolding log_keyed_def set_btree_entries by (cases x) simp
  then have pairs: "map (\<lambda>e. (?key e, e)) (map snd (btree_entries m)) = btree_entries m"
    by (auto simp: comp_def intro!: map_idI)
  have "map ?key (map snd (btree_entries m)) = map fst (btree_entries m)"
    using keys by simp
  then have "distinct (map ?key (map snd (btree_entries m)))"
    using sorted_btree_entries(2) [of m] by (simp only:)
  then have "fold insert_entry (map snd (btree_entries m)) fmempty = m"
    by (intro fmap_ext) (simp only: fold_insert_lookup pairs map_of_btree_entries, simp split: option.splits)
  with assms(2) show ?thesis
    by (auto simp: log_holds_def)
qed

lemma publish_keeps_entry:
  assumes "fmlookup (dir fs) name = Some i" and "tmp \<noteq> name" and "path \<noteq> name"
  shows "fmlookup (dir (publish_upto n k tmp path bs fs)) name = Some i"
  using assms
  by (auto simp: publish_upto_def open_truncate_def rename_file_def write_append_def sync_file_def
      sync_directory_def Let_def split: option.splits)

lemma publish_log_cases:
  assumes "log_codec_ok c" and "log_ok c st fs" and "log_holds c bs m"
    and "crash (publish_upto n k LOG_TMP LOG_FILE bs fs) fs'"
  shows "recovers c fs' (meta_of_store st) (log st) \<or> recovers c fs' (meta_of_store st) m"
proof -
  obtain old mf where ok: "fs_ok fs" "durable_as fs LOG_FILE (Some old)" "log_holds c old (log st)"
    "durable_as fs META_FILE mf" "meta_holds c mf (meta_of_store st)"
    using assms(2) by (auto simp: log_ok_def)
  have "read_file fs' META_FILE = mf"
    using crash_stable [OF publish_other [OF ok(1,4)] assms(4)] by simp
  moreover have "read_file fs' LOG_FILE = Some old \<or> read_file fs' LOG_FILE = Some bs"
    using publish_crash [OF ok(1,2) _ assms(4)] by simp
  ultimately show ?thesis
    using file_recovers [OF assms(1,4)] ok(3,5) assms(3) by auto
qed

text \<open>A temporary file that is never renamed leaves the store as it was.\<close>

lemma publish_unfinished:
  assumes "log_ok c st fs"
  shows "log_ok c st (publish_upto 1 k LOG_TMP LOG_FILE bs fs)"
proof -
  let ?fs = "publish_upto 1 k LOG_TMP LOG_FILE bs fs"
  obtain i old mf where ok: "fs_ok fs" "has_dir st" "log_file st = Some i"
    "fmlookup (dir fs) LOG_FILE = Some i" "durable_as fs LOG_FILE (Some old)" "log_holds c old (log st)"
    "durable_as fs META_FILE mf" "meta_holds c mf (meta_of_store st)"
    using assms by (auto simp: log_ok_def)
  have "fmlookup (dir ?fs) LOG_FILE = Some i"
    using ok(4) by (auto simp: publish_upto_def open_truncate_def split: option.splits)
  moreover have "durable_as ?fs LOG_FILE (Some old)"
    using publish_before_rename(1) [OF ok(1,5)] by simp
  moreover have "durable_as ?fs META_FILE mf"
    using publish_other [OF ok(1,7)] by simp
  ultimately show ?thesis
    unfolding log_ok_def using ok(2,3,6,8) publish_fs_ok [OF ok(1)] by blast
qed

lemma rewrite_recovers:
  assumes "log_codec_ok c" and "log_ok c st fs" and "log_keyed m"
    and "rewrite_log c fault (st\<lparr>log := m\<rparr>) fs = (r, st', fs')"
  shows "crash fs' fs'' \<Longrightarrow>
      recovers c fs'' (meta_of_store st) (log st) \<or> recovers c fs'' (meta_of_store st) m"
    and "r = Inr () \<Longrightarrow> log_ok c st' fs' \<and> log st' = m \<and> meta_of_store st' = meta_of_store st"
proof -
  have dir: "has_dir st" using assms(2) by (simp add: log_ok_def)
  obtain bs err where enc: "encode_lines c (map snd (btree_entries m)) = (bs, err)" by fastforce
  let ?done = "publish_upto 5 0 LOG_TMP LOG_FILE bs fs"
  have "(crash fs' fs'' \<longrightarrow>
        recovers c fs'' (meta_of_store st) (log st) \<or> recovers c fs'' (meta_of_store st) m)
      \<and> (r = Inr () \<longrightarrow> log_ok c st' fs' \<and> log st' = m \<and> meta_of_store st' = meta_of_store st)"
  proof (cases err)
    case (Some e)
    then have "fs' = publish_upto 1 (length bs) LOG_TMP LOG_FILE bs fs" "r = Inl e"
      using assms(4) dir enc by (simp_all add: rewrite_log_def)
    then show ?thesis
      using log_ok_crash [OF assms(1) publish_unfinished [OF assms(2)]] by simp
  next
    case None
    then have holds: "log_holds c bs m"
      using rewrite_holds [OF assms(3)] enc by simp
    obtain old mf where ok: "fs_ok fs" "durable_as fs LOG_FILE (Some old)"
      "durable_as fs META_FILE mf" "meta_holds c mf (meta_of_store st)"
      using assms(2) by (auto simp: log_ok_def)
    have fin: "durable_as ?done LOG_FILE (Some bs)" "fs_ok ?done" "durable_as ?done META_FILE mf"
      using publish_done [OF ok(1,2)] publish_other [OF ok(1,3)] by simp_all
    then obtain i where i: "open_append LOG_FILE ?done = (i, ?done)" "fmlookup (dir ?done) LOG_FILE = Some i"
      by (auto simp: open_append_def durable_as_def split: option.splits)
    have "\<exists>n k. fs' = publish_upto n k LOG_TMP LOG_FILE bs fs"
      and "r = Inr () \<Longrightarrow> st' = st\<lparr>log := m, log_file := Some i\<rparr> \<and> fs' = ?done"
      using assms(4) dir enc None i(1)
      by (auto simp: rewrite_log_def Let_def split: fault.splits if_splits)
    then show ?thesis
      using publish_log_cases [OF assms(1,2) holds] i(2) fin ok(4) holds dir
      by (auto simp: log_ok_def meta_of_store_def)
  qed
  then show "crash fs' fs'' \<Longrightarrow>
      recovers c fs'' (meta_of_store st) (log st) \<or> recovers c fs'' (meta_of_store st) m"
    and "r = Inr () \<Longrightarrow> log_ok c st' fs' \<and> log st' = m \<and> meta_of_store st' = meta_of_store st"
    by blast+
qed

text \<open>\<open>persist_meta\<close> of a store that differs from \<open>st\<close> in the saved positions (and, before a purge, in the log).\<close>

lemma persist_meta_recovers:
  assumes "log_codec_ok c" and "log_ok c st fs" and "has_dir st'"
    and "persist_meta c fault st' fs = (r, fs')"
  shows "crash fs' fs'' \<Longrightarrow>
      recovers c fs'' (meta_of_store st) (log st) \<or> recovers c fs'' (meta_of_store st') (log st)"
    and "r = Inr () \<Longrightarrow>
      log_ok c (st\<lparr>saved_vote := saved_vote st', last_purged := last_purged st',
                   committed_id := committed_id st'\<rparr>) fs'"
proof -
  obtain i bs mf where ok: "fs_ok fs" "has_dir st" "log_file st = Some i"
    "fmlookup (dir fs) LOG_FILE = Some i" "durable_as fs LOG_FILE (Some bs)" "log_holds c bs (log st)"
    "durable_as fs META_FILE mf" "meta_holds c mf (meta_of_store st)"
    using assms(2) by (auto simp: log_ok_def)
  have "(crash fs' fs'' \<longrightarrow>
        recovers c fs'' (meta_of_store st) (log st) \<or> recovers c fs'' (meta_of_store st') (log st))
      \<and> (r = Inr () \<longrightarrow>
        log_ok c (st\<lparr>saved_vote := saved_vote st', last_purged := last_purged st',
                     committed_id := committed_id st'\<rparr>) fs')"
  proof (cases "meta_json c (meta_of_store st')")
    case (Inl e)
    then show ?thesis
      using assms(3,4) log_ok_crash [OF assms(1,2)]
      by (auto simp: persist_meta_def meta_of_store_def)
  next
    case (Inr js)
    then have rep: "replace fault META_FILE js fs = (r, fs')"
      using assms(3,4) by (simp add: persist_meta_def meta_of_store_def)
    then obtain n k where upto: "fs' = publish_upto n k (pending_name META_FILE) META_FILE js fs"
      using replace_stops [of fault META_FILE js fs] by (auto simp: replace_upto_def)
    have log': "durable_as fs' LOG_FILE (Some bs)"
      unfolding upto by (rule publish_other [OF ok(1,5)]) simp_all
    have new: "meta_holds c (Some js) (meta_of_store st')"
      using assms(1) Inr by (simp add: meta_holds_def log_codec_ok_def)
    have "recovers c fs'' (meta_of_store st) (log st) \<or> recovers c fs'' (meta_of_store st') (log st)"
      if crash: "crash fs' fs''"
      using publish_crash [OF ok(1,7) names_differ(5) crash [unfolded upto]] new ok(8)
        file_recovers [OF assms(1) crash crash_stable [OF log' crash] ok(6)] by auto
    moreover have "durable_as fs' META_FILE (Some js)" "fs_ok fs'" if "r = Inr ()"
      using replace_Ok [OF ok(1,7) names_differ(5)] rep that by blast+
    moreover have "fmlookup (dir fs') LOG_FILE = Some i" if "r = Inr ()"
      using publish_keeps_entry [OF ok(4), of "pending_name META_FILE" META_FILE] by (simp add: upto)
    ultimately show ?thesis
      using ok(2,3,6) log' new by (auto simp: log_ok_def meta_of_store_def)
  qed
  then show "crash fs' fs'' \<Longrightarrow>
      recovers c fs'' (meta_of_store st) (log st) \<or> recovers c fs'' (meta_of_store st') (log st)"
    and "r = Inr () \<Longrightarrow>
      log_ok c (st\<lparr>saved_vote := saved_vote st', last_purged := last_purged st',
                   committed_id := committed_id st'\<rparr>) fs'"
    by blast+
qed

lemma log_ok_keyed: "log_ok c st fs \<Longrightarrow> log_keyed (fmfilter P (log st))"
proof -
  assume "log_ok c st fs"
  then have "log_keyed (log st)"
    by (auto simp: log_ok_def intro: log_holds_keyed)
  then show ?thesis by (simp add: log_keyed_def)
qed

lemma truncate_recovers:
  assumes "log_codec_ok c" and "log_ok c st fs" and "truncate_log c fault l st fs = (r, st', fs')"
  shows "crash fs' fs'' \<Longrightarrow> recovers c fs'' (meta_of_store st) (log st)
      \<or> recovers c fs'' (meta_of_store st) (fmfilter (\<lambda>i. i < log_index l) (log st))"
    and "r = Inr () \<Longrightarrow>
      log_ok c st' fs' \<and> log st' = fmfilter (\<lambda>i. i < log_index l) (log st)
      \<and> meta_of_store st' = meta_of_store st"
  using rewrite_recovers [OF assms(1,2) log_ok_keyed [OF assms(2)] assms(3) [unfolded truncate_log_def]]
  by blast+

lemma purge_recovers:
  assumes "log_codec_ok c" and "log_ok c st fs"
    and purge: "purge_log c meta_fault fault l st fs = (r, st', fs')"
  defines "m \<equiv> fmfilter (\<lambda>i. log_index l < i) (log st)"
    and "meta \<equiv> (meta_of_store st)\<lparr>meta_last_purged := Some l\<rparr>"
  shows "crash fs' fs'' \<Longrightarrow> recovers c fs'' (meta_of_store st) (log st)
      \<or> recovers c fs'' meta (log st) \<or> recovers c fs'' meta m"
    and "r = Inr () \<Longrightarrow> log_ok c st' fs' \<and> log st' = m \<and> meta_of_store st' = meta"
proof -
  let ?mid = "st\<lparr>last_purged := Some l\<rparr>" and ?new = "st\<lparr>last_purged := Some l, log := m\<rparr>"
  have meta: "meta_of_store ?new = meta" "meta_of_store ?mid = meta"
    by (simp_all add: meta_of_store_def meta_def)
  have dir: "has_dir ?new" using assms(2) by (simp add: log_ok_def)
  obtain r1 fs1 where p1: "persist_meta c meta_fault ?new fs = (r1, fs1)" by fastforce
  note p = persist_meta_recovers [OF assms(1,2) dir p1, unfolded meta]
  have goal: "(crash fs' fs'' \<longrightarrow> recovers c fs'' (meta_of_store st) (log st)
        \<or> recovers c fs'' meta (log st) \<or> recovers c fs'' meta m)
      \<and> (r = Inr () \<longrightarrow> log_ok c st' fs' \<and> log st' = m \<and> meta_of_store st' = meta)"
  proof (cases r1)
    case (Inl e)
    then show ?thesis
      using purge p1 p(1) by (auto simp: purge_log_def m_def)
  next
    case (Inr u)
    then have mid: "log_ok c ?mid fs1" and rw: "rewrite_log c fault (?mid\<lparr>log := m\<rparr>) fs1 = (r, st', fs')"
      using p(2) purge p1 by (simp_all add: purge_log_def m_def)
    have "log_keyed m"
      unfolding m_def by (rule log_ok_keyed [OF assms(2)])
    then show ?thesis
      using rewrite_recovers [OF assms(1) mid _ rw] meta(2) by auto
  qed
  then show "crash fs' fs'' \<Longrightarrow> recovers c fs'' (meta_of_store st) (log st)
      \<or> recovers c fs'' meta (log st) \<or> recovers c fs'' meta m"
    and "r = Inr () \<Longrightarrow> log_ok c st' fs' \<and> log st' = m \<and> meta_of_store st' = meta"
    by blast+
qed

section \<open>Properties\<close>

text \<open>
  C12.  The Raft log keeps what it acknowledged.  Start from a store whose files are on disk.
  Whichever call of an append fails, and with the machine crashing at any point after it, reopening
  the store succeeds, the log is the old one extended by a prefix of the new entries, and vote, purge
  and commit positions are as before; a torn last line is cut off.  Once the append has returned
  \<open>Ok\<close> the prefix is all of them, and the store in memory agrees with its files again.
\<close>

theorem append_recovers:
  assumes "log_codec_ok c" and "log_ok c st fs" and "append_log c fault es st fs = (r, st', fs')"
  shows "(crash fs' fs'' \<longrightarrow>
            (\<exists>j\<le>length es. (r = Inr () \<longrightarrow> j = length es)
               \<and> recovers c fs'' (meta_of_store st) (fold insert_entry (take j es) (log st))))
       \<and> (r = Inr () \<longrightarrow> log_ok c st' fs' \<and> log st' = fold insert_entry es (log st))"
proof -
  from assms(2) obtain i bs mf where ok: "fs_ok fs" "has_dir st" "log_file st = Some i"
    "fmlookup (dir fs) LOG_FILE = Some i" "durable_as fs LOG_FILE (Some bs)" "log_holds c bs (log st)"
    "durable_as fs META_FILE mf" "meta_holds c mf (meta_of_store st)"
    by (auto simp: log_ok_def)
  then obtain xs where xs: "encode_lines c xs = (bs, None)" "log st = fold insert_entry xs fmempty"
    by (auto simp: log_holds_def)
  from append_log_effect [OF assms(3) ok(3)] obtain p w k where eff:
    "encode_lines c (take p es) = (w, None)" "p \<le> length es"
    "dir fs' = dir fs" "disk_dir fs' = disk_dir fs" "next_inode fs' = next_inode fs"
    "contents fs' i = contents fs i @ take k w"
    "\<And>j. j \<noteq> i \<Longrightarrow> contents fs' j = contents fs j \<and> disk_contents fs' j = disk_contents fs j"
    "r = Inr () \<Longrightarrow> p = length es \<and> k = length w \<and> disk_contents fs' i = contents fs' i
       \<and> st' = st\<lparr>log := fold insert_entry es (log st)\<rparr>"
    "r \<noteq> Inr () \<Longrightarrow> disk_contents fs' i = disk_contents fs i"
    by (elim exE conjE) (rule that; simp split: if_splits)
  have bs: "contents fs i = bs" "disk_contents fs i = bs" "fmlookup (disk_dir fs) LOG_FILE = Some i"
    "\<And>nm. nm \<noteq> LOG_FILE \<Longrightarrow> fmlookup (dir fs) nm \<noteq> Some i"
    using ok(4,5) by (simp_all add: durable_as_def)
  have meta: "durable_as fs' META_FILE mf"
    using ok(7) eff(3,4,7) bs(4) [of META_FILE]
    by (auto simp: durable_as_def split: option.splits)
  have "\<exists>j\<le>length es. (r = Inr () \<longrightarrow> j = length es)
      \<and> recovers c fs'' (meta_of_store st) (fold insert_entry (take j es) (log st))"
    if crash: "crash fs' fs''"
  proof -
    have new: "contents fs' i = bs @ take k w" "disk_contents fs' i = (if r = Inr () then bs @ take k w else bs)"
      using eff(6,8,9) bs(1,2) by simp_all
    from append_crash [OF ok(5,4) eff(3,4) new crash] obtain q where
      found: "fmlookup (dir fs'') LOG_FILE = Some i" and q0: "contents fs'' i = bs @ take q w"
      "r = Inr () \<longrightarrow> length (take k w) \<le> q"
      by blast
    then have q: "contents fs'' i = take (length bs + q) (bs @ w)" "length bs \<le> length bs + q" by simp_all
    have "meta_holds c (read_file fs'' META_FILE) (meta_of_store st)"
      using crash_stable [OF meta crash] ok(8) by simp
    from torn_log_recovers [OF assms(1) crash xs(1) eff(1) found q(1,2) this]
    obtain j where "j \<le> length (take p es)" "length (bs @ w) \<le> length bs + q \<longrightarrow> j = length (take p es)"
      "recovers c fs'' (meta_of_store st) (fold insert_entry (take j (take p es)) (log st))"
      unfolding xs(2) by blast
    then show ?thesis
      using eff(2,8) q0(2) by (intro exI [of _ j]) (auto simp: min_def split: if_splits)
  qed
  moreover have "log_ok c st' fs'" if "r = Inr ()"
  proof -
    have "log_holds c (bs @ w) (log st')"
      using encode_lines_append [OF xs(1) eff(1)] eff(8) [OF that] xs(2)
      by (auto simp: log_holds_def intro!: exI [of _ "xs @ es"])
    moreover have "durable_as fs' LOG_FILE (Some (bs @ w))"
      using ok(4) eff(3,4,6,8) that bs by (simp add: durable_as_def)
    moreover have "fs_ok fs'" using ok(1) eff(3-5) by (simp add: fs_ok_def)
    ultimately show ?thesis
      unfolding log_ok_def using ok(2,3,4,8) eff(3) eff(8) [OF that] meta
      by (auto simp: meta_of_store_def)
  qed
  ultimately show ?thesis
    using eff(8) by auto
qed

text \<open>In memory both calls make their change first: it stands whether the files follow or not.\<close>

lemma rewrite_log_memory:
  assumes "rewrite_log c fault st fs = (r, st', fs')"
  shows "log st' = log st" and "meta_of_store st' = meta_of_store st"
    and "isl r \<Longrightarrow> log_file st' = log_file st"
  using assms
  by (auto simp: rewrite_log_def meta_of_store_def Let_def
      split: if_splits option.splits prod.splits fault.splits)

lemma truncate_log_memory:
  assumes "truncate_log c fault l st fs = (r, st', fs')"
  shows "log st' = fmfilter (\<lambda>i. i < log_index l) (log st)" and "meta_of_store st' = meta_of_store st"
    and "isl r \<Longrightarrow> log_file st' = log_file st"
  using rewrite_log_memory [OF assms [unfolded truncate_log_def]] by (simp_all add: meta_of_store_def)

lemma purge_log_memory:
  assumes "purge_log c meta_fault fault l st fs = (r, st', fs')"
  shows "log st' = fmfilter (\<lambda>i. log_index l < i) (log st)"
    and "meta_of_store st' = (meta_of_store st)\<lparr>meta_last_purged := Some l\<rparr>"
    and "isl r \<Longrightarrow> log_file st' = log_file st"
proof -
  let ?new = "st\<lparr>last_purged := Some l, log := fmfilter (\<lambda>i. log_index l < i) (log st)\<rparr>"
  have "st' = ?new \<or> (\<exists>fs1. rewrite_log c fault ?new fs1 = (r, st', fs'))"
    using assms by (auto simp: purge_log_def Let_def split: sum.splits prod.splits)
  then have "log st' = log ?new \<and> meta_of_store st' = meta_of_store ?new
      \<and> (isl r \<longrightarrow> log_file st' = log_file ?new)"
    using rewrite_log_memory [of c fault ?new _ r st' fs'] by (elim disjE exE) simp_all
  then show "log st' = fmfilter (\<lambda>i. log_index l < i) (log st)"
    and "meta_of_store st' = (meta_of_store st)\<lparr>meta_last_purged := Some l\<rparr>"
    and "isl r \<Longrightarrow> log_file st' = log_file st"
    by (simp_all add: meta_of_store_def)
qed

text \<open>
  C20.  Truncating the Raft log is atomic across failing calls and crashes, and purging it goes
  through one state in between.  Whichever call fails, and with a crash at any point, reopening finds
  after a truncation the old log or the one without the entries from the given index on; after a purge
  the old files, or the new purge position with the old log, or both new -- never a shortened log with
  the old purge position.  After \<open>Ok\<close> it is the new log.  In memory the log is shortened and the purge
  position moved in every case, also when the call fails and the files still hold the old log; a
  failing call keeps the file handle it had.
\<close>

theorem log_rewrites_atomic:
  assumes "log_codec_ok c" and "log_ok c st fs"
  shows "(truncate_log c fault l st fs = (r, st', fs') \<longrightarrow>
            (crash fs' fs'' \<longrightarrow>
               recovers c fs'' (meta_of_store st) (log st)
               \<or> recovers c fs'' (meta_of_store st) (fmfilter (\<lambda>i. i < log_index l) (log st)))
            \<and> (r = Inr () \<longrightarrow> log_ok c st' fs')
            \<and> log st' = fmfilter (\<lambda>i. i < log_index l) (log st)
            \<and> meta_of_store st' = meta_of_store st
            \<and> (isl r \<longrightarrow> log_file st' = log_file st))
       \<and> (purge_log c meta_fault fault l st fs = (r, st', fs') \<longrightarrow>
            (crash fs' fs'' \<longrightarrow>
               recovers c fs'' (meta_of_store st) (log st)
               \<or> recovers c fs'' ((meta_of_store st)\<lparr>meta_last_purged := Some l\<rparr>) (log st)
               \<or> recovers c fs'' ((meta_of_store st)\<lparr>meta_last_purged := Some l\<rparr>)
                   (fmfilter (\<lambda>i. log_index l < i) (log st)))
            \<and> (r = Inr () \<longrightarrow> log_ok c st' fs')
            \<and> log st' = fmfilter (\<lambda>i. log_index l < i) (log st)
            \<and> meta_of_store st' = (meta_of_store st)\<lparr>meta_last_purged := Some l\<rparr>
            \<and> (isl r \<longrightarrow> log_file st' = log_file st))"
  using truncate_recovers(1) [OF assms, of fault l r st' fs' fs'']
    truncate_recovers(2) [OF assms, of fault l r st' fs']
    purge_recovers(1) [OF assms, of meta_fault fault l r st' fs' fs'']
    purge_recovers(2) [OF assms, of meta_fault fault l r st' fs']
    truncate_log_memory [of c fault l st fs r st' fs']
    purge_log_memory [of c meta_fault fault l st fs r st' fs'] by blast

text \<open>
  C39.  A vote is on disk before it is given.  After \<open>save_vote\<close> has returned \<open>Ok\<close>, reopening after any
  crash finds that vote, with the log and the other positions unchanged; if it failed, reopening
  finds the old vote or the new one.  A node can therefore not forget a vote it granted.
\<close>

theorem vote_survives:
  assumes "log_codec_ok c" and "log_ok c st fs" and "save_vote c fault v st fs = (r, st', fs')"
    and "crash fs' fs''"
  shows "recovers c fs'' ((meta_of_store st)\<lparr>meta_vote := Some v\<rparr>) (log st)
       \<or> r \<noteq> Inr () \<and> recovers c fs'' (meta_of_store st) (log st)"
proof -
  let ?new = "st\<lparr>saved_vote := Some v\<rparr>"
  have p: "persist_meta c fault ?new fs = (r, fs')"
    using assms(3) by (auto simp: save_vote_def Let_def split: prod.splits)
  have dir: "has_dir ?new" using assms(2) by (simp add: log_ok_def)
  have meta: "meta_of_store ?new = (meta_of_store st)\<lparr>meta_vote := Some v\<rparr>"
    by (simp add: meta_of_store_def)
  show ?thesis
  proof (cases "r = Inr ()")
    case True
    then show ?thesis
      using log_ok_crash [OF assms(1) persist_meta_recovers(2) [OF assms(1,2) dir p] assms(4)] meta
      by (simp add: meta_of_store_def)
  next
    case False
    then show ?thesis
      using persist_meta_recovers(1) [OF assms(1,2) dir p assms(4)] meta by auto
  qed
qed

section \<open>Witnesses\<close>

definition blank_entry :: "u64 \<Rightarrow> entry" where
  "blank_entry i =
     \<lparr>entry_log_id = \<lparr>leader_round = 1, leader_node = 1, log_index = i\<rparr>, payload = Blank\<rparr>"

definition example_vote :: vote where
  "example_vote = \<lparr>vote_round = 2, vote_node = 1, vote_committed = False\<rparr>"

text \<open>A codec that serializes two entries and two sets of meta data, and refuses everything else.\<close>

definition example_log_codec :: log_codec where
  "example_log_codec =
     \<lparr>entry_json = (\<lambda>e. if e = blank_entry 1 then Inr [1] else if e = blank_entry 2 then Inr [2] else Inl ''bad''),
      entry_parse = (\<lambda>bs. if bs = [1, NEWLINE] then Inr (blank_entry 1)
                          else if bs = [2, NEWLINE] then Inr (blank_entry 2) else Inl ''bad''),
      meta_json = (\<lambda>m. if m = default_meta then Inr [1]
                       else if m = default_meta\<lparr>meta_vote := Some example_vote\<rparr> then Inr [2]
                       else if m = default_meta\<lparr>meta_last_purged := Some (entry_log_id (blank_entry 1))\<rparr>
                         then Inr [3] else Inl ''bad''),
      meta_parse = (\<lambda>bs. if bs = [1] then Inr default_meta
                         else if bs = [2] then Inr (default_meta\<lparr>meta_vote := Some example_vote\<rparr>)
                         else if bs = [3]
                           then Inr (default_meta\<lparr>meta_last_purged := Some (entry_log_id (blank_entry 1))\<rparr>)
                         else Inl ''bad'')\<rparr>"

lemma example_log_codec_ok: "log_codec_ok example_log_codec"
  by (simp add: log_codec_ok_def example_log_codec_def NEWLINE_def)

definition example_log_fs :: file_system where
  "example_log_fs =
     \<lparr>dir = fmupd LOG_FILE 0 fmempty, disk_dir = fmupd LOG_FILE 0 fmempty,
      contents = (\<lambda>_. [1, NEWLINE]), disk_contents = (\<lambda>_. [1, NEWLINE]), next_inode = 1\<rparr>"

definition example_log_store :: log_store where
  "example_log_store = \<lparr>log = fmupd 1 (blank_entry 1) fmempty, last_purged = None, saved_vote = None,
     committed_id = None, log_file = Some 0, has_dir = True\<rparr>"

lemma example_log_ok: "log_ok example_log_codec example_log_store example_log_fs"
proof -
  have "log_holds example_log_codec [1, NEWLINE] (log example_log_store)"
    unfolding log_holds_def
    by (rule exI [of _ "[blank_entry 1]"])
      (simp add: example_log_codec_def example_log_store_def insert_entry_def blank_entry_def)
  moreover have "durable_as example_log_fs LOG_FILE (Some [1, NEWLINE])"
    "durable_as example_log_fs META_FILE None" "fs_ok example_log_fs"
    by (auto simp: durable_as_def example_log_fs_def fs_ok_def split: if_splits)
  moreover have "meta_holds example_log_codec None (meta_of_store example_log_store)"
    by (simp add: meta_holds_def meta_of_store_def example_log_store_def default_meta_def)
  ultimately show ?thesis
    unfolding log_ok_def by (force simp: example_log_store_def example_log_fs_def)
qed

text \<open>A file system with nothing pending may crash without a change.\<close>

lemma crash_refl: "disk_dir fs = dir fs \<Longrightarrow> disk_contents fs = contents fs \<Longrightarrow> fs_ok fs \<Longrightarrow> crash fs fs"
  by (simp add: crash_def)

definition appended_fs :: file_system where
  "appended_fs = snd (snd (append_log example_log_codec NoFault [blank_entry 2] example_log_store
     example_log_fs))"

lemmas example_defs =
  appended_fs_def example_log_fs_def example_log_store_def example_log_codec_def blank_entry_def
  default_meta_def meta_of_store_def example_vote_def

theorem append_recovers_witness:
  "recovers example_log_codec appended_fs default_meta
     (fmupd 2 (blank_entry 2) (fmupd 1 (blank_entry 1) fmempty))"
proof -
  let ?result = "append_log example_log_codec NoFault [blank_entry 2] example_log_store example_log_fs"
  have run: "fst ?result = Inr ()" "contents appended_fs = (\<lambda>i. if i = 0 then [1, NEWLINE, 2, NEWLINE] else [1, NEWLINE])"
    "disk_contents appended_fs = contents appended_fs" "disk_dir appended_fs = dir appended_fs"
    by (auto simp: example_defs append_durable_def sync_log_def write_append_def sync_file_def)
  have "fs_ok appended_fs"
    by (simp add: example_defs append_durable_def sync_log_def) (simp add: fs_ok_def)
  then have crash: "crash appended_fs appended_fs"
    using run by (simp add: crash_refl)
  have "?result = (Inr (), fst (snd ?result), appended_fs)"
    using run(1) by (simp add: appended_fs_def prod_eq_iff)
  from append_recovers [OF example_log_codec_ok example_log_ok this] crash
  have "recovers example_log_codec appended_fs (meta_of_store example_log_store)
      (fold insert_entry [blank_entry 2] (log example_log_store))"
    by auto
  then show ?thesis
    by (simp add: insert_entry_def example_defs)
qed

text \<open>Purging the first entry, with the directory entry of the rewritten log not yet synced.\<close>

definition purge_run :: "(string + unit) \<times> log_store \<times> file_system" where
  "purge_run = purge_log example_log_codec NoFault NoFault (entry_log_id (blank_entry 1))
     example_log_store example_log_fs"

lemma btree_entries_empty [simp]: "btree_entries fmempty = []"
  by (simp add: btree_entries_def sorted_list_of_fset.rep_eq)

lemma purge_all: "fmfilter (\<lambda>i. log_index (entry_log_id (blank_entry 1)) < i) (log example_log_store) = fmempty"
  by (rule fmap_ext) (simp add: example_log_store_def blank_entry_def)

lemma purge_run_result: "fst purge_run = Inr ()"
  unfolding purge_run_def purge_log_def purge_all
  by (simp add: example_defs persist_meta_def replace_def rewrite_log_def Let_def split_def)

theorem log_rewrites_atomic_witness:
  "log_ok example_log_codec (fst (snd purge_run)) (snd (snd purge_run))
   \<and> log (fst (snd purge_run)) = fmempty \<and> last_purged (fst (snd purge_run)) = Some (entry_log_id (blank_entry 1))"
proof -
  have "purge_log example_log_codec NoFault NoFault (entry_log_id (blank_entry 1)) example_log_store
      example_log_fs = (Inr (), fst (snd purge_run), snd (snd purge_run))"
    using purge_run_result by (simp add: purge_run_def prod_eq_iff)
  then have "log_ok example_log_codec (fst (snd purge_run)) (snd (snd purge_run))
      \<and> log (fst (snd purge_run)) = fmempty
      \<and> meta_of_store (fst (snd purge_run))
        = (meta_of_store example_log_store)\<lparr>meta_last_purged := Some (entry_log_id (blank_entry 1))\<rparr>"
    using log_rewrites_atomic [OF example_log_codec_ok example_log_ok] unfolding purge_all [symmetric] by blast
  then show ?thesis
    by (simp add: meta_of_store_def)
qed

definition voted_fs :: file_system where
  "voted_fs = snd (snd (save_vote example_log_codec NoFault example_vote example_log_store example_log_fs))"

theorem vote_survives_witness:
  "recovers example_log_codec voted_fs (default_meta\<lparr>meta_vote := Some example_vote\<rparr>)
     (fmupd 1 (blank_entry 1) fmempty)"
proof -
  let ?result = "save_vote example_log_codec NoFault example_vote example_log_store example_log_fs"
  have run: "?result = (Inr (), fst (snd ?result), voted_fs)"
    by (simp add: voted_fs_def save_vote_def persist_meta_def replace_def example_defs Let_def)
  have upto: "voted_fs = publish_upto 5 0 (pending_name META_FILE) META_FILE [2] example_log_fs"
    by (simp add: voted_fs_def save_vote_def persist_meta_def replace_def replace_upto_def example_defs Let_def)
  have settled: "disk_contents voted_fs = contents voted_fs" "disk_dir voted_fs = dir voted_fs"
    unfolding upto
    by (simp_all add: publish_upto_def open_truncate_def write_append_def sync_file_def rename_file_def
        sync_directory_def example_log_fs_def)
  have "fs_ok voted_fs"
    using example_log_ok publish_fs_ok by (simp add: upto log_ok_def)
  from vote_survives [OF example_log_codec_ok example_log_ok run crash_refl [OF settled(2,1) this]]
  show ?thesis
    by (simp add: example_defs)
qed

end
