(* ===== verification/Lease_Lifecycle.thy ===== *)
theory Lease_Lifecycle
  imports Metadata_Invariant
begin

text \<open>
  Leases over time: the phases refine the specification \<open>phase_step\<close>, terminal phases are final,
  commits are compare-and-swap on the revision of the bound key, and the status counters add up.
\<close>

section \<open>Phases under one request\<close>

declare stay [simp, intro]

text \<open>The phase of a lease depends on its own entries and the clock only.\<close>

lemma phase_cong:
  assumes "fmlookup (records L') i = fmlookup (records L) i"
    "fmlookup (cancelled L') i = fmlookup (cancelled L) i"
    "fmlookup (expired L') i = fmlookup (expired L) i"
    "fmlookup (deadlines L') i = fmlookup (deadlines L) i" "clock L' = clock L"
  shows "phase L' i = phase L i"
  unfolding phase_def is_expired_def assms by (simp only:)

lemma phase_activate [simp]: "phase (leases (activate s)) i = phase (leases s) i"
  by (rule phase_cong) simp_all

lemma phase_bump [simp]: "phase (bump_revision k L) i = phase L i"
  by (rule phase_cong) simp_all

lemma phase_iff:
  "phase L i = Absent \<longleftrightarrow> fmlookup (records L) i = None"
  "phase L i = Committed \<longleftrightarrow> (\<exists>l. fmlookup (records L) i = Some l \<and> committed l \<noteq> None)"
  "phase L i = Cancelled \<longleftrightarrow>
     (\<exists>l. fmlookup (records L) i = Some l \<and> committed l = None) \<and> fmlookup (cancelled L) i \<noteq> None"
  "phase L i = Expired \<longleftrightarrow> is_expired L i"
  "phase L i = Pending \<longleftrightarrow>
     (\<exists>l. fmlookup (records L) i = Some l \<and> committed l = None) \<and> fmlookup (cancelled L) i = None
     \<and> \<not> is_expired L i"
  by (auto simp: phase_def is_expired_def split: option.splits)

lemma phase_reserve:
  assumes "state_inv bk s" and "reserve s i a bs = (s', r)"
  shows "phase_step (phase (leases s) j) (phase (leases s') j)"
  using assms(2)
proof (cases rule: reserve_cases)
  case reserved
  have "fmlookup (cancelled (leases s)) i = None" and "fmlookup (expired (leases s)) i = None"
    using absent_unmarked [OF assms(1)] reserved by blast+
  moreover have "fmlookup (deadlines (leases s)) i = None"
    using state_inv_maps(1) [OF assms(1)] reserved by (fastforce simp: validate_expand)
  ultimately have "phase (leases s) i = Absent \<and> phase (leases s') i = Pending"
    using reserved by (simp add: phase_iff is_expired_iff)
  moreover have "i \<noteq> j \<Longrightarrow> phase (leases s') j = phase (leases s) j"
    using reserved by (intro phase_cong) simp_all
  ultimately show ?thesis
    by (cases "i = j") auto
qed simp_all

lemma phase_cancel:
  assumes "cancel s i a = (s', r)"
  shows "phase_step (phase (leases s) j) (phase (leases s') j)"
  using assms
proof (cases rule: cancel_cases)
  case (cancelled l)
  then have "phase (leases s) i \<in> {Pending, Cancelled} \<and> phase (leases s') i = Cancelled"
    by (auto simp: phase_iff fmlookup_or_insert)
  moreover have "i \<noteq> j \<Longrightarrow> phase (leases s') j = phase (leases s) j"
    using cancelled by (intro phase_cong) (simp_all add: fmlookup_or_insert)
  ultimately show ?thesis
    by (cases "i = j") auto
qed simp_all

lemma phase_expire:
  assumes "expire s i g t = (s', r)"
  shows "phase (leases s') j = phase (leases s) j"
  using assms
proof (cases rule: expire_cases)
  case (expired d)
  then have "phase (leases s) i = Expired \<and> phase (leases s') i = Expired"
    by (auto simp: phase_iff is_expired_iff fmlookup_or_insert)
  moreover have "i \<noteq> j \<Longrightarrow> phase (leases s') j = phase (leases s) j"
    using expired by (intro phase_cong) (simp_all add: fmlookup_or_insert)
  ultimately show ?thesis
    by (cases "i = j") auto
qed simp

lemma phase_renew:
  assumes "renew s i a e ttl = (s', r)"
  shows "phase (leases s') j = phase (leases s) j"
  using assms
proof (cases rule: renew_cases)
  case (renewed l t)
  have "unat t = unat (clock (leases s)) + unat ttl"
    using renewed checked_add_SomeD by blast
  moreover have "0 < unat ttl"
    using renewed(7) by (simp add: word_le_nat_alt)
  ultimately have "\<not> t \<le> clock (leases s)"
    by (simp add: word_le_nat_alt)
  with renewed have "phase (leases s) i = Pending \<and> phase (leases s') i = Pending"
    by (auto simp: phase_iff is_expired_iff)
  moreover have "i \<noteq> j \<Longrightarrow> phase (leases s') j = phase (leases s) j"
    using renewed by (intro phase_cong) simp_all
  ultimately show ?thesis
    by (cases "i = j") auto
qed simp_all

lemma phase_advance:
  assumes "advance s e = (s', r)"
  shows "phase_step (phase (leases s) j) (phase (leases s') j)"
  using assms
proof (cases rule: advance_cases)
  case (advanced n)
  have "clock (leases s) \<le> n"
    using advanced checked_add_le(1) by blast
  then have "is_expired (leases s) j \<Longrightarrow> is_expired (leases s') j"
    using advanced by (auto simp: is_expired_iff)
  with advanced show ?thesis
    by (auto simp: phase_def split: option.splits)
qed simp

lemma phase_commit:
  assumes "validate_commit bk s i a b e = Inr True"
  shows "phase_step (phase (leases s) j)
           (phase (leases (fst (apply_unfenced bk s (CommitUploadLease i a b e)))) j)"
proof -
  obtain l where l: "fmlookup (records (leases s)) i = Some l" "committed l = None"
    "fmlookup (cancelled (leases s)) i = None" "\<not> is_expired (leases s) i"
    using assms by (rule validate_commit_True)
  let ?L = "bump_revision (bk (cb_key b)) (leases s)"
  let ?l = "l\<lparr>committed := Some \<lparr>commit_binding = b, commit_revision = e\<rparr>\<rparr>"
  let ?L' = "?L\<lparr>records := fmupd i ?l (records (leases s))\<rparr>"
  have "phase (leases s) i = Pending \<and> phase ?L' i = Committed"
    using l by (simp add: phase_iff)
  moreover have "i \<noteq> j \<Longrightarrow> phase ?L' j = phase (leases s) j"
    by (intro phase_cong) simp_all
  ultimately have "phase_step (phase (leases s) j) (phase ?L' j)"
    by (cases "i = j") auto
  then show ?thesis
    using assms l(1) by (simp add: Let_def)
qed

lemma leases_bind_many:
  "\<exists>rv. leases (bind_many bk s a bs) = (leases s)\<lparr>revisions := rv\<rparr>"
proof (induction bk s a bs rule: bind_many.induct)
  case (2 bk s a b bs)
  then show ?case
    by (auto simp: bump_revision_def split: if_splits)
qed (metis bind_many.simps(1) lease_state.surjective lease_state.update_convs(3))

lemma phase_unfenced:
  assumes "state_inv bk s"
  shows "phase_step (phase (leases s) j) (phase (leases (fst (apply_unfenced bk s req))) j)"
proof (cases req)
  case (BindChain a bs)
  obtain rv where "leases (bind_many bk s a bs) = (leases s)\<lparr>revisions := rv\<rparr>"
    using leases_bind_many by blast
  then have "phase (leases (bind_many bk s a bs)) j = phase (leases s) j"
    by (intro phase_cong) simp_all
  with BindChain show ?thesis by (simp add: stay)
next
  case (CommitUploadLease i a b e)
  then show ?thesis
    using phase_commit [of bk s i a b e j]
    by (cases "validate_commit bk s i a b e") (auto simp: stay split: bool.splits)
next
  case (BeginUploadLease i a bs)
  with phase_reserve [OF assms, of i a bs _ _ j] show ?thesis by (simp add: prod_eq_iff)
next
  case (CancelUploadLease i a)
  with phase_cancel [of s i a _ _ j] show ?thesis by (simp add: prod_eq_iff)
next
  case (RenewUploadLease i a e t)
  with phase_renew [of s i a e t _ _ j] show ?thesis by (simp add: prod_eq_iff stay)
next
  case (AdvanceLeaseClock e)
  with phase_advance [of s e _ _ j] show ?thesis by (simp add: prod_eq_iff)
next
  case (ExpireUploadLease i g t)
  with phase_expire [of s i g t _ _ j] show ?thesis by (simp add: prod_eq_iff stay)
qed (auto simp: Let_def stay)


section \<open>Entries and runs\<close>

lemma apply_one_cases:
  assumes "apply_one bk s req = (s', r)"
  obtains (full) "s' = s" and "is_rejected r"
  | (rejected) "apply_unfenced bk s req = (s', r)" and "is_rejected r"
  | (accepted) u where "apply_unfenced bk s req = (u, r)" and "\<not> is_rejected r"
      and "s' = u\<lparr>block_fences := fold (\<lambda>i. fmupd i (applied_index s)) (touched bk s req) (block_fences s)\<rparr>"
proof -
  obtain u q where u: "apply_unfenced bk s req = (u, q)" by fastforce
  then have "applied_index u = applied_index s" and "block_fences u = block_fences s"
    using unfenced_applied_index [of bk s req] unfenced_frame(2) [of bk s req] by simp_all
  with u assms full rejected accepted show ?thesis
    by (auto simp: apply_one_def Let_def split: if_splits)
qed

lemma apply_one_leases:
  "leases (fst (apply_one bk s req)) = leases s
   \<or> leases (fst (apply_one bk s req)) = leases (fst (apply_unfenced bk s req))"
  by (cases "apply_one bk s req", cases "apply_unfenced bk s req") (auto elim: apply_one_cases)

text \<open>What never changes of a lease: its owner, its blocks, its position, and a commit once made.\<close>

definition record_kept :: "upload_lease \<Rightarrow> upload_lease \<Rightarrow> bool" where
  "record_kept l l' \<longleftrightarrow>
     lease_agent l' = lease_agent l \<and> lease_blocks l' = lease_blocks l \<and> created_at l' = created_at l
     \<and> (committed l \<noteq> None \<longrightarrow> committed l' = committed l)"

definition leases_evolve :: "lease_state \<Rightarrow> lease_state \<Rightarrow> bool" where
  "leases_evolve L L' \<longleftrightarrow>
     (\<forall>i. phase_step\<^sup>*\<^sup>* (phase L i) (phase L' i))
     \<and> (\<forall>i l. fmlookup (records L) i = Some l \<longrightarrow>
          (\<exists>l'. fmlookup (records L') i = Some l' \<and> record_kept l l'))"

lemma record_kept_refl [simp]: "record_kept l l"
  by (simp add: record_kept_def)

lemma records_kept_unfenced:
  assumes "fmlookup (records (leases s)) i = Some l"
  shows "\<exists>l'. fmlookup (records (leases (fst (apply_unfenced bk s req)))) i = Some l' \<and> record_kept l l'"
proof (cases req)
  case (BeginUploadLease j a bs)
  have "fmlookup (records (leases s')) i = Some l" if "reserve s j a bs = (s', r)" for s' r
    using that assms by (cases rule: reserve_cases) auto
  with BeginUploadLease show ?thesis by (simp add: prod_eq_iff)
next
  case (RenewUploadLease j a e t)
  have "fmlookup (records (leases s')) i = Some l" if "renew s j a e t = (s', r)" for s' r
    using that assms by (cases rule: renew_cases) auto
  with RenewUploadLease show ?thesis by (simp add: prod_eq_iff)
next
  case (BindChain a bs)
  obtain rv where "leases (bind_many bk s a bs) = (leases s)\<lparr>revisions := rv\<rparr>"
    using leases_bind_many by blast
  with BindChain assms show ?thesis by simp
next
  case (CommitUploadLease j a b e)
  show ?thesis
  proof (cases "validate_commit bk s j a b e")
    case (Inr ok)
    then show ?thesis
      using CommitUploadLease assms
      by (cases ok) (auto simp: Let_def record_kept_def elim!: validate_commit_True)
  qed (use CommitUploadLease assms in simp)
qed (use assms in \<open>auto simp: Let_def cancel_def advance_def expire_def split: option.splits\<close>)

interpretation lifecycle: apply_preorder bk "state_inv bk" in_order
  "\<lambda>s t. leases_evolve (leases s) (leases t)"
proof
  show "leases_evolve (leases s) (leases s)" for s
    by (auto simp: leases_evolve_def)
  show "leases_evolve (leases s) (leases u)"
    if "leases_evolve (leases s) (leases t)" "leases_evolve (leases t) (leases u)" for s t u
    using that unfolding leases_evolve_def record_kept_def by (meson rtranclp_trans) fastforce
  fix s e
  assume inv: "state_inv bk s" and "in_order s e"
  let ?s = "s\<lparr>last_applied := Some (entry_log_id e)\<rparr>"
  have inv': "state_inv bk ?s"
    using state_inv_applied [OF inv] \<open>in_order s e\<close> by (simp add: in_order_def)
  have "leases_evolve (leases ?s) (leases (fst (apply_unfenced bk ?s req)))" for req
    using phase_unfenced [OF inv', of _ req] records_kept_unfenced [of ?s _ _ bk req]
    by (auto simp: leases_evolve_def)
  then have "leases_evolve (leases ?s) (leases (fst (apply_one bk ?s req)))" for req
    using apply_one_leases [of bk ?s req] by (auto simp: leases_evolve_def)
  then show "leases_evolve (leases s) (leases (fst (apply_entry bk s e)))"
    by (auto simp: apply_entry_def Let_def leases_evolve_def split: entry_payload.split)
qed


section \<open>Refusals\<close>

text \<open>A refused request leaves the state as it was; activation only happens with the first lease.\<close>

lemma unfenced_rejected:
  assumes "state_inv bk s" and "apply_unfenced bk s req = (s', r)" and "is_rejected r"
  shows "s' = s"
proof (cases req)
  case (BeginUploadLease i a bs)
  with assms(2) have "reserve s i a bs = (s', r)" by simp
  then show ?thesis
  proof (cases rule: reserve_cases)
    case (known l)
    then have "initialized (leases s)"
      using uninitialized_empty(1) [OF assms(1)] by force
    with known show ?thesis by (simp add: activate_def)
  next
    case full
    then have "records (leases s) \<noteq> fmempty"
      by (auto simp: reserved_blocks_def lease_limits)
    then have "initialized (leases s)"
      using uninitialized_empty(1) [OF assms(1)] by blast
    with full show ?thesis by (simp add: activate_def)
  qed (use assms(3) in auto)
next
  case (RenewUploadLease i a e t)
  with assms(2) have "renew s i a e t = (s', r)" by simp
  then show ?thesis
    using assms(3) by (cases rule: renew_cases) auto
next
  case (CommitUploadLease i a b e)
  with assms(2,3) show ?thesis
    by (auto simp: Let_def split: sum.splits bool.splits)
qed (use assms(2,3) in \<open>auto simp: Let_def cancel_def advance_def expire_def
      split: option.splits if_splits\<close>)

lemma apply_one_rejected:
  assumes "state_inv bk s" and "apply_one bk s req = (s', r)" and "is_rejected r"
  shows "s' = s"
  using assms(2)
  by (cases rule: apply_one_cases) (use assms unfenced_rejected in auto)

section \<open>Revisions\<close>

lemma current_revision_bump:
  "current_revision (bump_revision k L) j =
     (if initialized L \<and> k = j then saturating_add (current_revision L j) 1 else current_revision L j)"
  by (simp add: current_revision_def [of "bump_revision k L"] bump_revision_lookup)
    (simp add: current_revision_def)

lemma current_revision_bump_ge: "current_revision L j \<le> current_revision (bump_revision k L) j"
  by (simp add: current_revision_bump saturating_add_ge)

lemma current_revision_bind_many:
  "current_revision (leases s) j \<le> current_revision (leases (bind_many bk s a bs)) j"
  by (induction bk s a bs rule: bind_many.induct)
    (auto intro: order_trans [OF current_revision_bump_ge])

lemma current_revision_unfenced:
  assumes "state_inv bk s"
  shows "current_revision (leases s) k \<le> current_revision (leases (fst (apply_unfenced bk s req))) k"
proof (cases req)
  case (BeginUploadLease i a bs)
  have "revisions (leases s') = revisions (leases s)" if "reserve s i a bs = (s', r)" for s' r
    using that uninitialized_empty(2) [OF assms] by (cases rule: reserve_cases) auto
  with BeginUploadLease show ?thesis
    by (simp add: prod_eq_iff current_revision_def)
next
  case (RenewUploadLease i a e t)
  have "revisions (leases s') = revisions (leases s)" if "renew s i a e t = (s', r)" for s' r
    using that by (cases rule: renew_cases) auto
  with RenewUploadLease show ?thesis
    by (simp add: prod_eq_iff current_revision_def)
next
  case (CommitUploadLease i a b e)
  have "current_revision (leases s) k \<le> current_revision (bump_revision (bk (cb_key b)) (leases s)) k"
    by (rule current_revision_bump_ge)
  with CommitUploadLease show ?thesis
    by (auto simp: Let_def current_revision_def split: sum.split bool.split)
next
  case (BindChain a bs)
  then show ?thesis
    by (simp add: current_revision_bind_many)
next
  case (BindPrefix a j bs p)
  then show ?thesis
    by (simp add: current_revision_bump_ge)
qed (auto simp: Let_def cancel_def advance_def expire_def current_revision_def split: option.splits)

interpretation revisions: apply_preorder bk "state_inv bk" in_order
  "\<lambda>s t. \<forall>k. current_revision (leases s) k \<le> current_revision (leases t) k"
proof
  fix s e
  assume inv: "state_inv bk s" and "in_order s e"
  let ?s = "s\<lparr>last_applied := Some (entry_log_id e)\<rparr>"
  have "state_inv bk ?s"
    using state_inv_applied [OF inv] \<open>in_order s e\<close> by (simp add: in_order_def)
  then have "current_revision (leases ?s) k \<le> current_revision (leases (fst (apply_one bk ?s req))) k" for k req
    using apply_one_leases [of bk ?s req] current_revision_unfenced [of bk ?s k req] by auto
  then show "\<forall>k. current_revision (leases s) k \<le> current_revision (leases (fst (apply_entry bk s e))) k"
    by (simp add: apply_entry_def Let_def split: entry_payload.split)
qed (auto intro: order_trans)


section \<open>Commits\<close>

lemma commit_accepted:
  assumes "validate_commit bk s i a b e = Inr True"
  shows "apply_unfenced bk s (CommitUploadLease i a b e) =
    ((bind_one bk s a (cb_key b) (cb_blocks b) (cb_parent b))\<lparr>leases :=
        (bump_revision (bk (cb_key b)) (leases s))\<lparr>records := fmupd i
          ((the (fmlookup (records (leases s)) i))\<lparr>committed :=
             Some \<lparr>commit_binding = b, commit_revision = e\<rparr>\<rparr>) (records (leases s))\<rparr>\<rparr>, Bound)"
  using assms by (simp add: Let_def)

lemma commit_revision:
  assumes "state_inv bk s" and ok: "validate_commit bk s i a b e = Inr True"
  shows "current_revision (leases (fst (apply_unfenced bk s (CommitUploadLease i a b e)))) (bk (cb_key b))
       = e + 1" and "e < e + 1"
proof -
  obtain l where l: "fmlookup (records (leases s)) i = Some l"
    "current_revision (leases s) (bk (cb_key b)) = e" "e \<noteq> - 1"
    using ok by (rule validate_commit_True)
  then have "initialized (leases s)"
    using uninitialized_empty(1) [OF assms(1)] by force
  then have "current_revision (bump_revision (bk (cb_key b)) (leases s)) (bk (cb_key b)) = e + 1"
    using l by (simp add: current_revision_bump saturating_add_1)
  then show "current_revision (leases (fst (apply_unfenced bk s (CommitUploadLease i a b e))))
      (bk (cb_key b)) = e + 1"
    using ok by (simp add: commit_accepted current_revision_def)
  show "e < e + 1"
    using l(3) by (rule word_Suc_unat)
qed

lemma commit_pending_bound:
  assumes "apply_one bk s (CommitUploadLease i a b e) = (s', Bound)" and "phase (leases s) i = Pending"
  shows "validate_commit bk s i a b e = Inr True"
proof -
  have "\<exists>u. apply_unfenced bk s (CommitUploadLease i a b e) = (u, Bound)"
    using assms(1) by (cases rule: apply_one_cases) auto
  moreover have "validate_commit bk s i a b e \<noteq> Inr False"
    using assms(2)
    by (auto simp: phase_iff validate_commit_def Let_def split: if_splits option.splits)
  ultimately show ?thesis
    by (auto simp: Let_def split: sum.splits bool.splits)
qed

text \<open>A commit at a revision the key has left is refused, or repeats what its lease has recorded.\<close>

lemma commit_stale:
  assumes "e < current_revision (leases s) (bk (cb_key b))"
  shows "is_rejected (snd (apply_one bk s (CommitUploadLease j a b e)))
    \<or> (\<exists>l c. fmlookup (records (leases s)) j = Some l \<and> lease_agent l = a \<and> committed l = Some c
         \<and> c = \<lparr>commit_binding = b, commit_revision = e\<rparr>
         \<and> (\<exists>fences. apply_one bk s (CommitUploadLease j a b e) = (s\<lparr>block_fences := fences\<rparr>, Bound)))"
proof -
  have "validate_commit bk s j a b e \<noteq> Inr True"
    using assms by (auto elim!: validate_commit_True)
  then consider (refused) m where "validate_commit bk s j a b e = Inl m"
    | (again) "validate_commit bk s j a b e = Inr False"
    by (metis (full_types) sum.exhaust)
  then show ?thesis
  proof cases
    case refused
    have "is_rejected r" if "apply_one bk s (CommitUploadLease j a b e) = (s', r)" for s' r
      using that by (cases rule: apply_one_cases) (use refused in auto)
    then show ?thesis
      by (cases "apply_one bk s (CommitUploadLease j a b e)") auto
  next
    case again
    then obtain l c where "fmlookup (records (leases s)) j = Some l" "lease_agent l = a"
      "committed l = Some c" "c = \<lparr>commit_binding = b, commit_revision = e\<rparr>"
      by (fastforce simp: validate_commit_def Let_def split: if_splits option.splits)
    moreover have "is_rejected r \<or> (\<exists>fences. s' = s\<lparr>block_fences := fences\<rparr> \<and> r = Bound)"
      if "apply_one bk s (CommitUploadLease j a b e) = (s', r)" for s' r
      using that by (cases rule: apply_one_cases) (use again in auto)
    ultimately show ?thesis
      by (cases "apply_one bk s (CommitUploadLease j a b e)") auto
  qed
qed

section \<open>One commit per revision\<close>

text \<open>No two leases have been committed for one key at one revision.\<close>

definition commits_unique :: "(cache_key \<Rightarrow> string) \<Rightarrow> lease_state \<Rightarrow> bool" where
  "commits_unique bk L \<longleftrightarrow>
     (\<forall>i j l m c d. fmlookup (records L) i = Some l \<and> committed l = Some c
        \<and> fmlookup (records L) j = Some m \<and> committed m = Some d
        \<and> bk (cb_key (commit_binding c)) = bk (cb_key (commit_binding d))
        \<and> commit_revision c = commit_revision d \<longrightarrow> i = j)"

lemma commits_uniqueD:
  assumes "commits_unique bk L" and "fmlookup (records L) i = Some l" and "committed l = Some c"
    and "fmlookup (records L) j = Some m" and "committed m = Some d"
    and "bk (cb_key (commit_binding c)) = bk (cb_key (commit_binding d))"
    and "commit_revision c = commit_revision d"
  shows "i = j"
  using assms unfolding commits_unique_def by blast

lemma committed_below:
  assumes "state_inv bk s" and "fmlookup (records (leases s)) i = Some l" and "committed l = Some c"
  shows "commit_revision c < current_revision (leases s) (bk (cb_key (commit_binding c)))"
  using assms by (fastforce simp: state_inv_def commits_ok_def current_revision_def)

text \<open>Where the commits of the next state come from.\<close>

lemma committed_unfenced:
  assumes "fmlookup (records (leases (fst (apply_unfenced bk s req)))) i = Some l" and "committed l = Some c"
  shows "(\<exists>l0. fmlookup (records (leases s)) i = Some l0 \<and> committed l0 = Some c)
    \<or> (\<exists>a b e. req = CommitUploadLease i a b e \<and> validate_commit bk s i a b e = Inr True
         \<and> c = \<lparr>commit_binding = b, commit_revision = e\<rparr>)"
proof (cases req)
  case (BeginUploadLease j a bs)
  have "fmlookup (records (leases s)) i = Some l" if "reserve s j a bs = (s', r)"
    and "fmlookup (records (leases s')) i = Some l" for s' r
    using that assms(2) by (cases rule: reserve_cases) (auto split: if_splits)
  with BeginUploadLease assms show ?thesis by (cases "reserve s j a bs") auto
next
  case (RenewUploadLease j a e t)
  have "records (leases s') = records (leases s)" if "renew s j a e t = (s', r)" for s' r
    using that by (cases rule: renew_cases) auto
  with RenewUploadLease assms show ?thesis by (cases "renew s j a e t") auto
next
  case (BindChain a bs)
  obtain rv where "leases (bind_many bk s a bs) = (leases s)\<lparr>revisions := rv\<rparr>"
    using leases_bind_many by blast
  with BindChain assms show ?thesis by simp
next
  case (CommitUploadLease j a b e)
  show ?thesis
  proof (cases "validate_commit bk s j a b e")
    case (Inr ok)
    then show ?thesis
      using CommitUploadLease assms by (cases ok) (auto simp: commit_accepted split: if_splits)
  qed (use CommitUploadLease assms in simp)
qed (use assms in \<open>auto simp: Let_def cancel_def advance_def expire_def split: option.splits if_splits\<close>)

lemma commits_unique_unfenced:
  assumes inv: "state_inv bk s" and uniq: "commits_unique bk (leases s)"
  shows "commits_unique bk (leases (fst (apply_unfenced bk s req)))"
proof -
  have fresh: "commit_revision c \<noteq> e"
    if "validate_commit bk s i a b e = Inr True" "fmlookup (records (leases s)) j = Some l"
      "committed l = Some c" "bk (cb_key (commit_binding c)) = bk (cb_key b)" for i a b e j l c
    using that committed_below [OF inv that(2,3)] by (auto elim!: validate_commit_True)
  have "i = j"
    if now: "fmlookup (records (leases (fst (apply_unfenced bk s req)))) i = Some l" "committed l = Some c"
      "fmlookup (records (leases (fst (apply_unfenced bk s req)))) j = Some m" "committed m = Some d"
      and eq: "bk (cb_key (commit_binding c)) = bk (cb_key (commit_binding d))"
        "commit_revision c = commit_revision d" for i j l m c d
    using committed_unfenced [OF now(1,2)] committed_unfenced [OF now(3,4)]
  proof (elim disjE exE conjE)
    fix l0 m0
    assume "fmlookup (records (leases s)) i = Some l0" "committed l0 = Some c"
      "fmlookup (records (leases s)) j = Some m0" "committed m0 = Some d"
    then show "i = j"
      using commits_uniqueD [OF uniq] eq by blast
  qed (use fresh eq in force)+
  then show ?thesis
    unfolding commits_unique_def by blast
qed

interpretation commits: apply_invariant bk "\<lambda>s. state_inv bk s \<and> commits_unique bk (leases s)" in_order
proof
  fix s e
  assume inv: "state_inv bk s \<and> commits_unique bk (leases s)" and ord: "in_order s e"
  let ?s = "s\<lparr>last_applied := Some (entry_log_id e)\<rparr>"
  have "state_inv bk ?s"
    using state_inv_applied inv ord by (simp add: in_order_def)
  then have "commits_unique bk (leases (fst (apply_one bk ?s req)))" for req
    using apply_one_leases [of bk ?s req] commits_unique_unfenced [of bk ?s req] inv by auto
  then have "commits_unique bk (leases (fst (apply_entry bk s e)))"
    using inv by (auto simp: apply_entry_def Let_def split: entry_payload.split)
  with metadata.entry_step inv ord
  show "state_inv bk (fst (apply_entry bk s e)) \<and> commits_unique bk (leases (fst (apply_entry bk s e)))"
    by blast
qed

lemma commits_unique_default: "commits_unique bk (leases default_state)"
  by (simp add: commits_unique_def default_state_def default_leases_def)

section \<open>A concrete run\<close>

definition entry_at :: "u64 \<Rightarrow> request \<Rightarrow> entry" where
  "entry_at n req =
     \<lparr>entry_log_id = \<lparr>leader_round = 1, leader_node = 1, log_index = n\<rparr>, payload = Normal req\<rparr>"

abbreviation the_agent :: agent_id where "the_agent \<equiv> AgentId (fill32 1)"
abbreviation lease_one :: block_id where "lease_one \<equiv> BlockId (fill32 2)"
abbreviation lease_two :: block_id where "lease_two \<equiv> BlockId (fill32 3)"
abbreviation the_block :: block_id where "the_block \<equiv> BlockId (fill32 4)"

definition the_binding :: chain_binding where
  "the_binding =
     \<lparr>cb_key = \<lparr>fingerprint = example_fingerprint, prefix_hash = BlockId (fill32 5)\<rparr>,
      cb_blocks = [the_block], cb_parent = None\<rparr>"

definition two_leases :: "entry list" where
  "two_leases =
     [entry_at 1 (RegisterAgent the_agent ''a''),
      entry_at 2 (BeginUploadLease lease_one the_agent [the_block]),
      entry_at 3 (BeginUploadLease lease_two the_agent [the_block])]"

lemmas run_simps = two_leases_def entry_at_def apply_entry_def apply_one_def default_state_def
  default_leases_def reserve_def activate_def cancel_def lease_limits MAX_BLOCK_FENCES_def
  is_expired_def reserved_blocks_def applied_index_def fm_simps in_order_def Let_def

lemma two_leases_run:
  "leases (fst (apply_entries (\<lambda>_. []) default_state two_leases)) =
     \<lparr>initialized = True,
      records = fmupd lease_two \<lparr>lease_agent = the_agent, lease_blocks = [the_block], created_at = 3,
                  committed = None\<rparr>
        (fmupd lease_one \<lparr>lease_agent = the_agent, lease_blocks = [the_block], created_at = 2,
           committed = None\<rparr> fmempty),
      revisions = fmempty, cancelled = fmempty, clock = 0, deadlines = fmempty, expired = fmempty\<rparr>"
  "bindings (fst (apply_entries (\<lambda>_. []) default_state two_leases)) = fmempty"
  "fmsize (block_fences (fst (apply_entries (\<lambda>_. []) default_state two_leases))) = 1"
  "along in_order (\<lambda>_. []) default_state two_leases"
  by (simp_all add: run_simps)

section \<open>Properties\<close>

text \<open>
  C7.  Leases follow their life cycle: over any run a lease moves only along absent, pending,
  then committed, cancelled or expired; a committed, cancelled or expired lease stays so forever;
  its owner and blocks never change, and the binding it was committed with never changes either.
\<close>

theorem terminal_leases_are_final:
  assumes "along in_order bk default_state (es @ later)"
  defines "s \<equiv> leases (fst (apply_entries bk default_state es))"
    and "t \<equiv> leases (fst (apply_entries bk default_state (es @ later)))"
  shows "phase_step\<^sup>*\<^sup>* (phase s i) (phase t i)
    \<and> (phase s i \<in> {Committed, Cancelled, Expired} \<longrightarrow> phase t i = phase s i)
    \<and> (\<forall>l. fmlookup (records s) i = Some l \<longrightarrow>
         (\<exists>l'. fmlookup (records t) i = Some l' \<and> record_kept l l'))"
proof -
  have ord: "along in_order bk default_state es"
    "along in_order bk (fst (apply_entries bk default_state es)) later"
    using assms(1) by (simp_all add: along_append)
  have "leases_evolve s t"
    using lifecycle.run_related [OF metadata.run [OF state_inv_default ord(1)] ord(2)]
    by (simp add: s_def t_def apply_entries_append)
  moreover have "q = p" if "phase_step\<^sup>*\<^sup>* p q" "p \<in> {Committed, Cancelled, Expired}" for p q
    using that by (induction rule: rtranclp_induct) auto
  ultimately show ?thesis
    by (auto simp: leases_evolve_def)
qed

theorem terminal_leases_are_final_witness:
  "phase (leases (fst (apply_entries (\<lambda>_. []) default_state
       (two_leases @ [entry_at 4 (CancelUploadLease lease_one the_agent)]
          @ [entry_at 5 (CommitUploadLease lease_one the_agent the_binding 0)])))) lease_one
   = Cancelled"
proof -
  let ?es = "two_leases @ [entry_at 4 (CancelUploadLease lease_one the_agent)]"
  let ?later = "[entry_at 5 (CommitUploadLease lease_one the_agent the_binding 0)]"
  have ord: "along in_order (\<lambda>_. []) default_state (?es @ ?later)"
    by (simp add: run_simps)
  have "phase (leases (fst (apply_entries (\<lambda>_. []) default_state ?es))) lease_one = Cancelled"
    by (simp add: run_simps phase_def or_insert_def)
  then show ?thesis
    using terminal_leases_are_final [OF ord, of lease_one] by simp
qed

text \<open>
  C8.  A refused request changes nothing: in every state reached in log order, a response
  \<open>Rejected\<close> comes with the unchanged state.
\<close>

theorem rejected_changes_nothing:
  assumes "along in_order bk default_state es"
    and "apply_one bk (fst (apply_entries bk default_state es)) req = (s', Rejected m)"
  shows "s' = fst (apply_entries bk default_state es)"
  using apply_one_rejected [OF metadata.run [OF state_inv_default assms(1)] assms(2)] by simp

theorem rejected_changes_nothing_witness:
  "apply_one (\<lambda>_. []) (fst (apply_entries (\<lambda>_. []) default_state two_leases))
     (CancelUploadLease lease_one (AgentId (fill32 9)))
   = (fst (apply_entries (\<lambda>_. []) default_state two_leases), Rejected ''lease owner mismatch'')"
proof -
  let ?s = "fst (apply_entries (\<lambda>_. []) default_state two_leases)"
  have "snd (apply_one (\<lambda>_. []) ?s (CancelUploadLease lease_one (AgentId (fill32 9))))
      = Rejected ''lease owner mismatch''"
    by (simp add: apply_one_def cancel_def two_leases_run MAX_BLOCK_FENCES_def)
  then show ?thesis
    using rejected_changes_nothing [OF two_leases_run(4),
        of "CancelUploadLease lease_one (AgentId (fill32 9))"]
    by (metis prod.collapse)
qed

text \<open>
  C9.  Commits are compare-and-swap, no update is lost: when a pending lease has been committed for a
  key at the expected revision, then after whatever entries follow, a commit for that key at the same
  expected revision is refused; the one exception is the exact repeat of that commit (same lease,
  owner and binding), which is acknowledged again and changes nothing but the fences of its blocks.
\<close>

theorem commit_is_compare_and_swap:
  assumes "along in_order bk default_state es"
    and "s = fst (apply_entries bk default_state es)"
    and "phase (leases s) i = Pending"
    and "apply_one bk s (CommitUploadLease i a b e) = (s', Bound)"
    and "along in_order bk s' later"
    and "t = fst (apply_entries bk s' later)"
    and "bk (cb_key c) = bk (cb_key b)"
  shows "is_rejected (snd (apply_one bk t (CommitUploadLease j a' c e)))
    \<or> j = i \<and> a' = a \<and> c = b
      \<and> (\<exists>fences. apply_one bk t (CommitUploadLease j a' c e) = (t\<lparr>block_fences := fences\<rparr>, Bound))"
proof -
  have inv: "state_inv bk s" "commits_unique bk (leases s)"
    using commits.run [OF conjI [OF state_inv_default commits_unique_default] assms(1)] assms(2) by simp_all
  have ok: "validate_commit bk s i a b e = Inr True"
    using commit_pending_bound assms(3,4) by blast
  obtain l where l: "fmlookup (records (leases s)) i = Some l" "lease_agent l = a"
    using ok by (rule validate_commit_True)
  have after: "leases s' = leases (fst (apply_unfenced bk s (CommitUploadLease i a b e)))"
    using assms(4) by (cases rule: apply_one_cases) auto
  then have "e < current_revision (leases s') (bk (cb_key b))"
    using commit_revision [OF inv(1) ok] by simp
  moreover have inv': "state_inv bk s' \<and> commits_unique bk (leases s')"
    using state_inv_apply_one [OF inv(1), of "CommitUploadLease i a b e"] assms(4)
      commits_unique_unfenced [OF inv, of "CommitUploadLease i a b e"] unfolding after [symmetric] by simp
  then have "current_revision (leases s') (bk (cb_key b)) \<le> current_revision (leases t) (bk (cb_key b))"
    using revisions.run_related assms(5,6) by blast
  ultimately have stale: "e < current_revision (leases t) (bk (cb_key c))"
    using assms(7) by simp
  have uniq: "commits_unique bk (leases t)"
    using commits.run [OF inv' assms(5)] assms(6) by simp
  have "leases_evolve (leases s') (leases t)"
    using lifecycle.run_related inv' assms(5,6) by blast
  moreover have "fmlookup (records (leases s')) i
      = Some (l\<lparr>committed := Some \<lparr>commit_binding = b, commit_revision = e\<rparr>\<rparr>)"
    using after ok l by (simp add: commit_accepted)
  ultimately obtain l' where l': "fmlookup (records (leases t)) i = Some l'" "lease_agent l' = a"
    "committed l' = Some \<lparr>commit_binding = b, commit_revision = e\<rparr>"
    using l by (fastforce simp: leases_evolve_def record_kept_def)
  from commit_stale [of e t bk c j a', OF stale] show ?thesis
    using commits_uniqueD [OF uniq _ _ l'(1,3), of j] l' assms(7) by fastforce
qed

lemmas commit_simps = apply_one_def two_leases_run validate_commit_def valid_binding_def valid_key_def
  the_binding_def example_fingerprint_def is_expired_def current_revision_def touch_binding_def
  MAX_BLOCK_FENCES_def Let_def

theorem commit_is_compare_and_swap_witness:
  "is_rejected (snd (apply_one (\<lambda>_. [])
     (fst (apply_one (\<lambda>_. []) (fst (apply_entries (\<lambda>_. []) default_state two_leases))
        (CommitUploadLease lease_one the_agent the_binding 0)))
     (CommitUploadLease lease_two the_agent the_binding 0)))"
proof -
  let ?s = "fst (apply_entries (\<lambda>_. []) default_state two_leases)"
  let ?s' = "fst (apply_one (\<lambda>_. []) ?s (CommitUploadLease lease_one the_agent the_binding 0))"
  have pending: "phase (leases ?s) lease_one = Pending"
    by (simp add: two_leases_run phase_def is_expired_def)
  have bound: "apply_one (\<lambda>_. []) ?s (CommitUploadLease lease_one the_agent the_binding 0) = (?s', Bound)"
    by (simp add: prod_eq_iff commit_simps)
  show ?thesis
    using commit_is_compare_and_swap [OF two_leases_run(4) refl pending bound, where later = "[]"
        and c = the_binding and j = lease_two and a' = the_agent]
    by simp
qed

end
