(* ===== verification/Reference_Counts.thy ===== *)
theory Reference_Counts
  imports Metadata_Invariant
begin

text \<open>
  \<open>block_refs\<close> against its meaning: how often the bindings name each block.  The counters are
  \<^verbatim>\<open>u32\<close>, so the statement carries the bound under which no increment wraps.
\<close>

section \<open>The abstract count\<close>

definition references :: "(string, binding_record) fmap \<Rightarrow> block_id \<Rightarrow> nat" where
  "references B b = fmsum (\<lambda>r. count_list (binding_blocks r) b) B"

definition total_references :: "metadata_state \<Rightarrow> nat" where
  "total_references s = fmsum (\<lambda>r. length (binding_blocks r)) (bindings s)"

definition counts :: "(block_id \<Rightarrow> nat) \<Rightarrow> (block_id, u32) fmap \<Rightarrow> bool" where
  "counts f refs \<longleftrightarrow> (\<forall>b. fmlookup refs b = (if f b = 0 then None else Some (of_nat (f b))))"

definition refs_exact :: "metadata_state \<Rightarrow> bool" where
  "refs_exact s \<longleftrightarrow> counts (references (bindings s)) (block_refs s)"

lemma unat_of_nat_u32: "n < 2 ^ 32 \<Longrightarrow> unat (of_nat n :: u32) = n"
  by (simp add: unat_of_nat)

lemma of_nat_u32_eq: "m < 2 ^ 32 \<Longrightarrow> n < 2 ^ 32 \<Longrightarrow> (of_nat m :: u32) = of_nat n \<longleftrightarrow> m = n"
  using unat_of_nat_u32 by metis

lemma counts_release:
  assumes "counts f refs" and "0 < f b" and "f b < 2 ^ 32"
  shows "counts (f(b := f b - 1)) (release_ref b refs)"
proof -
  have look: "fmlookup refs b = Some (of_nat (f b))"
    using assms by (simp add: counts_def)
  have "(1 :: u32) \<le> of_nat (f b)"
    using assms unat_of_nat_u32 [of "f b"] by (simp add: word_le_nat_alt)
  then have sub: "saturating_sub (of_nat (f b) :: u32) 1 = of_nat (f b - 1)"
    using assms(2) by (simp add: saturating_sub_def of_nat_diff)
  show ?thesis
  proof (cases "f b = 1")
    case True
    then have "release_ref b refs = fmdrop b refs"
      using sub by (simp add: release_ref_def look)
    with assms(1) True show ?thesis
      by (simp add: counts_def)
  next
    case False
    define w :: u32 where "w = of_nat (f b - 1)"
    have "w \<noteq> 0"
      using False assms(2,3) of_nat_u32_eq [of "f b - 1" 0] by (simp add: w_def)
    then have "release_ref b refs = fmupd b w refs"
      unfolding release_ref_def look option.case sub w_def [symmetric] Let_def by simp
    with assms False show ?thesis
      by (simp add: counts_def w_def)
  qed
qed

lemma counts_acquire:
  assumes "counts f refs"
  shows "counts (f(b := Suc (f b))) (acquire_ref b refs)"
  using assms by (auto simp: counts_def acquire_ref_def add.commute)

lemma counts_release_all:
  assumes "counts f refs" and "\<And>b. count_list bs b \<le> f b" and "\<And>b. f b < 2 ^ 32"
  shows "counts (\<lambda>b. f b - count_list bs b) (fold release_ref bs refs)"
  using assms
proof (induction bs arbitrary: f refs)
  case (Cons b bs)
  have pos: "0 < f b"
    using Cons.prems(2) [of b] by simp
  let ?f = "f(b := f b - 1)"
  have "counts (\<lambda>x. ?f x - count_list bs x) (fold release_ref bs (release_ref b refs))"
  proof (rule Cons.IH)
    show "counts ?f (release_ref b refs)"
      using counts_release [OF Cons.prems(1) pos Cons.prems(3)] .
    show "count_list bs x \<le> ?f x" for x
      using Cons.prems(2) [of x] by (auto split: if_splits)
    show "?f x < 2 ^ 32" for x
      using Cons.prems(3) [of x] by (auto intro: less_imp_diff_less)
  qed
  moreover have "(\<lambda>x. ?f x - count_list bs x) = (\<lambda>x. f x - count_list (b # bs) x)"
    by auto
  ultimately show ?case
    by simp
qed simp

lemma counts_acquire_all:
  assumes "counts f refs"
  shows "counts (\<lambda>b. f b + count_list bs b) (fold acquire_ref bs refs)"
  using assms
proof (induction bs arbitrary: f refs)
  case (Cons b bs)
  have "counts (\<lambda>x. (f(b := Suc (f b))) x + count_list bs x) (fold acquire_ref bs (acquire_ref b refs))"
    using Cons.IH [OF counts_acquire [OF Cons.prems]] .
  moreover have "(\<lambda>x. (f(b := Suc (f b))) x + count_list bs x) = (\<lambda>x. f x + count_list (b # bs) x)"
    by auto
  ultimately show ?case
    by simp
qed simp


section \<open>Binding a key\<close>

lemma references_fmupd_new:
  "fmlookup B k = None \<Longrightarrow> references (fmupd k r B) b = references B b + count_list (binding_blocks r) b"
  by (simp add: references_def fm_simps)

lemma references_fmupd_old:
  assumes "fmlookup B k = Some old"
  shows "references (fmupd k r B) b
       = references B b - count_list (binding_blocks old) b + count_list (binding_blocks r) b"
    and "count_list (binding_blocks old) b \<le> references B b"
  using fmsum_fmupd_old [OF assms, of "\<lambda>r. count_list (binding_blocks r) b" r]
    fmsum_member_le [OF assms, of "\<lambda>r. count_list (binding_blocks r) b"]
  by (simp_all add: references_def)

lemma count_list_le: "count_list xs b \<le> length xs"
  by (induction xs) auto

lemma references_le_total: "references (bindings s) b \<le> total_references s"
  unfolding references_def total_references_def fmsum_def
  by (rule sum_mono) (rule count_list_le)

lemma refs_exact_bind_one:
  assumes "refs_exact s" and "total_references s < 2 ^ 32"
  shows "refs_exact (bind_one bk s a k bs p)"
proof -
  let ?r = "\<lparr>binding_agent = a, binding_blocks = bs\<rparr>"
  have small: "references (bindings s) b < 2 ^ 32" for b
    using references_le_total [of s b] assms(2) by linarith
  have exact: "counts (references (bindings s)) (block_refs s)"
    using assms(1) by (simp add: refs_exact_def)
  show ?thesis
  proof (cases "fmlookup (bindings s) (bk k)")
    case None
    have "references (fmupd (bk k) ?r (bindings s)) = (\<lambda>b. references (bindings s) b + count_list bs b)"
      using references_fmupd_new [OF None] by auto
    then show ?thesis
      using counts_acquire_all [OF exact, of bs] None
      by (simp add: refs_exact_def bind_one_def Let_def)
  next
    case (Some old)
    note old = references_fmupd_old [OF Some]
    have "references (fmupd (bk k) ?r (bindings s))
        = (\<lambda>b. references (bindings s) b - count_list (binding_blocks old) b + count_list bs b)"
      using old(1) by auto
    then show ?thesis
      using counts_acquire_all [OF counts_release_all [OF exact old(2) small], of bs] Some
      by (simp add: refs_exact_def bind_one_def Let_def)
  qed
qed

lemma total_references_bind_one:
  "total_references (bind_one bk s a k bs p) \<le> total_references s + length bs"
proof (cases "fmlookup (bindings s) (bk k)")
  case None
  then show ?thesis
    by (simp add: total_references_def fm_simps)
next
  case (Some old)
  then show ?thesis
    using fmsum_fmupd_old [OF Some, of "\<lambda>r. length (binding_blocks r)"
        "\<lparr>binding_agent = a, binding_blocks = bs\<rparr>"]
    by (simp add: total_references_def)
qed

lemma refs_exact_bind_many:
  assumes "refs_exact s" and "total_references s + sum_list (map (\<lambda>b. length (cb_blocks b)) bs) < 2 ^ 32"
  shows "refs_exact (bind_many bk s a bs)
       \<and> total_references (bind_many bk s a bs)
           \<le> total_references s + sum_list (map (\<lambda>b. length (cb_blocks b)) bs)"
  using assms
proof (induction bk s a bs rule: bind_many.induct)
  case (2 bk s a b bs)
  let ?s = "bind_one bk s a (cb_key b) (cb_blocks b) (cb_parent b)"
  have le: "total_references ?s \<le> total_references s + length (cb_blocks b)"
    by (rule total_references_bind_one)
  have "refs_exact ?s"
    using 2 by (intro refs_exact_bind_one) simp_all
  with 2 le have "refs_exact (bind_many bk ?s a bs)
      \<and> total_references (bind_many bk ?s a bs)
        \<le> total_references ?s + sum_list (map (\<lambda>b. length (cb_blocks b)) bs)"
    by simp
  with le show ?case by simp
qed simp

text \<open>The references a request may add.\<close>

fun named_blocks :: "request \<Rightarrow> nat" where
  "named_blocks (BindPrefix _ _ bs _) = length bs"
| "named_blocks (BindChain _ items) = sum_list (map (\<lambda>b. length (cb_blocks b)) items)"
| "named_blocks (CommitUploadLease _ _ b _) = length (cb_blocks b)"
| "named_blocks _ = 0"

fun entry_blocks :: "entry \<Rightarrow> nat" where
  "entry_blocks e = (case payload e of Normal req \<Rightarrow> named_blocks req | _ \<Rightarrow> 0)"

definition refs_fit :: "metadata_state \<Rightarrow> entry \<Rightarrow> bool" where
  "refs_fit s e \<longleftrightarrow> total_references s + entry_blocks e < 2 ^ 32"

fun binding_request :: "request \<Rightarrow> bool" where
  "binding_request (BindPrefix _ _ _ _) = True"
| "binding_request (BindChain _ _) = True"
| "binding_request (CommitUploadLease _ _ _ _) = True"
| "binding_request _ = False"

text \<open>A request that binds nothing leaves bindings and counters alone.\<close>

lemma unfenced_bindings_frame:
  assumes "\<not> binding_request req"
  shows "bindings (fst (apply_unfenced bk s req)) = bindings s
       \<and> block_refs (fst (apply_unfenced bk s req)) = block_refs s
       \<and> children (fst (apply_unfenced bk s req)) = children s"
proof (cases req)
  case (BeginUploadLease i a bs)
  have "bindings s' = bindings s \<and> block_refs s' = block_refs s \<and> children s' = children s"
    if "reserve s i a bs = (s', r)" for s' r
    using that by (cases rule: reserve_cases) simp_all
  then show ?thesis
    using BeginUploadLease by (simp add: prod_eq_iff)
next
  case (RenewUploadLease i a e t)
  have "bindings s' = bindings s \<and> block_refs s' = block_refs s \<and> children s' = children s"
    if "renew s i a e t = (s', r)" for s' r
    using that by (cases rule: renew_cases) simp_all
  then show ?thesis
    using RenewUploadLease by (simp add: prod_eq_iff)
qed (use assms in \<open>auto simp: Let_def cancel_def advance_def expire_def split: option.splits\<close>)


lemma refs_exact_unfenced:
  assumes "refs_exact s" and "total_references s + named_blocks req < 2 ^ 32"
  shows "refs_exact (fst (apply_unfenced bk s req))
       \<and> total_references (fst (apply_unfenced bk s req)) < 2 ^ 32"
proof (cases "binding_request req")
  case False
  then show ?thesis
    using assms unfenced_bindings_frame [OF False, of bk s]
    by (simp add: refs_exact_def total_references_def)
next
  case True
  have one: "refs_exact (bind_one bk s a k bs p) \<and> total_references (bind_one bk s a k bs p) < 2 ^ 32"
    if "total_references s + length bs < 2 ^ 32" for a k bs p
    using refs_exact_bind_one [OF assms(1)] total_references_bind_one [of bk s a k bs p] that
    by (meson add_lessD1 order_le_less_trans)
  from True show ?thesis
  proof (cases req)
    case (CommitUploadLease i a b e)
    then show ?thesis
      using assms one [of "cb_blocks b"]
      by (auto simp: Let_def refs_exact_def total_references_def split: sum.splits bool.splits)
  next
    case (BindChain a bs)
    then show ?thesis
      using assms refs_exact_bind_many [OF assms(1), of bs bk a] by simp
  qed (use assms one in auto)
qed

lemma apply_one_frame:
  "bindings (fst (apply_one bk s req)) =
     (if fst (apply_one bk s req) = s then bindings s else bindings (fst (apply_unfenced bk s req)))"
  "block_refs (fst (apply_one bk s req)) =
     (if fst (apply_one bk s req) = s then block_refs s else block_refs (fst (apply_unfenced bk s req)))"
  by (auto simp: apply_one_def Let_def split_def)

interpretation refcounts: apply_invariant bk "\<lambda>s. refs_exact s \<and> total_references s < 2 ^ 32" refs_fit
proof
  fix s e
  assume inv: "refs_exact s \<and> total_references s < 2 ^ 32" and fit: "refs_fit s e"
  let ?s = "s\<lparr>last_applied := Some (entry_log_id e)\<rparr>"
  have s: "refs_exact ?s" "total_references ?s + entry_blocks e < 2 ^ 32"
    using inv fit by (simp_all add: refs_exact_def total_references_def refs_fit_def)
  show "refs_exact (fst (apply_entry bk s e)) \<and> total_references (fst (apply_entry bk s e)) < 2 ^ 32"
  proof (cases "payload e")
    case (Normal req)
    with s(2) have fits: "total_references ?s + named_blocks req < 2 ^ 32"
      by simp
    then have "refs_exact (fst (apply_one bk ?s req)) \<and> total_references (fst (apply_one bk ?s req)) < 2 ^ 32"
      using refs_exact_unfenced [OF s(1) fits, of bk] s(1)
      by (cases "fst (apply_one bk ?s req) = ?s")
        (simp_all add: refs_exact_def total_references_def apply_one_frame)
    with Normal show ?thesis
      by (simp add: apply_entry_def)
  qed (use s in \<open>simp_all add: apply_entry_def refs_exact_def total_references_def\<close>)
qed

lemma references_pos_iff:
  "0 < references B b \<longleftrightarrow> (\<exists>k r. fmlookup B k = Some r \<and> b \<in> set (binding_blocks r))"
proof -
  have "0 < references B b \<longleftrightarrow>
      (\<exists>k\<in>fset (fmdom B). count_list (binding_blocks (the (fmlookup B k))) b \<noteq> 0)"
    unfolding references_def fmsum_def by (subst neq0_conv [symmetric], subst sum_eq_0_iff) auto
  also have "\<dots> \<longleftrightarrow> (\<exists>k r. fmlookup B k = Some r \<and> count_list (binding_blocks r) b \<noteq> 0)"
    by (rule fmdom_bex_iff)
  finally show ?thesis
    by (simp add: count_list_0_iff)
qed

text \<open>The keys of the bindings that name a block.\<close>

definition naming :: "(string, binding_record) fmap \<Rightarrow> block_id \<Rightarrow> string set" where
  "naming B b = {k. \<exists>r. fmlookup B k = Some r \<and> b \<in> set (binding_blocks r)}"

lemma card_naming:
  "card (naming B b) = (\<Sum>k\<in>fset (fmdom B). if b \<in> set (binding_blocks (the (fmlookup B k))) then 1 else 0)"
proof -
  have "naming B b = {k \<in> fset (fmdom B). b \<in> set (binding_blocks (the (fmlookup B k)))}"
    by (auto simp: naming_def fmlookup_dom_iff)
  then show ?thesis
    by (simp add: sum.If_cases Collect_conj_eq Int_commute)
qed

lemma naming_le_references: "card (naming B b) \<le> references B b"
  unfolding card_naming references_def fmsum_def
  by (rule sum_mono) (use count_list_0_iff in \<open>fastforce simp: Suc_le_eq\<close>)

lemma references_naming:
  assumes "\<And>k r. fmlookup B k = Some r \<Longrightarrow> count_list (binding_blocks r) b \<le> 1"
  shows "references B b = card (naming B b)"
  unfolding card_naming references_def fmsum_def
proof (rule sum.cong)
  fix k
  assume "k \<in> fset (fmdom B)"
  then obtain r where r: "fmlookup B k = Some r"
    by (auto simp: fmlookup_dom_iff)
  have "count_list (binding_blocks r) b = 0 \<longleftrightarrow> b \<notin> set (binding_blocks r)"
    by (rule count_list_0_iff)
  with assms [OF r] r show "count_list (binding_blocks (the (fmlookup B k))) b
      = (if b \<in> set (binding_blocks (the (fmlookup B k))) then 1 else 0)"
    by auto
qed simp

section \<open>Properties\<close>

text \<open>
  C10.  The reference counters are exact: after any run whose bindings name fewer than \<open>2 ^ 32\<close>
  blocks at every point, the counter of a block is the number of its occurrences in the current
  bindings, and a block has an entry iff some binding names it, so the blocks with a counter are the
  live set.  The counter is at least the number of bindings that name the block, and equals it when no
  binding names the block twice; a binding that repeats a block is counted once per occurrence.
\<close>

theorem block_refs_exact:
  fixes b :: block_id
  assumes "along refs_fit bk default_state es"
  defines "s \<equiv> fst (apply_entries bk default_state es)"
  defines "n \<equiv> (case fmlookup (block_refs s) b of None \<Rightarrow> 0 | Some n \<Rightarrow> unat n)"
  shows "n = references (bindings s) b
    \<and> (fmlookup (block_refs s) b \<noteq> None
       \<longleftrightarrow> (\<exists>k r. fmlookup (bindings s) k = Some r \<and> b \<in> set (binding_blocks r)))
    \<and> card (naming (bindings s) b) \<le> n
    \<and> ((\<forall>k r. fmlookup (bindings s) k = Some r \<longrightarrow> count_list (binding_blocks r) b \<le> 1) \<longrightarrow>
         n = card (naming (bindings s) b))"
proof -
  have "refs_exact default_state \<and> total_references default_state < 2 ^ 32"
    by (simp add: refs_exact_def total_references_def default_state_def counts_def references_def)
  then have exact: "refs_exact s" and "total_references s < 2 ^ 32"
    using refcounts.run assms(1) by (simp_all add: s_def)
  moreover from this have "references (bindings s) b < 2 ^ 32"
    using references_le_total [of s b] by linarith
  ultimately have "n = references (bindings s) b"
    and "fmlookup (block_refs s) b \<noteq> None \<longleftrightarrow> 0 < references (bindings s) b"
    by (simp_all add: n_def refs_exact_def counts_def unat_of_nat_u32)
  then show ?thesis
    using references_pos_iff naming_le_references references_naming by presburger
qed

definition repeated_block :: entry where
  "repeated_block =
     \<lparr>entry_log_id = \<lparr>leader_round = 1, leader_node = 1, log_index = 1\<rparr>,
      payload = Normal (BindPrefix (AgentId (fill32 1))
        \<lparr>fingerprint = example_fingerprint, prefix_hash = BlockId (fill32 2)\<rparr>
        [BlockId (fill32 3), BlockId (fill32 4), BlockId (fill32 4)] None)\<rparr>"

definition rebinding_entries :: "entry list" where
  "rebinding_entries =
     [repeated_block,
      \<lparr>entry_log_id = \<lparr>leader_round = 1, leader_node = 1, log_index = 2\<rparr>,
       payload = Normal (BindPrefix (AgentId (fill32 1))
         \<lparr>fingerprint = example_fingerprint, prefix_hash = BlockId (fill32 2)\<rparr>
         [BlockId (fill32 4)] None)\<rparr>]"

lemma rebinding_run:
  "bindings (fst (apply_entries (\<lambda>_. []) default_state [repeated_block]))
   = fmupd [] \<lparr>binding_agent = AgentId (fill32 1),
       binding_blocks = [BlockId (fill32 3), BlockId (fill32 4), BlockId (fill32 4)]\<rparr> fmempty"
  "bindings (fst (apply_entries (\<lambda>_. []) default_state rebinding_entries))
   = fmupd [] \<lparr>binding_agent = AgentId (fill32 1), binding_blocks = [BlockId (fill32 4)]\<rparr> fmempty"
  "along refs_fit (\<lambda>_. []) default_state [repeated_block]"
  "along refs_fit (\<lambda>_. []) default_state rebinding_entries"
  by (simp_all add: rebinding_entries_def repeated_block_def apply_entry_def apply_one_def default_state_def
      default_leases_def touch_binding_def MAX_BLOCK_FENCES_def refs_fit_def total_references_def
      bump_revision_def fm_simps Let_def)

text \<open>One binding names block 4 twice: its counter is two.  Rebinding the key releases both.\<close>

theorem block_refs_exact_witness:
  "(case fmlookup (block_refs (fst (apply_entries (\<lambda>_. []) default_state [repeated_block])))
      (BlockId (fill32 4)) of None \<Rightarrow> 0 | Some n \<Rightarrow> unat n) = 2
   \<and> fmlookup (block_refs (fst (apply_entries (\<lambda>_. []) default_state rebinding_entries)))
     (BlockId (fill32 3)) = None
   \<and> (case fmlookup (block_refs (fst (apply_entries (\<lambda>_. []) default_state rebinding_entries)))
      (BlockId (fill32 4)) of None \<Rightarrow> 0 | Some n \<Rightarrow> unat n) = 1"
proof (intro conjI)
  show "(case fmlookup (block_refs (fst (apply_entries (\<lambda>_. []) default_state [repeated_block])))
      (BlockId (fill32 4)) of None \<Rightarrow> 0 | Some n \<Rightarrow> unat n) = 2"
    using conjunct1 [OF block_refs_exact [OF rebinding_run(3), of "BlockId (fill32 4)"]]
    unfolding rebinding_run(1) by (simp add: references_def fm_simps)
  show "(case fmlookup (block_refs (fst (apply_entries (\<lambda>_. []) default_state rebinding_entries)))
      (BlockId (fill32 4)) of None \<Rightarrow> 0 | Some n \<Rightarrow> unat n) = 1"
    using conjunct1 [OF block_refs_exact [OF rebinding_run(4), of "BlockId (fill32 4)"]]
    unfolding rebinding_run(2) by (simp add: references_def fm_simps)
  show "fmlookup (block_refs (fst (apply_entries (\<lambda>_. []) default_state rebinding_entries)))
      (BlockId (fill32 3)) = None"
    using block_refs_exact [OF rebinding_run(4), of "BlockId (fill32 3)"]
    unfolding rebinding_run(2) by (auto split: if_splits)
qed

end
