(* ===== verification/Control_Plane.thy ===== *)
theory Control_Plane
  imports Snapshot_Recovery Log_Recovery Lease_Lifecycle Reference_Counts
begin

text \<open>
  \<^verbatim>\<open>kalpak-control/src/lib.rs\<close>: starting a node, submitting requests through consensus, and the
  queries on the applied state.

  Consensus itself is the library \<^verbatim>\<open>openraft\<close>.  Its \<^verbatim>\<open>client_write\<close> is the argument \<open>cw\<close>: given a
  request and the state applied so far it returns an error or the response of the state machine, and
  the state applied when it returns.  A \<^verbatim>\<open>HashMap\<close> is iterated in an order the argument \<open>iter\<close> chooses.
\<close>

section \<open>Errors and configuration\<close>

datatype control_error =
    InitError string
  | WriteError string
  | RejectedError string
  | MembershipError string
  | NotLeader "string option"

datatype raft_error = ForwardToLeader "string option" | RaftFailure string

type_synonym client_write = "request \<Rightarrow> metadata_state \<Rightarrow> (raft_error + response) \<times> metadata_state"

record raft_metrics =
  metrics_id :: u64
  current_leader :: "u64 option"
  member_nodes :: "(u64 \<times> string) list"

section \<open>Starting a node\<close>

text \<open>The last check of \<open>start_node_with_mesh\<close>: a purged log needs a snapshot that covers it.\<close>

definition covers_purged :: "log_store \<Rightarrow> state_machine_store \<Rightarrow> bool" where
  "covers_purged ls sm =
     (case fst (get_log_state ls) of
        None \<Rightarrow> True
      | Some purged \<Rightarrow>
          (case last_applied (state sm) of None \<Rightarrow> False | Some l \<Rightarrow> log_index purged \<le> log_index l))"

definition start_node ::
  "(cache_key \<Rightarrow> string) \<Rightarrow> codec \<Rightarrow> json_codec \<Rightarrow> log_codec \<Rightarrow> fault \<Rightarrow> file_system option
     \<Rightarrow> (control_error + log_store \<times> state_machine_store) outcome \<times> file_system option" where
  "start_node bk c j lc fault data_dir =
     (case data_dir of
        None \<Rightarrow> (Ok (Inr (in_memory, default_store)), None)
      | Some fs \<Rightarrow>
          (case open_log lc fault fs of
             (Inl e, fs') \<Rightarrow> (Ok (Inl (InitError e)), Some fs')
           | (Inr ls, fs') \<Rightarrow>
               (case open_store bk c j fs' of
                  Panicked \<Rightarrow> (Panicked, Some fs')
                | Failed e \<Rightarrow> (Ok (Inl (InitError (''snapshot recovery: '' @ e))), Some fs')
                | Ok sm \<Rightarrow>
                    if covers_purged ls sm then (Ok (Inr (ls, sm)), Some fs')
                    else (Ok (Inl (InitError ''purged Raft logs require a durable snapshot; recover from a healthy peer or verified backup'')), Some fs'))))"

section \<open>Submitting requests\<close>

definition raft_write ::
  "client_write \<Rightarrow> request \<Rightarrow> metadata_state \<Rightarrow> (control_error + response) \<times> metadata_state" where
  "raft_write cw req s =
     (case cw req s of
        (Inl (ForwardToLeader addr), s') \<Rightarrow> (Inl (NotLeader addr), s')
      | (Inl (RaftFailure e), s') \<Rightarrow> (Inl (WriteError e), s')
      | (Inr r, s') \<Rightarrow> (Inr r, s'))"

text \<open>The result of a call followed by the \<^verbatim>\<open>match\<close> on the response.\<close>

definition on_response ::
  "(control_error + response) \<times> metadata_state \<Rightarrow> (response \<Rightarrow> control_error + 'a)
     \<Rightarrow> (control_error + 'a) \<times> metadata_state" where
  "on_response result f =
     (case result of
        (Inl e, s) \<Rightarrow> (Inl e, s)
      | (Inr r, s) \<Rightarrow> (f r, s))"

definition register_agent ::
  "client_write \<Rightarrow> agent_id \<Rightarrow> string \<Rightarrow> metadata_state \<Rightarrow> (control_error + unit) \<times> metadata_state" where
  "register_agent cw a name s = on_response (raft_write cw (RegisterAgent a name) s) (\<lambda>_. Inr ())"

definition begin_upload_lease ::
  "client_write \<Rightarrow> block_id \<Rightarrow> agent_id \<Rightarrow> block_id list \<Rightarrow> metadata_state
     \<Rightarrow> (control_error + unit) \<times> metadata_state" where
  "begin_upload_lease cw lease a bs s =
     on_response (raft_write cw (BeginUploadLease lease a bs) s)
       (\<lambda>r. case r of
          LeaseReserved \<Rightarrow> Inr ()
        | Rejected m \<Rightarrow> Inl (RejectedError m)
        | _ \<Rightarrow> Inl (WriteError ''unexpected lease response''))"

definition commit_upload_lease ::
  "client_write \<Rightarrow> block_id \<Rightarrow> agent_id \<Rightarrow> chain_binding \<Rightarrow> u64 \<Rightarrow> metadata_state
     \<Rightarrow> (control_error + unit) \<times> metadata_state" where
  "commit_upload_lease cw lease a b expected s =
     on_response (raft_write cw (CommitUploadLease lease a b expected) s)
       (\<lambda>r. case r of
          Bound \<Rightarrow> Inr ()
        | Rejected m \<Rightarrow> Inl (RejectedError m)
        | _ \<Rightarrow> Inl (WriteError ''unexpected lease commit response''))"

definition cancel_upload_lease ::
  "client_write \<Rightarrow> block_id \<Rightarrow> agent_id \<Rightarrow> metadata_state \<Rightarrow> (control_error + unit) \<times> metadata_state" where
  "cancel_upload_lease cw lease a s =
     on_response (raft_write cw (CancelUploadLease lease a) s)
       (\<lambda>r. case r of
          LeaseCancelled \<Rightarrow> Inr ()
        | Rejected m \<Rightarrow> Inl (RejectedError m)
        | _ \<Rightarrow> Inl (WriteError ''unexpected lease cancellation response''))"

definition renew_upload_lease ::
  "client_write \<Rightarrow> block_id \<Rightarrow> agent_id \<Rightarrow> u64 \<Rightarrow> u64 \<Rightarrow> metadata_state
     \<Rightarrow> (control_error + lease_deadline) \<times> metadata_state" where
  "renew_upload_lease cw lease a expected ttl s =
     on_response (raft_write cw (RenewUploadLease lease a expected ttl) s)
       (\<lambda>r. case r of
          LeaseRenewed g t \<Rightarrow> Inr \<lparr>generation = g, deadline_tick = t, ttl_ticks = ttl\<rparr>
        | Rejected m \<Rightarrow> Inl (RejectedError m)
        | _ \<Rightarrow> Inl (WriteError ''unexpected lease renewal response''))"

definition advance_lease_clock ::
  "client_write \<Rightarrow> u64 \<Rightarrow> metadata_state \<Rightarrow> (control_error + unit) \<times> metadata_state" where
  "advance_lease_clock cw expected s =
     on_response (raft_write cw (AdvanceLeaseClock expected) s)
       (\<lambda>r. case r of
          LeaseClockAdvanced \<Rightarrow> Inr ()
        | Rejected m \<Rightarrow> Inl (RejectedError m)
        | _ \<Rightarrow> Inl (WriteError ''unexpected lease clock response''))"

definition expire_upload_lease ::
  "client_write \<Rightarrow> block_id \<Rightarrow> u64 \<Rightarrow> u64 \<Rightarrow> metadata_state
     \<Rightarrow> (control_error + unit) \<times> metadata_state" where
  "expire_upload_lease cw lease g t s =
     on_response (raft_write cw (ExpireUploadLease lease g t) s)
       (\<lambda>r. case r of
          LeaseExpired \<Rightarrow> Inr ()
        | Rejected m \<Rightarrow> Inl (RejectedError m)
        | _ \<Rightarrow> Inl (WriteError ''unexpected lease expiry response''))"

definition bind_prefix ::
  "client_write \<Rightarrow> agent_id \<Rightarrow> cache_key \<Rightarrow> block_id list \<Rightarrow> cache_key option \<Rightarrow> metadata_state
     \<Rightarrow> (control_error + unit) \<times> metadata_state" where
  "bind_prefix cw a k bs parent s =
     on_response (raft_write cw (BindPrefix a k bs parent) s)
       (\<lambda>r. case r of
          Bound \<Rightarrow> Inr ()
        | Rejected m \<Rightarrow> Inl (RejectedError m)
        | _ \<Rightarrow> Inl (WriteError ''unexpected bind response''))"

definition bind_chain ::
  "client_write \<Rightarrow> agent_id \<Rightarrow> chain_binding list \<Rightarrow> metadata_state
     \<Rightarrow> (control_error + unit) \<times> metadata_state" where
  "bind_chain cw a bs s =
     on_response (raft_write cw (BindChain a bs) s)
       (\<lambda>r. case r of
          Bound \<Rightarrow> Inr ()
        | Rejected m \<Rightarrow> Inl (RejectedError m)
        | _ \<Rightarrow> Inl (WriteError ''unexpected bind response''))"

text \<open>
  \<open>require_replicas\<close>: the leader answers without a write when the requirements are already recorded,
  after the barrier \<open>linearizable\<close> (\<^verbatim>\<open>ensure_linearizable\<close>).
\<close>

definition already_required :: "metadata_state \<Rightarrow> nat \<Rightarrow> block_id \<Rightarrow> bool" where
  "already_required s replicas b =
     (case fmlookup (replica_requirements s) b of None \<Rightarrow> False | Some n \<Rightarrow> replicas \<le> n)"

definition require_replicas ::
  "client_write \<Rightarrow> raft_metrics \<Rightarrow> (string + unit) \<Rightarrow> block_id list \<Rightarrow> nat \<Rightarrow> metadata_state
     \<Rightarrow> (control_error + unit) \<times> metadata_state" where
  "require_replicas cw metrics linearizable bs replicas s =
     (if \<not> (2 \<le> replicas \<and> replicas \<le> 16) \<or> 4096 < length bs
      then (Inl (WriteError ''invalid replica requirements''), s)
      else if current_leader metrics = Some (metrics_id metrics) \<and> list_all (already_required s replicas) bs
      then (case linearizable of
              Inl e \<Rightarrow> (Inl (WriteError e), s)
            | Inr _ \<Rightarrow> (Inr (), s))
      else
        on_response (raft_write cw (RequireReplicas bs replicas) s)
          (\<lambda>r. case r of
             ReplicasRequired \<Rightarrow> Inr ()
           | Rejected m \<Rightarrow> Inl (WriteError m)
           | _ \<Rightarrow> Inl (WriteError ''unexpected replica response'')))"

section \<open>Queries\<close>

text \<open>
  \<open>lease_expiry_work\<close>; indexing \<^verbatim>\<open>records[id]\<close> panics (\<open>None\<close>) on a missing record.
\<close>

definition deadline_active :: "lease_state \<Rightarrow> block_id \<Rightarrow> bool option" where
  "deadline_active L i =
     (case fmlookup (records L) i of
        None \<Rightarrow> None
      | Some l \<Rightarrow> Some (committed l = None \<and> \<not> contains_key (cancelled L) i \<and> \<not> is_expired L i))"

definition due_leases :: "lease_state \<Rightarrow> (block_id \<times> lease_deadline) list" where
  "due_leases L =
     filter (\<lambda>(i, _). is_expired L i \<and> \<not> contains_key (expired L) i) (btree_entries (deadlines L))"

definition lease_expiry_work ::
  "metadata_state \<Rightarrow> (u64 \<times> bool \<times> (block_id \<times> lease_deadline) list) option" where
  "lease_expiry_work s =
     (case any_checked (deadline_active (leases s)) (map fst (btree_entries (deadlines (leases s)))) of
        None \<Rightarrow> None
      | Some active \<Rightarrow> Some (clock (leases s), active, take 16 (due_leases (leases s))))"

definition upload_lease_is_cancelled :: "metadata_state \<Rightarrow> block_id \<Rightarrow> bool" where
  "upload_lease_is_cancelled s i = contains_key (cancelled (leases s)) i"

definition upload_lease_lifecycle_counts :: "metadata_state \<Rightarrow> u64 \<times> u64 \<times> u64" where
  "upload_lease_lifecycle_counts s =
     (let st = status_counts (leases s)
      in (pending_count st, committed_count st, cancelled_count st))"

definition upload_lease_counts :: "metadata_state \<Rightarrow> u64 \<times> u64" where
  "upload_lease_counts s =
     (let st = status_counts (leases s) in (total_count st, pending_count st))"

definition binding_revision :: "(cache_key \<Rightarrow> string) \<Rightarrow> metadata_state \<Rightarrow> cache_key \<Rightarrow> u64" where
  "binding_revision bk s k = current_revision (leases s) (bk k)"

definition child_blocks :: "(cache_key \<Rightarrow> string) \<Rightarrow> metadata_state \<Rightarrow> cache_key \<Rightarrow> block_id list" where
  "child_blocks bk s k =
     (case fmlookup (children s) (bk k) of
        None \<Rightarrow> []
      | Some kids \<Rightarrow>
          concat (map binding_blocks (List.map_filter (fmlookup (bindings s)) kids)))"

definition lookup_binding :: "(cache_key \<Rightarrow> string) \<Rightarrow> metadata_state \<Rightarrow> cache_key \<Rightarrow> binding_record option" where
  "lookup_binding bk s k = fmlookup (bindings s) (bk k)"

definition peer_nodes :: "raft_metrics \<Rightarrow> (u64 \<times> string) list" where
  "peer_nodes metrics = filter (\<lambda>(i, _). i \<noteq> metrics_id metrics) (member_nodes metrics)"

definition peer_addrs :: "raft_metrics \<Rightarrow> string list" where
  "peer_addrs metrics = map snd (peer_nodes metrics)"

definition agents_list ::
  "((agent_id, agent_record) fmap \<Rightarrow> (agent_id \<times> agent_record) list) \<Rightarrow> metadata_state
     \<Rightarrow> (agent_id \<times> agent_record) list" where
  "agents_list iter s = sort_key (\<lambda>(_, r). registered_at r) (iter (agents s))"

definition parent_index ::
  "((string, string list) fmap \<Rightarrow> (string \<times> string list) list) \<Rightarrow> metadata_state \<Rightarrow> (string, string) fmap" where
  "parent_index iter s =
     fold (\<lambda>(parent, kids). fold (\<lambda>kid. fmupd kid parent) kids) (iter (children s)) fmempty"

definition bindings_of ::
  "((string, binding_record) fmap \<Rightarrow> (string \<times> binding_record) list) \<Rightarrow> metadata_state \<Rightarrow> agent_id
     \<Rightarrow> (string \<times> block_id list) list" where
  "bindings_of iter s a =
     map (\<lambda>(k, r). (k, binding_blocks r)) (filter (\<lambda>(_, r). binding_agent r = a) (iter (bindings s)))"

definition bindings_with_revisions ::
  "((string, binding_record) fmap \<Rightarrow> (string \<times> binding_record) list) \<Rightarrow> metadata_state \<Rightarrow> agent_id
     \<Rightarrow> (string \<times> block_id list \<times> u64) list" where
  "bindings_with_revisions iter s a =
     map (\<lambda>(k, r). (k, binding_blocks r, current_revision (leases s) k))
       (filter (\<lambda>(_, r). binding_agent r = a) (iter (bindings s)))"

definition block_ref_count :: "metadata_state \<Rightarrow> block_id \<Rightarrow> u32" where
  "block_ref_count s b = (case fmlookup (block_refs s) b of None \<Rightarrow> 0 | Some n \<Rightarrow> n)"

text \<open>\<open>reclamation_evidence\<close>, with the JSON object as a record.\<close>

record reclamation_evidence =
  ev_last_applied :: "log_id option"
  ev_logical_tick :: u64
  ev_fence :: "u64 option"
  ev_references :: u32
  ev_required_replicas :: nat
  ev_pending :: nat
  ev_committed :: nat
  ev_cancelled :: nat
  ev_expired :: nat

definition count_lease ::
  "lease_state \<Rightarrow> block_id \<Rightarrow> block_id \<times> upload_lease \<Rightarrow> nat \<times> nat \<times> nat \<times> nat \<Rightarrow> nat \<times> nat \<times> nat \<times> nat" where
  "count_lease L b e tally =
     (case (e, tally) of ((i, l), (p, c, x, d)) \<Rightarrow>
        if b \<notin> set (lease_blocks l) then (p, c, x, d)
        else if committed l \<noteq> None then (p, c + 1, x, d)
        else if contains_key (cancelled L) i then (p, c, x + 1, d)
        else if is_expired L i then (p, c, x, d + 1)
        else (p + 1, c, x, d))"

definition evidence_of :: "metadata_state \<Rightarrow> block_id \<Rightarrow> reclamation_evidence" where
  "evidence_of s b =
     (let (p, c, x, d) = fold (count_lease (leases s) b) (btree_entries (records (leases s))) (0, 0, 0, 0)
      in \<lparr>ev_last_applied = last_applied s, ev_logical_tick = clock (leases s),
          ev_fence = fmlookup (block_fences s) b, ev_references = block_ref_count s b,
          ev_required_replicas =
            (case fmlookup (replica_requirements s) b of None \<Rightarrow> 0 | Some n \<Rightarrow> n),
          ev_pending = p, ev_committed = c, ev_cancelled = x, ev_expired = d\<rparr>)"

definition shared_blocks ::
  "((block_id, u32) fmap \<Rightarrow> (block_id \<times> u32) list) \<Rightarrow> metadata_state \<Rightarrow> u32 \<Rightarrow> block_id list" where
  "shared_blocks iter s min_refs = map fst (filter (\<lambda>(_, n). min_refs \<le> n) (iter (block_refs s)))"

definition bound_blocks :: "metadata_state \<Rightarrow> block_id fset" where
  "bound_blocks s = ffUnion ((\<lambda>r. fset_of_list (binding_blocks r)) |`| fmran (bindings s))"

section \<open>Responses\<close>

text \<open>The response each request may get when it is not refused.\<close>

fun answers :: "request \<Rightarrow> response \<Rightarrow> bool" where
  "answers (RequireReplicas _ _) r = (r = ReplicasRequired)"
| "answers (RegisterAgent _ _) r = (r = Registered)"
| "answers (BindPrefix _ _ _ _) r = (r = Bound)"
| "answers (BindChain _ _) r = (r = Bound)"
| "answers (BeginUploadLease _ _ _) r = (r = LeaseReserved)"
| "answers (CommitUploadLease _ _ _ _) r = (r = Bound)"
| "answers (CancelUploadLease _ _) r = (r = LeaseCancelled)"
| "answers (RenewUploadLease _ _ _ _) r = (\<exists>g t. r = LeaseRenewed g t)"
| "answers (AdvanceLeaseClock _) r = (r = LeaseClockAdvanced)"
| "answers (ExpireUploadLease _ _ _) r = (r = LeaseExpired)"

lemma unfenced_answers:
  assumes "apply_unfenced bk s req = (s', r)"
  shows "is_rejected r \<or> answers req r"
proof (cases req)
  case (BeginUploadLease i a bs)
  with assms have "reserve s i a bs = (s', r)" by simp
  then show ?thesis
    using BeginUploadLease by (cases rule: reserve_cases) auto
next
  case (RenewUploadLease i a e t)
  with assms have "renew s i a e t = (s', r)" by simp
  then show ?thesis
    using RenewUploadLease by (cases rule: renew_cases) auto
next
  case (CommitUploadLease i a b e)
  with assms show ?thesis
    by (auto simp: Let_def split: sum.splits bool.splits)
qed (use assms in \<open>auto simp: Let_def cancel_def advance_def expire_def
      split: option.splits if_splits\<close>)

lemma apply_one_answers:
  assumes "apply_one bk s req = (s', r)"
  shows "is_rejected r \<or> answers req r"
  using assms by (cases rule: apply_one_cases) (auto dest: unfenced_answers)

end
