(* ===== verification/Control_Properties.thy ===== *)
theory Control_Properties
  imports Control_Plane
begin

text \<open>
  What the control plane promises its callers: acknowledged lease operations are in the applied
  state, no call meets a response it does not expect, the queries agree with the replicated state,
  and the recorded facts only grow.
\<close>

section \<open>Consensus as the callers rely on it\<close>

text \<open>
  \<^verbatim>\<open>client_write\<close> returns after the entry of the request has been applied, with the state machine's
  response to it; entries of other callers may be applied before and after it, in log order.
\<close>

definition applies_requests :: "(cache_key \<Rightarrow> string) \<Rightarrow> client_write \<Rightarrow> bool" where
  "applies_requests bk cw \<longleftrightarrow>
     (\<forall>req s r s'. state_inv bk s \<and> cw req s = (Inr r, s') \<longrightarrow>
        (\<exists>before e after. along in_order bk s (before @ e # after) \<and> payload e = Normal req
           \<and> r = snd (apply_entry bk (fst (apply_entries bk s before)) e)
           \<and> s' = fst (apply_entries bk s (before @ e # after))))"

lemma applies_requestsE:
  assumes "applies_requests bk cw" and "state_inv bk s" and "cw req s = (Inr r, s')"
  obtains t u after where "state_inv bk t" and "apply_one bk t req = (u, r)" and "state_inv bk u"
    and "along in_order bk u after" and "s' = fst (apply_entries bk u after)"
proof -
  obtain before e after where run: "along in_order bk s (before @ e # after)" "payload e = Normal req"
    "r = snd (apply_entry bk (fst (apply_entries bk s before)) e)"
    "s' = fst (apply_entries bk s (before @ e # after))"
    using assms unfolding applies_requests_def by blast
  let ?b = "fst (apply_entries bk s before)"
  let ?t = "?b\<lparr>last_applied := Some (entry_log_id e)\<rparr>"
  have "state_inv bk ?b" and order: "in_order ?b e" "along in_order bk (fst (apply_entry bk ?b e)) after"
    using metadata.run [OF assms(2)] run(1) by (simp_all add: along_append)
  then have t: "state_inv bk ?t"
    using state_inv_applied by (simp add: in_order_def)
  have step: "apply_entry bk ?b e = apply_one bk ?t req"
    by (simp add: apply_entry_def run(2))
  show ?thesis
  proof (rule that [OF t])
    show "apply_one bk ?t req = (fst (apply_entry bk ?b e), r)"
      using run(3) step by simp
    show "state_inv bk (fst (apply_entry bk ?b e))"
      using metadata.entry_step [OF \<open>state_inv bk ?b\<close> order(1)] .
    show "s' = fst (apply_entries bk (fst (apply_entry bk ?b e)) after)"
      using run(4) by (simp add: apply_entries_append)
  qed (rule order(2))
qed

text \<open>A leader without other callers: one entry per request, at the next index.\<close>

definition direct_write :: "(cache_key \<Rightarrow> string) \<Rightarrow> client_write" where
  "direct_write bk req s =
     (let (s', r) = apply_entry bk s (entry_at (saturating_add (applied_index s) 1) req) in (Inr r, s'))"

lemma direct_write_applies: "applies_requests bk (direct_write bk)"
proof -
  have "\<exists>before e after. along in_order bk s (before @ e # after) \<and> payload e = Normal req
      \<and> r = snd (apply_entry bk (fst (apply_entries bk s before)) e)
      \<and> s' = fst (apply_entries bk s (before @ e # after))"
    if "direct_write bk req s = (Inr r, s')" for req s r s'
    using that
    by - (rule exI [of _ "[]"], rule exI [of _ "entry_at (saturating_add (applied_index s) 1) req"],
        rule exI [of _ "[]"], simp add: direct_write_def entry_at_def in_order_def saturating_add_ge split: prod.splits)
  then show ?thesis
    unfolding applies_requests_def by blast
qed

section \<open>Expected responses\<close>

fun refused_or :: "'a \<Rightarrow> response \<Rightarrow> control_error + 'a" where
  "refused_or v (Rejected m) = Inl (RejectedError m)"
| "refused_or v _ = Inr v"

lemmas call_defs = on_response_def raft_write_def register_agent_def begin_upload_lease_def
  commit_upload_lease_def cancel_upload_lease_def renew_upload_lease_def advance_lease_clock_def
  expire_upload_lease_def bind_prefix_def bind_chain_def

lemma response_expected:
  assumes "applies_requests bk cw" and "state_inv bk s" and "cw req s = (Inr r, s')"
  shows "(\<exists>m. r = Rejected m) \<or> answers req r"
proof -
  obtain t u where "apply_one bk t req = (u, r)"
    using assms by (rule applies_requestsE)
  then have "is_rejected r \<or> answers req r"
    by (rule apply_one_answers)
  then show ?thesis
    by (cases r) auto
qed

text \<open>Registering an agent is never refused: it touches no fence.\<close>

lemma register_registered:
  assumes "applies_requests bk cw" and "state_inv bk s" and "cw (RegisterAgent a name) s = (Inr r, s')"
  shows "r = Registered"
proof -
  obtain t u where t: "state_inv bk t" "apply_one bk t (RegisterAgent a name) = (u, r)"
    using assms by (rule applies_requestsE)
  then have "fmsize (block_fences t) \<le> MAX_BLOCK_FENCES"
    by (simp add: state_inv_def fences_ok_def)
  with t(2) show ?thesis
    by (simp add: apply_one_def Let_def split: if_splits)
qed

text \<open>A renewal that is granted answers with the deadline it has recorded.\<close>

lemma renew_records:
  assumes "apply_one bk t (RenewUploadLease l a e ttl) = (u, LeaseRenewed g d)"
  shows "fmlookup (deadlines (leases u)) l = Some \<lparr>generation = g, deadline_tick = d, ttl_ticks = ttl\<rparr>"
proof -
  obtain v where v: "renew t l a e ttl = (v, LeaseRenewed g d)" "leases u = leases v"
    using assms by (cases rule: apply_one_cases) auto
  from v(1) show ?thesis
    unfolding v(2)
    by (cases rule: renew_cases) (auto simp: renewal_retry_def split: option.splits)
qed

lemma renew_verdict:
  assumes "applies_requests bk cw" and "state_inv bk s"
    and "cw (RenewUploadLease l a e ttl) s = (Inr r, s')"
  shows "(\<exists>m. r = Rejected m \<and> renew_upload_lease cw l a e ttl s = (Inl (RejectedError m), s'))
    \<or> (\<exists>g t u later. r = LeaseRenewed g t
         \<and> renew_upload_lease cw l a e ttl s = (Inr \<lparr>generation = g, deadline_tick = t, ttl_ticks = ttl\<rparr>, s')
         \<and> fmlookup (deadlines (leases u)) l = Some \<lparr>generation = g, deadline_tick = t, ttl_ticks = ttl\<rparr>
         \<and> along in_order bk u later \<and> s' = fst (apply_entries bk u later))"
proof -
  obtain t u later where run: "apply_one bk t (RenewUploadLease l a e ttl) = (u, r)"
    "along in_order bk u later" "s' = fst (apply_entries bk u later)"
    using assms by (rule applies_requestsE)
  have "(\<exists>m. r = Rejected m) \<or> answers (RenewUploadLease l a e ttl) r"
    using assms by (rule response_expected)
  then show ?thesis
  proof
    assume "\<exists>m. r = Rejected m"
    with assms(3) show ?thesis
      by (auto simp: call_defs)
  next
    assume "answers (RenewUploadLease l a e ttl) r"
    then obtain g d where r: "r = LeaseRenewed g d"
      by auto
    have "renew_upload_lease cw l a e ttl s = (Inr \<lparr>generation = g, deadline_tick = d, ttl_ticks = ttl\<rparr>, s')"
      using assms(3) r by (simp add: call_defs)
    with r renew_records run show ?thesis
      by blast
  qed
qed

text \<open>
  C32.  No call of the control plane falls into its branch for an unexpected response.  When consensus
  answers at all, each call returns exactly the state machine's verdict: success, or the rejection
  with its message.  A renewal returns the deadline that was recorded when its request was applied.
  Registering an agent is never rejected.  \<open>require_replicas\<close> reports a rejection as a write error; the
  statement is for the case in which it submits a request (valid arguments, not already satisfied).
\<close>

theorem calls_report_verdict:
  assumes "applies_requests bk cw" and "state_inv bk s"
  shows "(cw (BeginUploadLease l a bs) s = (Inr r, s') \<longrightarrow>
           begin_upload_lease cw l a bs s = (refused_or () r, s'))
       \<and> (cw (CommitUploadLease l a b e) s = (Inr r, s') \<longrightarrow>
           commit_upload_lease cw l a b e s = (refused_or () r, s'))
       \<and> (cw (CancelUploadLease l a) s = (Inr r, s') \<longrightarrow>
           cancel_upload_lease cw l a s = (refused_or () r, s'))
       \<and> (cw (AdvanceLeaseClock e) s = (Inr r, s') \<longrightarrow>
           advance_lease_clock cw e s = (refused_or () r, s'))
       \<and> (cw (ExpireUploadLease l g t) s = (Inr r, s') \<longrightarrow>
           expire_upload_lease cw l g t s = (refused_or () r, s'))
       \<and> (cw (BindPrefix a k bs p) s = (Inr r, s') \<longrightarrow>
           bind_prefix cw a k bs p s = (refused_or () r, s'))
       \<and> (cw (BindChain a cs) s = (Inr r, s') \<longrightarrow>
           bind_chain cw a cs s = (refused_or () r, s'))
       \<and> (cw (RegisterAgent a name) s = (Inr r, s') \<longrightarrow>
           r = Registered \<and> register_agent cw a name s = (Inr (), s'))
       \<and> (cw (RenewUploadLease l a e ttl) s = (Inr r, s') \<longrightarrow>
           (\<exists>m. r = Rejected m \<and> renew_upload_lease cw l a e ttl s = (Inl (RejectedError m), s'))
           \<or> (\<exists>g t u later. r = LeaseRenewed g t
                \<and> renew_upload_lease cw l a e ttl s
                  = (Inr \<lparr>generation = g, deadline_tick = t, ttl_ticks = ttl\<rparr>, s')
                \<and> fmlookup (deadlines (leases u)) l
                  = Some \<lparr>generation = g, deadline_tick = t, ttl_ticks = ttl\<rparr>
                \<and> along in_order bk u later \<and> s' = fst (apply_entries bk u later)))
       \<and> (2 \<le> n \<and> n \<le> 16 \<and> length bs \<le> 4096
          \<and> \<not> (current_leader metrics = Some (metrics_id metrics) \<and> list_all (already_required s n) bs)
          \<and> cw (RequireReplicas bs n) s = (Inr r, s') \<longrightarrow>
           require_replicas cw metrics barrier bs n s
             = ((case r of Rejected m \<Rightarrow> Inl (WriteError m) | _ \<Rightarrow> Inr ()), s'))"
  by (intro conjI impI renew_verdict [OF assms] register_registered [OF assms]; (elim conjE)?;
      (assumption | frule response_expected [OF assms], auto simp: call_defs require_replicas_def))

section \<open>Acknowledged operations\<close>

text \<open>What was true when the request was applied still is when the call returns.\<close>

lemma phase_final_star: "phase_step\<^sup>*\<^sup>* p q \<Longrightarrow> p \<in> {Committed, Cancelled, Expired} \<Longrightarrow> q = p"
  by (induction rule: rtranclp_induct) auto

lemma phase_present_star: "phase_step\<^sup>*\<^sup>* p q \<Longrightarrow> p \<noteq> Absent \<Longrightarrow> q \<noteq> Absent"
  by (induction rule: rtranclp_induct) (auto elim: phase_step.cases)

lemma evolved:
  assumes "state_inv bk u" and "along in_order bk u es"
  shows "leases_evolve (leases u) (leases (fst (apply_entries bk u es)))"
  using lifecycle.run_related [OF assms] .

lemma reserve_ack:
  assumes "reserve s i a bs = (s', LeaseReserved)"
  shows "\<exists>l. fmlookup (records (leases s')) i = Some l \<and> lease_agent l = a \<and> lease_blocks l = bs"
  using assms by (auto simp: reserve_def Let_def split: if_splits option.splits)

lemma cancel_ack:
  assumes "cancel s i a = (s', LeaseCancelled)"
  shows "phase (leases s') i = Cancelled"
  using assms
proof (cases rule: cancel_cases)
  case (cancelled l)
  then show ?thesis
    by (auto simp: phase_iff fmlookup_or_insert)
qed simp

lemma commit_ack:
  assumes "apply_unfenced bk s (CommitUploadLease i a b e) = (s', Bound)"
  shows "\<exists>l. fmlookup (records (leases s')) i = Some l
    \<and> committed l = Some \<lparr>commit_binding = b, commit_revision = e\<rparr>"
proof (cases "validate_commit bk s i a b e")
  case (Inr fresh)
  show ?thesis
  proof (cases fresh)
    case False
    then obtain l c where "fmlookup (records (leases s)) i = Some l" "committed l = Some c"
      "commit_revision c = e" "cb_key (commit_binding c) = cb_key b"
      "cb_parent (commit_binding c) = cb_parent b" "cb_blocks (commit_binding c) = cb_blocks b"
      using Inr by (auto simp: validate_commit_def Let_def split: if_splits option.splits)
    moreover from this have "c = \<lparr>commit_binding = b, commit_revision = e\<rparr>"
      by (cases c, cases "commit_binding c", cases b) simp
    ultimately show ?thesis
      using assms Inr False by simp
  next
    case True
    then show ?thesis
      using assms Inr by (auto simp: Let_def)
  qed
qed (use assms in simp)

lemma apply_one_acked:
  assumes "apply_one bk s req = (s', r)" and "\<not> is_rejected r"
  obtains u where "apply_unfenced bk s req = (u, r)" and "leases s' = leases u"
    and "replica_requirements s' = replica_requirements u" and "agents s' = agents u"
    and "bindings s' = bindings u"
  using assms(1) by (cases rule: apply_one_cases) (use assms(2) in \<open>auto intro: that\<close>)

text \<open>
  C14.  An acknowledged lease operation is in the applied state when the call returns, whatever other
  callers do meanwhile.  After \<open>begin\<close> the lease exists with this owner and these blocks; after
  \<open>commit\<close> it is committed with exactly this binding and revision; after \<open>cancel\<close> it is cancelled.
\<close>

theorem acknowledged_leases_persist:
  assumes "applies_requests bk cw" and "state_inv bk s"
  shows "(begin_upload_lease cw l a bs s = (Inr (), s') \<longrightarrow>
            (\<exists>x. fmlookup (records (leases s')) l = Some x \<and> lease_agent x = a \<and> lease_blocks x = bs))
       \<and> (commit_upload_lease cw l a b e s = (Inr (), s') \<longrightarrow>
            (\<exists>x. fmlookup (records (leases s')) l = Some x
               \<and> committed x = Some \<lparr>commit_binding = b, commit_revision = e\<rparr>))
       \<and> (cancel_upload_lease cw l a s = (Inr (), s') \<longrightarrow> phase (leases s') l = Cancelled)"
proof (intro conjI impI)
  assume "begin_upload_lease cw l a bs s = (Inr (), s')"
  then have "cw (BeginUploadLease l a bs) s = (Inr LeaseReserved, s')"
    by (auto simp: call_defs split: sum.splits raft_error.splits prod.splits response.splits)
  with assms obtain t u es where run: "apply_one bk t (BeginUploadLease l a bs) = (u, LeaseReserved)"
    "state_inv bk u" "along in_order bk u es" "s' = fst (apply_entries bk u es)"
    by (rule applies_requestsE)
  obtain v where v: "reserve t l a bs = (v, LeaseReserved)" "leases u = leases v"
    using run(1) by (rule apply_one_acked) auto
  from reserve_ack [OF v(1)] evolved [OF run(2,3)]
  show "\<exists>x. fmlookup (records (leases s')) l = Some x \<and> lease_agent x = a \<and> lease_blocks x = bs"
    unfolding run(4) v(2) leases_evolve_def record_kept_def by metis
next
  assume "commit_upload_lease cw l a b e s = (Inr (), s')"
  then have "cw (CommitUploadLease l a b e) s = (Inr Bound, s')"
    by (auto simp: call_defs split: sum.splits raft_error.splits prod.splits response.splits)
  with assms obtain t u es where run: "apply_one bk t (CommitUploadLease l a b e) = (u, Bound)"
    "state_inv bk u" "along in_order bk u es" "s' = fst (apply_entries bk u es)"
    by (rule applies_requestsE)
  obtain v where v: "apply_unfenced bk t (CommitUploadLease l a b e) = (v, Bound)" "leases u = leases v"
    using run(1) by (rule apply_one_acked) auto
  from commit_ack [OF v(1)] evolved [OF run(2,3)]
  show "\<exists>x. fmlookup (records (leases s')) l = Some x
      \<and> committed x = Some \<lparr>commit_binding = b, commit_revision = e\<rparr>"
    unfolding run(4) v(2) leases_evolve_def record_kept_def by (metis option.distinct(1))
next
  assume "cancel_upload_lease cw l a s = (Inr (), s')"
  then have "cw (CancelUploadLease l a) s = (Inr LeaseCancelled, s')"
    by (auto simp: call_defs split: sum.splits raft_error.splits prod.splits response.splits)
  with assms obtain t u es where run: "apply_one bk t (CancelUploadLease l a) = (u, LeaseCancelled)"
    "state_inv bk u" "along in_order bk u es" "s' = fst (apply_entries bk u es)"
    by (rule applies_requestsE)
  obtain v where v: "cancel t l a = (v, LeaseCancelled)" "leases u = leases v"
    using run(1) by (rule apply_one_acked) auto
  have "phase (leases u) l = Cancelled"
    using cancel_ack [OF v(1)] v(2) by simp
  moreover have "phase_step\<^sup>*\<^sup>* (phase (leases u) l) (phase (leases s') l)"
    using evolved [OF run(2,3)] by (simp add: run(4) leases_evolve_def)
  ultimately show "phase (leases s') l = Cancelled"
    using phase_final_star by fastforce
qed

section \<open>Facts that only grow\<close>

definition kept :: "('k, 'v) fmap \<Rightarrow> ('k, 'v) fmap \<Rightarrow> bool" where
  "kept m m' \<longleftrightarrow> (\<forall>k v. fmlookup m k = Some v \<longrightarrow> fmlookup m' k = Some v)"

definition raised :: "('k, 'v::order) fmap \<Rightarrow> ('k, 'v) fmap \<Rightarrow> bool" where
  "raised m m' \<longleftrightarrow> (\<forall>k v. fmlookup m k = Some v \<longrightarrow> (\<exists>v'. fmlookup m' k = Some v' \<and> v \<le> v'))"

definition progressed :: "metadata_state \<Rightarrow> metadata_state \<Rightarrow> bool" where
  "progressed s t \<longleftrightarrow>
     clock (leases s) \<le> clock (leases t)
     \<and> raised (replica_requirements s) (replica_requirements t)
     \<and> raised (block_fences s) (block_fences t)
     \<and> kept (cancelled (leases s)) (cancelled (leases t))
     \<and> kept (expired (leases s)) (expired (leases t))
     \<and> (\<forall>a. fmlookup (agents s) a \<noteq> None \<longrightarrow> fmlookup (agents t) a \<noteq> None)
     \<and> (\<forall>k. fmlookup (bindings s) k \<noteq> None \<longrightarrow> fmlookup (bindings t) k \<noteq> None)"

lemma kept_refl [simp]: "kept m m" and raised_refl [simp]: "raised m m"
  by (simp_all add: kept_def raised_def)

lemma kept_or_insert [simp]: "kept m (or_insert k v m)"
  by (simp add: kept_def fmlookup_or_insert)

lemma raised_requirements: "raised m (fold (raise_requirement n) bs m)"
proof (induction bs arbitrary: m)
  case (Cons b bs)
  have "raised m (raise_requirement n b m)"
    by (simp add: raised_def raise_requirement_lookup)
  then show ?case
    using Cons.IH [of "raise_requirement n b m"] unfolding raised_def fold_simps
    by (meson order_trans)
qed simp

lemma bindings_bind_many:
  "fmlookup (bindings s) k \<noteq> None \<Longrightarrow> fmlookup (bindings (bind_many bk s a bs)) k \<noteq> None"
  by (induction bk s a bs rule: bind_many.induct) (auto split: if_splits)

lemma leases_bind_many_simps [simp]:
  "clock (leases (bind_many bk s a bs)) = clock (leases s)"
  "cancelled (leases (bind_many bk s a bs)) = cancelled (leases s)"
  "expired (leases (bind_many bk s a bs)) = expired (leases s)"
  using leases_bind_many [of bk s a bs] by auto

lemma progressed_unfenced: "progressed s (fst (apply_unfenced bk s req))"
proof (cases req)
  case (BeginUploadLease i a bs)
  have "progressed s s'" if "reserve s i a bs = (s', r)" for s' r
    using that by (cases rule: reserve_cases) (simp_all add: progressed_def)
  with BeginUploadLease show ?thesis by (simp add: prod_eq_iff)
next
  case (RenewUploadLease i a e t)
  have "progressed s s'" if "renew s i a e t = (s', r)" for s' r
    using that by (cases rule: renew_cases) (simp_all add: progressed_def)
  with RenewUploadLease show ?thesis by (simp add: prod_eq_iff)
next
  case (AdvanceLeaseClock e)
  have "progressed s s'" if "advance s e = (s', r)" for s' r
    using that
  proof (cases rule: advance_cases)
    case (advanced n)
    have "clock (leases s) \<le> n"
      using checked_add_SomeD [OF advanced(3)] unfolding word_le_nat_alt by linarith
    with advanced show ?thesis by (simp add: progressed_def)
  qed (simp add: progressed_def)
  with AdvanceLeaseClock show ?thesis by (simp add: prod_eq_iff)
next
  case (CommitUploadLease i a b e)
  then show ?thesis
    by (cases "validate_commit bk s i a b e") (auto simp: progressed_def Let_def split: bool.splits)
next
  case (BindChain a bs)
  then show ?thesis
    using bindings_bind_many by (simp add: progressed_def)
qed (auto simp: progressed_def Let_def cancel_def expire_def raised_requirements split: option.splits)

lemma progressed_apply_one:
  assumes "state_inv bk s"
  shows "progressed s (fst (apply_one bk s req))"
proof -
  obtain s' r where a: "apply_one bk s req = (s', r)" by fastforce
  then have "progressed s s'"
  proof (cases rule: apply_one_cases)
    case (accepted u)
    have "raised (block_fences s) (fold (\<lambda>i. fmupd i (applied_index s)) (touched bk s req) (block_fences s))"
      using assms by (auto simp: raised_def fold_fmupd_lookup state_inv_def fences_ok_def)
    with accepted show ?thesis
      using progressed_unfenced [of s bk req] by (simp add: progressed_def)
  qed (use progressed_unfenced [of s bk req] in \<open>auto simp: progressed_def\<close>)
  with a show ?thesis by simp
qed

interpretation growth: apply_preorder bk "state_inv bk" in_order progressed
proof
  show "progressed s s" for s
    by (simp add: progressed_def)
  show "progressed s u" if "progressed s t" "progressed t u" for s t u
    using that unfolding progressed_def kept_def raised_def by (meson order_trans)
  fix s e
  assume inv: "state_inv bk s" and "in_order s e"
  then have "state_inv bk (s\<lparr>last_applied := Some (entry_log_id e)\<rparr>)"
    using state_inv_applied by (simp add: in_order_def)
  then have "progressed (s\<lparr>last_applied := Some (entry_log_id e)\<rparr>)
      (fst (apply_one bk (s\<lparr>last_applied := Some (entry_log_id e)\<rparr>) req))" for req
    by (rule progressed_apply_one)
  then show "progressed s (fst (apply_entry bk s e))"
    by (simp add: apply_entry_def Let_def progressed_def split: entry_payload.split)
qed

text \<open>
  Recorded facts only grow.  Along every run in log order the lease clock never goes back, replica
  requirements and block fences never fall or disappear, a cancellation or expiry marker keeps the
  position it was set at, and neither agents nor bindings are ever removed.
\<close>

lemma replicated_facts_grow:
  assumes "along in_order bk default_state (es @ later)"
  shows "progressed (fst (apply_entries bk default_state es)) (fst (apply_entries bk default_state (es @ later)))"
  using growth.run_related [OF metadata.run [OF state_inv_default]] assms
  by (simp add: along_append apply_entries_append)

section \<open>Fences\<close>

definition binding_names :: "metadata_state \<Rightarrow> string \<Rightarrow> block_id \<Rightarrow> bool" where
  "binding_names s k b =
     (case fmlookup (bindings s) k of None \<Rightarrow> False | Some r \<Rightarrow> b \<in> set (binding_blocks r))"

text \<open>Everything the state records about a block except markers that release it.\<close>

definition same_claims :: "block_id \<Rightarrow> metadata_state \<Rightarrow> metadata_state \<Rightarrow> bool" where
  "same_claims b s t \<longleftrightarrow>
     (\<forall>k. binding_names t k b = binding_names s k b)
     \<and> fmlookup (replica_requirements t) b = fmlookup (replica_requirements s) b
     \<and> (\<forall>i l. fmlookup (records (leases t)) i = Some l \<and> b \<in> set (lease_blocks l) \<longrightarrow>
          fmlookup (records (leases s)) i = Some l
          \<and> fmlookup (deadlines (leases t)) i = fmlookup (deadlines (leases s)) i)"

lemma same_claims_refl [simp]: "same_claims b s s"
  by (simp add: same_claims_def)

lemma names_bind_one:
  assumes "b \<notin> set (touch_binding bk s k bs)"
  shows "binding_names (bind_one bk s a k bs p) j b = binding_names s j b"
  using assms by (auto simp: binding_names_def touch_binding_def split: option.splits)

lemma names_bind_many:
  assumes "\<And>c. c \<in> set cs \<Longrightarrow> b \<notin> set (cb_blocks c) \<and> \<not> binding_names s (bk (cb_key c)) b"
  shows "binding_names (bind_many bk s a cs) j b = binding_names s j b"
  using assms
proof (induction cs arbitrary: s)
  case (Cons c cs)
  let ?s = "bind_one bk s a (cb_key c) (cb_blocks c) (cb_parent c)"
  have "b \<notin> set (touch_binding bk s (cb_key c) (cb_blocks c))"
    using Cons.prems [of c] by (auto simp: touch_binding_def binding_names_def split: option.splits)
  then have same: "binding_names ?s j b = binding_names s j b" for j
    by (rule names_bind_one)
  then show ?case
    using Cons.IH [of ?s] Cons.prems by simp
qed simp

lemma raise_untouched: "b \<notin> set bs \<Longrightarrow> fmlookup (fold (raise_requirement n) bs m) b = fmlookup m b"
  by (induction bs arbitrary: m) (auto simp: raise_requirement_lookup)

lemma untouched_same:
  assumes "b \<notin> set (touched bk s req)" and "apply_unfenced bk s req = (u, r)"
  shows "same_claims b s u"
proof (cases req)
  case (BeginUploadLease i a bs)
  with assms(2) have "reserve s i a bs = (u, r)" by simp
  then show ?thesis
    by (cases rule: reserve_cases)
      (use BeginUploadLease assms(1) in \<open>auto simp: same_claims_def binding_names_def split: if_splits\<close>)
next
  case (RenewUploadLease i a e t)
  with assms(2) have "renew s i a e t = (u, r)" by simp
  then show ?thesis
    by (cases rule: renew_cases)
      (use RenewUploadLease assms(1) in \<open>auto simp: same_claims_def binding_names_def split: if_splits\<close>)
next
  case (BindChain a cs)
  then have "b \<notin> set (cb_blocks c) \<and> \<not> binding_names s (bk (cb_key c)) b" if "c \<in> set cs" for c
    using assms(1) that by (auto simp: touch_binding_def binding_names_def split: option.splits)
  then have "binding_names (bind_many bk s a cs) k b = binding_names s k b" for k
    by (rule names_bind_many)
  moreover have "records (leases (bind_many bk s a cs)) = records (leases s)"
    "deadlines (leases (bind_many bk s a cs)) = deadlines (leases s)"
    using leases_bind_many [of bk s a cs] by auto
  ultimately show ?thesis
    using BindChain assms(2) by (auto simp: same_claims_def)
next
  case (BindPrefix a k bs p)
  then show ?thesis
    using assms names_bind_one by (auto simp: same_claims_def)
next
  case (CommitUploadLease i a c e)
  show ?thesis
  proof (cases "validate_commit bk s i a c e = Inr True")
    case True
    then obtain l where l: "fmlookup (records (leases s)) i = Some l" "lease_blocks l = cb_blocks c"
      by (rule validate_commit_True) simp
    have "b \<notin> set (touch_binding bk s (cb_key c) (cb_blocks c))"
      using CommitUploadLease assms(1) by simp
    then have names: "binding_names (bind_one bk s a (cb_key c) (cb_blocks c) (cb_parent c)) k b
        = binding_names s k b" and fresh: "b \<notin> set (cb_blocks c)" for k
      using names_bind_one by (auto simp: touch_binding_def)
    let ?s = "bind_one bk s a (cb_key c) (cb_blocks c) (cb_parent c)"
    have "u = ?s\<lparr>leases := (leases ?s)\<lparr>records := fmupd i
        (l\<lparr>committed := Some \<lparr>commit_binding = c, commit_revision = e\<rparr>\<rparr>) (records (leases ?s))\<rparr>\<rparr>"
      using True l CommitUploadLease assms(2) by (simp add: Let_def)
    moreover have "binding_names (?s\<lparr>leases := L\<rparr>) k b = binding_names s k b" for L k
      using names [of k] by (simp only: binding_names_def) simp
    ultimately show ?thesis
      using fresh l by (simp add: same_claims_def)
  next
    case False
    then show ?thesis
      using CommitUploadLease assms(2)
      by (cases "validate_commit bk s i a c e") (auto split: bool.splits)
  qed
next
  case (RequireReplicas bs n)
  then show ?thesis
    using assms by (auto simp: same_claims_def binding_names_def Let_def raise_untouched split: if_splits)
qed (use assms(2) in \<open>auto simp: same_claims_def binding_names_def cancel_def advance_def expire_def
      split: option.splits if_splits\<close>)

text \<open>
  C15.  Block fences cover every change of a claim on a block.  If a request changes which bindings
  name a block, its replica requirement, or a lease (record or deadline) over it, the block's fence
  is afterwards the log position of that request.  A reader that saw an older fence therefore knows
  its observation is stale; an unchanged fence means no new claim was made.
\<close>

theorem fences_cover_changes:
  assumes "state_inv bk s" and "apply_one bk s req = (s', r)" and "\<not> same_claims b s s'"
  shows "fmlookup (block_fences s') b = Some (applied_index s)"
  using assms(2)
proof (cases rule: apply_one_cases)
  case full
  then show ?thesis using assms(3) by simp
next
  case rejected
  then show ?thesis using assms(1,3) unfenced_rejected by fastforce
next
  case (accepted u)
  then have "\<not> same_claims b s u"
    using assms(3) by (simp add: same_claims_def binding_names_def)
  then have "b \<in> set (touched bk s req)"
    using untouched_same accepted(1) by blast
  then show ?thesis
    using accepted(3) by (simp add: fold_fmupd_lookup)
qed

section \<open>Replica requirements\<close>

lemma raise_requirements_reach:
  "b \<in> set bs \<Longrightarrow> \<exists>k\<ge>n. fmlookup (fold (raise_requirement n) bs m) b = Some k"
proof (induction bs arbitrary: m)
  case (Cons c bs)
  show ?case
  proof (cases "b \<in> set bs")
    case True
    then show ?thesis using Cons.IH by simp
  next
    case False
    then have "b = c" using Cons.prems by simp
    moreover have "fmlookup (fold (raise_requirement n) bs (raise_requirement n c m)) b
        = fmlookup (raise_requirement n c m) b"
      by (rule raise_untouched) (rule False)
    ultimately show ?thesis by (simp add: raise_requirement_lookup)
  qed
qed simp

text \<open>
  A replica requirement that was acknowledged is recorded.  When \<open>require_replicas\<close> returns \<open>Ok\<close>,
  whether by the leader's shortcut or by a write, every named block has a requirement of at least the
  requested number in the applied state, and later entries never lower or drop it.
\<close>

lemma require_replicas_recorded:
  assumes "applies_requests bk cw" and "state_inv bk s"
    and "require_replicas cw metrics linearizable bs n s = (Inr (), s')" and "b \<in> set bs"
    and "along in_order bk s' es"
  shows "\<exists>k\<ge>n. fmlookup (replica_requirements (fst (apply_entries bk s' es))) b = Some k"
proof -
  have "state_inv bk s' \<and> (\<exists>k\<ge>n. fmlookup (replica_requirements s') b = Some k)"
  proof (cases "current_leader metrics = Some (metrics_id metrics) \<and> list_all (already_required s n) bs")
    case True
    then have "s' = s"
      using assms(3) by (auto simp: require_replicas_def split: if_splits sum.splits)
    moreover have "already_required s n b"
      using True assms(4) by (simp add: list_all_iff)
    ultimately show ?thesis
      using assms(2) by (auto simp: already_required_def split: option.splits)
  next
    case False
    then have "cw (RequireReplicas bs n) s = (Inr ReplicasRequired, s')"
      using assms(3)
      by (auto simp: require_replicas_def call_defs
          split: if_splits sum.splits raft_error.splits prod.splits response.splits)
    with assms(1,2) obtain t u fs where run: "apply_one bk t (RequireReplicas bs n) = (u, ReplicasRequired)"
      "state_inv bk u" "along in_order bk u fs" "s' = fst (apply_entries bk u fs)"
      by (rule applies_requestsE)
    obtain v where v: "apply_unfenced bk t (RequireReplicas bs n) = (v, ReplicasRequired)"
      "replica_requirements u = replica_requirements v"
      using run(1) by (rule apply_one_acked) auto
    have "\<exists>k\<ge>n. fmlookup (replica_requirements u) b = Some k"
      using v raise_requirements_reach [OF assms(4)] by (auto simp: Let_def split: if_splits)
    then show ?thesis
      using growth.run_related [OF run(2,3)] metadata.run [OF run(2,3)]
      unfolding run(4) progressed_def raised_def by (meson order_trans)
  qed
  then show ?thesis
    using growth.run_related [OF _ assms(5)] unfolding progressed_def raised_def
    by (meson order_trans)
qed

section \<open>Counters\<close>

lemma fmsize_card: "fmsize m = card {k. fmlookup m k \<noteq> None}"
proof -
  have "fset (fmdom m) = {k. fmlookup m k \<noteq> None}"
    by (auto simp: fmlookup_dom_iff)
  then show ?thesis
    by (simp add: fmsize_def fcard.rep_eq)
qed

lemma count_keys_card:
  "count_keys P L = card {i. \<exists>l. fmlookup (records L) i = Some l \<and> P i l}"
proof -
  have "fset (ffilter (\<lambda>i. P i (the (fmlookup (records L) i))) (fmdom (records L)))
      = {i. \<exists>l. fmlookup (records L) i = Some l \<and> P i l}"
    by (auto simp: fmlookup_dom_iff)
  then show ?thesis
    by (simp add: count_keys_def fcard.rep_eq)
qed

definition in_phase :: "lease_state \<Rightarrow> lease_phase \<Rightarrow> block_id set" where
  "in_phase L p = {i. phase L i = p}"

lemma finite_in_phase: "p \<noteq> Absent \<Longrightarrow> finite (in_phase L p)"
proof -
  assume "p \<noteq> Absent"
  then have "in_phase L p \<subseteq> fset (fmdom (records L))"
    by (auto simp: in_phase_def fmlookup_dom_iff phase_def split: option.splits)
  then show ?thesis
    by (rule finite_subset) simp
qed

lemma phase_cards:
  assumes "validate bk L = Inr ()"
  shows "fmsize (records L) = card (in_phase L Pending) + card (in_phase L Committed)
           + card (in_phase L Cancelled) + card (in_phase L Expired)"
    and "count_keys (\<lambda>_ l. committed l \<noteq> None) L = card (in_phase L Committed)"
    and "count_keys (\<lambda>i _. is_expired L i) L = card (in_phase L Expired)"
    and "fmsize (cancelled L) = card (in_phase L Cancelled)"
proof -
  let ?ph = "\<lambda>p. in_phase L p"
  have "{i. fmlookup (records L) i \<noteq> None} = ((?ph Pending \<union> ?ph Committed) \<union> ?ph Cancelled) \<union> ?ph Expired"
    by (auto simp: in_phase_def phase_def split: option.splits if_splits)
  moreover have "card (((?ph Pending \<union> ?ph Committed) \<union> ?ph Cancelled) \<union> ?ph Expired)
      = card (?ph Pending) + card (?ph Committed) + card (?ph Cancelled) + card (?ph Expired)"
    by (subst card_Un_disjoint, (auto simp: in_phase_def finite_in_phase [unfolded in_phase_def])[3])+ simp
  ultimately show "fmsize (records L) = card (in_phase L Pending) + card (in_phase L Committed)
           + card (in_phase L Cancelled) + card (in_phase L Expired)"
    by (simp add: fmsize_card)
  show "count_keys (\<lambda>_ l. committed l \<noteq> None) L = card (in_phase L Committed)"
    by (simp add: count_keys_card in_phase_def phase_iff)
  have "{i. \<exists>l. fmlookup (records L) i = Some l \<and> is_expired L i} = {i. is_expired L i}"
    by (auto simp: is_expired_iff)
  then show "count_keys (\<lambda>i _. is_expired L i) L = card (in_phase L Expired)"
    by (simp add: count_keys_card in_phase_def phase_iff)
  have "{i. fmlookup (cancelled L) i \<noteq> None} = in_phase L Cancelled"
    using assms by (auto simp: in_phase_def phase_iff validate_expand)
  then show "fmsize (cancelled L) = card (in_phase L Cancelled)"
    by (simp add: fmsize_card)
qed

lemma unat_small: "n \<le> 4096 \<Longrightarrow> unat (of_nat n :: u64) = n"
  by (simp add: unat_of_nat)

text \<open>
  The lease counters partition the leases.  In every state the store can hold, the \<^verbatim>\<open>usize\<close>
  subtractions of \<open>status_counts\<close> do not wrap; each counter is the number of leases in that phase, the
  four add up to the total, and the total is at most 4096.
\<close>

lemma status_counts_partition:
  assumes "state_inv bk s"
  shows "let c = status_counts (leases s)
         in unat (pending_count c) = card (in_phase (leases s) Pending)
          \<and> unat (committed_count c) = card (in_phase (leases s) Committed)
          \<and> unat (cancelled_count c) = card (in_phase (leases s) Cancelled)
          \<and> unat (expired_count c) = card (in_phase (leases s) Expired)
          \<and> unat (total_count c) = unat (pending_count c) + unat (committed_count c)
               + unat (cancelled_count c) + unat (expired_count c)
          \<and> unat (total_count c) \<le> 4096"
proof -
  let ?L = "leases s"
  have valid: "validate bk ?L = Inr ()"
    using state_inv_maps(1) [OF assms] .
  note cards = phase_cards [OF valid]
  have max: "fmsize (records ?L) \<le> 4096"
    using valid by (simp add: validate_iff lease_limits)
  have "of_nat (fmsize (records ?L)) - of_nat (card (in_phase ?L Committed))
      - of_nat (card (in_phase ?L Expired)) - of_nat (card (in_phase ?L Cancelled))
      = (of_nat (card (in_phase ?L Pending)) :: u64)"
    by (simp add: cards(1))
  then have pending: "pending_count (status_counts ?L) = of_nat (card (in_phase ?L Pending))"
    by (simp only: status_counts_def Let_def cards(2-4) lease_status_counts.simps)
  have total: "unat (total_count (status_counts ?L)) = fmsize (records ?L)"
    unfolding status_counts_def Let_def by (simp only: lease_status_counts.simps unat_small [OF max])
  show ?thesis
    unfolding Let_def total pending
    using cards max by (simp add: status_counts_def Let_def unat_small)
qed

section \<open>Reclamation evidence\<close>

definition leases_naming :: "lease_state \<Rightarrow> block_id \<Rightarrow> lease_phase \<Rightarrow> block_id set" where
  "leases_naming L b p =
     {i. phase L i = p \<and> (\<exists>l. fmlookup (records L) i = Some l \<and> b \<in> set (lease_blocks l))}"

lemma count_lease_fold:
  assumes "\<And>i l. (i, l) \<in> set es \<Longrightarrow> fmlookup (records L) i = Some l"
  shows "fold (count_lease L b) es (p, c, x, d) =
    (let n = (\<lambda>q. length (filter (\<lambda>(i, l). b \<in> set (lease_blocks l) \<and> phase L i = q) es))
     in (p + n Pending, c + n Committed, x + n Cancelled, d + n Expired))"
  using assms
proof (induction es arbitrary: p c x d)
  case (Cons e es)
  obtain i l where e: "e = (i, l)" by fastforce
  with Cons.prems have rec: "fmlookup (records L) i = Some l" by simp
  have "\<And>i l. (i, l) \<in> set es \<Longrightarrow> fmlookup (records L) i = Some l"
    using Cons.prems by simp
  note IH = Cons.IH [OF this]
  have "phase L i = (if committed l \<noteq> None then Committed
      else if contains_key (cancelled L) i then Cancelled
      else if is_expired L i then Expired else Pending)"
    by (simp add: phase_def rec)
  moreover note count_lease_def [of L b "(i, l)" "(p, c, x, d)"]
  ultimately show ?case
    by (simp add: e IH Let_def)
qed simp

lemma count_naming:
  "length (filter (\<lambda>(i, l). b \<in> set (lease_blocks l) \<and> phase L i = p) (btree_entries (records L)))
     = card (leases_naming L b p)"
proof -
  let ?es = "filter (\<lambda>(i, l). b \<in> set (lease_blocks l) \<and> phase L i = p) (btree_entries (records L))"
  have "distinct (map fst ?es)"
    by (rule distinct_map_filter) (rule sorted_btree_entries(2))
  then have "length ?es = card (set (map fst ?es))"
    using distinct_card by fastforce
  also have "set (map fst ?es) = leases_naming L b p"
    by (force simp: leases_naming_def set_btree_entries)
  finally show ?thesis .
qed

text \<open>
  The evidence gathered for a block counts, for each phase, exactly the leases in that phase that
  name the block; its reference count, requirement and fence are those of the replicated state.
\<close>

theorem evidence_counts_leases:
  "evidence_of s b =
     \<lparr>ev_last_applied = last_applied s, ev_logical_tick = clock (leases s),
      ev_fence = fmlookup (block_fences s) b, ev_references = block_ref_count s b,
      ev_required_replicas = (case fmlookup (replica_requirements s) b of None \<Rightarrow> 0 | Some n \<Rightarrow> n),
      ev_pending = card (leases_naming (leases s) b Pending),
      ev_committed = card (leases_naming (leases s) b Committed),
      ev_cancelled = card (leases_naming (leases s) b Cancelled),
      ev_expired = card (leases_naming (leases s) b Expired)\<rparr>"
proof -
  have "\<And>i l. (i, l) \<in> set (btree_entries (records (leases s))) \<Longrightarrow> fmlookup (records (leases s)) i = Some l"
    by (simp add: set_btree_entries)
  from count_lease_fold [OF this] show ?thesis
    by (simp add: evidence_of_def Let_def count_naming)
qed

section \<open>The live set\<close>

lemma bound_blocks_iff: "b |\<in>| bound_blocks s \<longleftrightarrow> (\<exists>k. binding_names s k b)"
proof -
  have "b |\<in>| bound_blocks s \<longleftrightarrow> (\<exists>r. r |\<in>| fmran (bindings s) \<and> b \<in> set (binding_blocks r))"
    by (auto simp: bound_blocks_def ffUnion.rep_eq fset_of_list.rep_eq)
  then show ?thesis
    by (auto simp: binding_names_def fmlookup_ran_iff split: option.splits)
qed

text \<open>
  The garbage collector's live set and the reference counters agree.  Along every run in which
  fewer than \<open>2\<^sup>3\<^sup>2\<close> blocks are named, a block is in \<open>bound_blocks\<close> iff its reference count is not zero,
  iff it is in \<open>shared_blocks 1\<close>, in whatever order the hash map is iterated.
\<close>

lemma live_set_agrees:
  assumes "along refs_fit bk default_state es" and "s = fst (apply_entries bk default_state es)"
    and "set (iter (block_refs s)) = {(b, n). fmlookup (block_refs s) b = Some n}"
  shows "(b |\<in>| bound_blocks s \<longleftrightarrow> block_ref_count s b \<noteq> 0)
       \<and> (b |\<in>| bound_blocks s \<longleftrightarrow> b \<in> set (shared_blocks iter s 1))"
proof -
  have "refs_exact s \<and> total_references s < 2 ^ 32"
    unfolding assms(2) by (rule refcounts.run [OF _ assms(1)])
      (simp add: default_state_def refs_exact_def total_references_def counts_def references_def fmsum_def)
  then have refs: "counts (references (bindings s)) (block_refs s)"
    and small: "references (bindings s) b < 2 ^ 32" for b
    using references_le_total [of s b] by (auto simp: refs_exact_def intro: le_less_trans)
  have "(\<exists>k. binding_names s k b) \<longleftrightarrow> 0 < references (bindings s) b"
    unfolding references_pos_iff by (auto simp: binding_names_def split: option.splits)
  moreover have "(of_nat n :: u32) \<noteq> 0 \<and> 1 \<le> (of_nat n :: u32)" if "0 < n" "n < 2 ^ 32" for n
    using unat_of_nat_u32 [OF that(2)] that(1)
    by (auto simp: word_le_nat_alt simp flip: unat_0_iff)
  ultimately show ?thesis
    using refs small [of b] assms(3)
    by (auto simp: bound_blocks_iff block_ref_count_def shared_blocks_def counts_def image_iff)
qed

section \<open>Witnesses\<close>

definition leased :: metadata_state where
  "leased = fst (apply_entries (\<lambda>_. []) default_state two_leases)"

lemma leased_inv: "state_inv (\<lambda>_. []) leased"
  unfolding leased_def by (rule metadata.run [OF state_inv_default two_leases_run(4)])

lemmas leased_run = two_leases_run [folded leased_def]

definition after_cancel :: "(raft_error + response) \<times> metadata_state" where
  "after_cancel = direct_write (\<lambda>_. []) (CancelUploadLease lease_one the_agent) leased"

lemma after_cancel_run:
  "direct_write (\<lambda>_. []) (CancelUploadLease lease_one the_agent) leased
     = (Inr LeaseCancelled, snd after_cancel)"
  by (simp add: after_cancel_def prod_eq_iff)
    (simp add: direct_write_def apply_entry_def entry_at_def apply_one_def cancel_def
      leased_run is_expired_def MAX_BLOCK_FENCES_def Let_def split_def)

theorem calls_report_verdict_witness:
  "cancel_upload_lease (direct_write (\<lambda>_. [])) lease_one the_agent leased = (Inr (), snd after_cancel)"
  using calls_report_verdict [OF direct_write_applies leased_inv] after_cancel_run by fastforce

theorem acknowledged_leases_persist_witness:
  "phase (leases (snd (cancel_upload_lease (direct_write (\<lambda>_. [])) lease_one the_agent leased))) lease_one
   = Cancelled"
proof -
  let ?result = "cancel_upload_lease (direct_write (\<lambda>_. [])) lease_one the_agent leased"
  have "?result = (Inr (), snd ?result)"
    by (simp add: call_defs after_cancel_run)
  then show ?thesis
    using acknowledged_leases_persist [OF direct_write_applies leased_inv] by blast
qed

lemma replicated_facts_grow_witness:
  "kept (cancelled (leases (fst (apply_entries (\<lambda>_. []) default_state
        (two_leases @ [entry_at 4 (CancelUploadLease lease_one the_agent)])))))
     (cancelled (leases (fst (apply_entries (\<lambda>_. []) default_state
        ((two_leases @ [entry_at 4 (CancelUploadLease lease_one the_agent)])
          @ [entry_at 5 (CancelUploadLease lease_one the_agent)])))))"
proof -
  have "along in_order (\<lambda>_. []) default_state
      ((two_leases @ [entry_at 4 (CancelUploadLease lease_one the_agent)])
        @ [entry_at 5 (CancelUploadLease lease_one the_agent)])"
    by (simp add: run_simps)
  from replicated_facts_grow [OF this] show ?thesis
    by (simp add: progressed_def)
qed

theorem fences_cover_changes_witness:
  "fmlookup (block_fences (fst (apply_one (\<lambda>_. []) leased (RequireReplicas [lease_two] 2)))) lease_two
   = Some 3"
proof -
  let ?result = "apply_one (\<lambda>_. []) leased (RequireReplicas [lease_two] 2)"
  have "fmlookup (replica_requirements leased) b = None" for b
    by (simp add: leased_def run_simps)
  moreover have "fmsize (replica_requirements leased) = 0" and pos: "applied_index leased = 3"
    by (simp_all add: leased_def run_simps)
  ultimately have "fmlookup (replica_requirements (fst ?result)) lease_two = Some 2"
    by (simp add: apply_one_def leased_run MAX_BLOCK_FENCES_def MAX_REPLICA_REQUIREMENTS_def
        raise_requirement_def fm_simps Let_def)
  then have "\<not> same_claims lease_two leased (fst ?result)"
    using \<open>\<And>b. fmlookup (replica_requirements leased) b = None\<close> by (simp add: same_claims_def)
  then show ?thesis
    using fences_cover_changes [OF leased_inv, of "RequireReplicas [lease_two] 2"] pos
    by (metis prod.collapse)
qed

lemma require_replicas_recorded_witness:
  "\<exists>k\<ge>2. fmlookup (replica_requirements (snd (require_replicas (direct_write (\<lambda>_. []))
     \<lparr>metrics_id = 1, current_leader = None, member_nodes = []\<rparr> (Inr ()) [lease_two] 2 leased))) lease_two
   = Some k"
proof -
  let ?result = "require_replicas (direct_write (\<lambda>_. []))
     \<lparr>metrics_id = 1, current_leader = None, member_nodes = []\<rparr> (Inr ()) [lease_two] 2 leased"
  have "replica_requirements leased = fmempty"
    by (simp add: leased_def run_simps)
  then have "?result = (Inr (), snd ?result)"
    by (simp add: require_replicas_def call_defs direct_write_def apply_entry_def entry_at_def
        apply_one_def leased_run MAX_BLOCK_FENCES_def MAX_REPLICA_REQUIREMENTS_def
        raise_requirement_def fm_simps Let_def)
  from require_replicas_recorded [OF direct_write_applies leased_inv this, of lease_two "[]"]
  show ?thesis by simp
qed

lemma status_counts_partition_witness:
  "unat (pending_count (status_counts (leases leased))) = card (in_phase (leases leased) Pending)"
  using status_counts_partition [OF leased_inv] by (simp add: Let_def)

lemma live_set_agrees_witness:
  "the_block |\<notin>| bound_blocks leased"
proof -
  have "along refs_fit (\<lambda>_. []) default_state two_leases"
    by (simp add: run_simps refs_fit_def total_references_def)
  moreover have "block_refs leased = fmempty"
    by (simp add: leased_def run_simps)
  ultimately show ?thesis
    using live_set_agrees [of "\<lambda>_. []" two_leases leased "\<lambda>_. []" the_block]
    by (simp add: leased_def block_ref_count_def)
qed

end
