(* ===== verification/Node_Restart.thy ===== *)
theory Node_Restart
  imports Control_Properties
begin

text \<open>
  The Raft log, the snapshot file and the start-up check together: a node never starts with a gap
  between its snapshot and its log, and a node that purges only what its snapshot covers always
  starts again.
\<close>

section \<open>Files of the other store\<close>

lemma persist_meta_other:
  assumes "fs_ok fs" and "durable_as fs name c" and "name \<noteq> META_FILE" and "name \<noteq> pending_name META_FILE"
    and "persist_meta lc fault st fs = (r, fs')"
  shows "durable_as fs' name c" and "fs_ok fs'"
proof -
  have "fs' = fs \<or> (\<exists>n m bs. fs' = publish_upto n m (pending_name META_FILE) META_FILE bs fs)"
    using assms(5) replace_stops [of fault META_FILE]
    by (auto simp: persist_meta_def replace_upto_def split: if_splits sum.splits) (metis snd_conv)
  then show "durable_as fs' name c" and "fs_ok fs'"
    using assms(1-4) publish_other publish_fs_ok by metis+
qed

lemma rewrite_other:
  assumes "fs_ok fs" and "durable_as fs LOG_FILE (Some old)" and "durable_as fs name c"
    and "name \<noteq> LOG_FILE" and "name \<noteq> LOG_TMP" and "rewrite_log lc fault st fs = (r, st', fs')"
  shows "durable_as fs' name c"
proof -
  have "\<exists>n m bs. fs' = fs \<or> fs' = publish_upto n m LOG_TMP LOG_FILE bs fs"
  proof -
    obtain bs err where enc: "encode_lines lc (map snd (btree_entries (log st))) = (bs, err)" by fastforce
    have "durable_as (publish_upto 5 0 LOG_TMP LOG_FILE bs fs) LOG_FILE (Some bs)"
      using publish_done(1) [OF assms(1,2)] by simp
    then have "snd (open_append LOG_FILE (publish_upto 5 0 LOG_TMP LOG_FILE bs fs))
        = publish_upto 5 0 LOG_TMP LOG_FILE bs fs"
      by (auto simp: open_append_def durable_as_def split: option.splits)
    then show ?thesis
      using assms(6) enc
      by (auto simp: rewrite_log_def Let_def split_def split: if_splits option.splits fault.splits)
  qed
  then show ?thesis
    using publish_other [OF assms(1,3,5,4)] assms(3) by metis
qed

lemma purge_other:
  assumes "log_ok lc st fs" and "durable_as fs name c" and "name \<notin> {META_FILE, pending_name META_FILE, LOG_FILE, LOG_TMP}"
    and "purge_log lc meta_fault fault l st fs = (r, st', fs')"
  shows "durable_as fs' name c"
proof -
  obtain bs where ok: "fs_ok fs" "durable_as fs LOG_FILE (Some bs)"
    using assms(1) by (auto simp: log_ok_def)
  let ?new = "st\<lparr>last_purged := Some l, log := fmfilter (\<lambda>i. log_index l < i) (log st)\<rparr>"
  obtain q fs1 where p: "persist_meta lc meta_fault ?new fs = (q, fs1)" by fastforce
  have mid: "durable_as fs1 name c" "fs_ok fs1" "durable_as fs1 LOG_FILE (Some bs)"
    using persist_meta_other [OF ok(1) assms(2) _ _ p] persist_meta_other(1) [OF ok(1,2) _ _ p] assms(3)
    by auto
  show ?thesis
  proof (cases q)
    case (Inl e)
    then show ?thesis using assms(4) p mid by (simp add: purge_log_def)
  next
    case (Inr u)
    then show ?thesis
      using rewrite_other [OF mid(2,3,1)] assms(3,4) p by (simp add: purge_log_def)
  qed
qed

text \<open>Opening the log touches no other file.\<close>

lemma open_log_reads:
  assumes "open_log lc NoFault fs = (Inr st, fs')" and "fs_ok fs" and "name \<noteq> LOG_FILE"
  shows "read_file fs' name = read_file fs name"
proof -
  obtain i opened where op: "open_append LOG_FILE fs = (i, opened)" by fastforce
  have "fmlookup (dir fs) name \<noteq> Some (next_inode fs)"
    using assms(2) unfolding fs_ok_def by blast
  then have "read_file opened name = read_file fs name"
    using op assms(3) by (auto simp: open_append_def read_file_def map_option_case split: option.splits)
  moreover obtain n where "fs' = sync_directory (sync_file i (set_len i n opened))"
    using assms(1) op by (auto simp: open_log_def Let_def split: sum.splits prod.splits)
  ultimately show ?thesis
    using open_append_inode(4) [OF op assms(2,3)]
    by (auto simp: read_file_def sync_directory_def sync_file_def set_len_def map_option_case split: option.splits)
qed

text \<open>A recovered log and a snapshot that covers its purge position start the node.\<close>

lemma start_recovers:
  assumes "recovers lc fs meta m" and "fs_ok fs" and "read_file fs SNAPSHOT_FILE = snap"
    and "holds_snapshot bk c j snap s" and "last_applied s = Some a"
    and "\<forall>p. meta_last_purged meta = Some p \<longrightarrow> log_index p \<le> log_index a"
  shows "\<exists>ls sm. fst (start_node bk c j lc NoFault (Some fs)) = Ok (Inr (ls, sm)) \<and> state sm = s
    \<and> meta_of_store ls = meta"
proof -
  obtain ls fs3 where ls: "open_log lc NoFault fs = (Inr ls, fs3)" "meta_of_store ls = meta"
    using assms(1) by (auto simp: recovers_def)
  have "read_file fs3 SNAPSHOT_FILE = snap"
    using open_log_reads [OF ls(1) assms(2)] assms(3) by (simp add: SNAPSHOT_FILE_def log_names)
  then obtain sm where sm: "open_store bk c j fs3 = Ok sm" "state sm = s"
    using open_holds assms(4) by metis
  have "\<forall>p. last_purged ls = Some p \<longrightarrow> log_index p \<le> log_index a"
    using ls(2) assms(6) by (auto simp: meta_of_store_def)
  then have "covers_purged ls sm"
    using sm(2) assms(5) by (auto simp: covers_purged_def get_log_state_def split: option.splits)
  then show ?thesis
    using ls sm by (simp add: start_node_def)
qed

section \<open>Properties\<close>

text \<open>
  A node never starts with a gap.  \<open>start_node\<close> does not panic, and when it succeeds on a data
  directory whose log was purged up to some position, the recovered state machine has applied at
  least that position; otherwise the start is refused.
\<close>

lemma start_without_gap:
  "fst (start_node bk c j lc fault data_dir) \<noteq> Panicked
   \<and> (fst (start_node bk c j lc fault data_dir) = Ok (Inr (ls, sm)) \<longrightarrow> last_purged ls = Some p \<longrightarrow>
        (\<exists>a. last_applied (state sm) = Some a \<and> log_index p \<le> log_index a))"
proof -
  have "open_store bk c j fs \<noteq> Panicked" for fs
    using decode_no_panic [of bk c]
    by (auto simp: open_store_def Let_def split: option.splits sum.splits outcome.splits)
  then show ?thesis
    by (auto simp: start_node_def covers_purged_def get_log_state_def in_memory_def
        split: option.splits sum.splits outcome.splits prod.splits if_splits)
qed

text \<open>
  C13.  Purging never strands a node.  Suppose the snapshot file durably holds a state that covers the
  earlier purge position, and the log is purged up to a position this state has applied.  Whichever
  call of the purge fails, and after any crash, \<open>start_node\<close> succeeds with exactly that state.
\<close>

theorem purge_never_strands:
  assumes "log_codec_ok lc" and "log_ok lc st fs" and "durable_as fs SNAPSHOT_FILE snap"
    and "holds_snapshot bk c j snap s" and "last_applied s = Some a"
    and "\<forall>p. last_purged st = Some p \<longrightarrow> log_index p \<le> log_index a" and "log_index l \<le> log_index a"
    and "purge_log lc meta_fault fault l st fs = (r, st', fs')" and "crash fs' fs''"
  shows "\<exists>ls sm. fst (start_node bk c j lc NoFault (Some fs'')) = Ok (Inr (ls, sm)) \<and> state sm = s"
proof -
  have "SNAPSHOT_FILE \<notin> {META_FILE, pending_name META_FILE, LOG_FILE, LOG_TMP}"
    by (simp add: SNAPSHOT_FILE_def log_names)
  then have "durable_as fs' SNAPSHOT_FILE snap"
    using purge_other [OF assms(2,3) _ assms(8)] by simp
  then have found: "read_file fs'' SNAPSHOT_FILE = snap"
    using crash_stable assms(9) by blast
  obtain meta m where rec: "recovers lc fs'' meta m"
    and meta: "meta = meta_of_store st \<or> meta = (meta_of_store st)\<lparr>meta_last_purged := Some l\<rparr>"
    using purge_recovers(1) [OF assms(1,2,8,9)] by blast
  have "\<forall>p. meta_last_purged meta = Some p \<longrightarrow> log_index p \<le> log_index a"
    using meta assms(6,7) by (auto simp: meta_of_store_def)
  from start_recovers [OF rec crash_settled(1) [OF assms(9)] found assms(4,5) this]
  show ?thesis by blast
qed

definition node_fs :: file_system where
  "node_fs =
     \<lparr>dir = fmupd SNAPSHOT_FILE 1 (fmupd LOG_FILE 0 fmempty),
      disk_dir = fmupd SNAPSHOT_FILE 1 (fmupd LOG_FILE 0 fmempty),
      contents = (\<lambda>i. if i = 0 then [1, NEWLINE] else [9]),
      disk_contents = (\<lambda>i. if i = 0 then [1, NEWLINE] else [9]), next_inode = 2\<rparr>"

lemma snapshot_name [simp]: "SNAPSHOT_FILE \<noteq> LOG_FILE" "SNAPSHOT_FILE \<noteq> META_FILE"
  "LOG_FILE \<noteq> SNAPSHOT_FILE" "META_FILE \<noteq> SNAPSHOT_FILE"
  by (simp_all add: SNAPSHOT_FILE_def log_names)

lemma node_fs_ok:
  "fs_ok node_fs" "log_ok example_log_codec example_log_store node_fs"
  "durable_as node_fs SNAPSHOT_FILE (Some [9])" "crash node_fs node_fs"
proof -
  show ok: "fs_ok node_fs"
    by (auto simp: fs_ok_def node_fs_def split: if_splits)
  then show "crash node_fs node_fs"
    by (intro crash_refl) (simp_all add: node_fs_def)
  show "durable_as node_fs SNAPSHOT_FILE (Some [9])"
    by (auto simp: durable_as_def node_fs_def split: if_splits)
  have "durable_as node_fs LOG_FILE (Some [1, NEWLINE])" "durable_as node_fs META_FILE None"
    by (auto simp: durable_as_def node_fs_def split: if_splits)
  with ok example_log_ok show "log_ok example_log_codec example_log_store node_fs"
    by (force simp: log_ok_def durable_as_def node_fs_def example_log_fs_def)
qed

lemma example_snapshot:
  defines "s \<equiv> example_state (\<lambda>_. [])"
  shows "holds_snapshot (\<lambda>_. []) (one_state_codec s) (one_file_json (example_durable (\<lambda>_. []))) (Some [9]) s"
    and "last_applied s = Some \<lparr>leader_round = 1, leader_node = 1, log_index = 2\<rparr>"
proof -
  let ?c = "one_state_codec s"
  have "state_inv (\<lambda>_. []) s"
    unfolding s_def example_state_def by (rule metadata.run [OF state_inv_default example_in_order])
  moreover have "\<And>bs. encode_v6 ?c s = Inr bs \<Longrightarrow> decode_v6 ?c bs = Inr (s, length bs)"
    by (simp add: one_state_codec_def split: if_splits)
  ultimately show "holds_snapshot (\<lambda>_. []) ?c (one_file_json (example_durable (\<lambda>_. []))) (Some [9]) s"
    using decode_own_snapshot [of "\<lambda>_. []" s ?c "[7]" "''s''"]
    by (simp add: holds_snapshot_def one_file_json_def example_durable_def one_state_codec_def flip: s_def)
  show "last_applied s = Some \<lparr>leader_round = 1, leader_node = 1, log_index = 2\<rparr>"
    by (simp add: s_def example_state_def example_entries_def apply_entry_def apply_one_def default_state_def)
qed

text \<open>The same node after a purge of the first entry.\<close>

definition purged_fs :: file_system where
  "purged_fs = node_fs\<lparr>dir := fmupd META_FILE 2 (dir node_fs), disk_dir := fmupd META_FILE 2 (disk_dir node_fs),
     contents := (contents node_fs)(2 := [3]), disk_contents := (disk_contents node_fs)(2 := [3]), next_inode := 3\<rparr>"

lemma purged_fs_ok:
  "fs_ok purged_fs" "crash purged_fs purged_fs" "read_file purged_fs SNAPSHOT_FILE = Some [9]"
  "recovers example_log_codec purged_fs
     (default_meta\<lparr>meta_last_purged := Some (entry_log_id (blank_entry 1))\<rparr>) (log example_log_store)"
proof -
  show ok: "fs_ok purged_fs"
    by (auto simp: fs_ok_def purged_fs_def node_fs_def split: if_splits)
  then show crash: "crash purged_fs purged_fs"
    by (intro crash_refl) (simp_all add: purged_fs_def node_fs_def)
  show "read_file purged_fs SNAPSHOT_FILE = Some [9]"
    by (simp add: read_file_def purged_fs_def node_fs_def)
  have "log_holds example_log_codec [1, NEWLINE] (log example_log_store)"
    unfolding log_holds_def
    by (rule exI [of _ "[blank_entry 1]"])
      (simp add: example_log_codec_def example_log_store_def insert_entry_def blank_entry_def)
  then show "recovers example_log_codec purged_fs
     (default_meta\<lparr>meta_last_purged := Some (entry_log_id (blank_entry 1))\<rparr>) (log example_log_store)"
    by (intro file_recovers [OF example_log_codec_ok crash, of "[1, NEWLINE]"])
      (simp_all add: read_file_def purged_fs_def node_fs_def meta_holds_def example_log_codec_def)
qed

lemma start_without_gap_witness:
  "\<exists>ls sm a. fst (start_node (\<lambda>_. []) (one_state_codec (example_state (\<lambda>_. [])))
      (one_file_json (example_durable (\<lambda>_. []))) example_log_codec NoFault (Some purged_fs))
      = Ok (Inr (ls, sm)) \<and> last_purged ls = Some (entry_log_id (blank_entry 1))
    \<and> last_applied (state sm) = Some a \<and> 1 \<le> log_index a"
proof -
  obtain ls sm where start: "fst (start_node (\<lambda>_. []) (one_state_codec (example_state (\<lambda>_. [])))
      (one_file_json (example_durable (\<lambda>_. []))) example_log_codec NoFault (Some purged_fs)) = Ok (Inr (ls, sm))"
    and meta: "meta_of_store ls = default_meta\<lparr>meta_last_purged := Some (entry_log_id (blank_entry 1))\<rparr>"
    using start_recovers [OF purged_fs_ok(4,1,3) example_snapshot] by (auto simp: blank_entry_def)
  have purged: "last_purged ls = Some (entry_log_id (blank_entry 1))"
    using arg_cong [OF meta, of meta_last_purged] by (simp add: meta_of_store_def)
  then obtain a where "last_applied (state sm) = Some a" "log_index (entry_log_id (blank_entry 1)) \<le> log_index a"
    using start_without_gap start by blast
  with start purged show ?thesis by (auto simp: blank_entry_def)
qed

theorem purge_never_strands_witness:
  "\<exists>ls sm. fst (start_node (\<lambda>_. []) (one_state_codec (example_state (\<lambda>_. [])))
      (one_file_json (example_durable (\<lambda>_. []))) example_log_codec NoFault (Some node_fs))
      = Ok (Inr (ls, sm)) \<and> state sm = example_state (\<lambda>_. [])"
proof -
  let ?l = "entry_log_id (blank_entry 1)"
  have run: "purge_log example_log_codec (FaultAt 0 0) NoFault ?l example_log_store node_fs
      = (Inl ''io error'', example_log_store\<lparr>last_purged := Some ?l, log := fmfilter (\<lambda>i. log_index ?l < i) (log example_log_store)\<rparr>, node_fs)"
    unfolding example_log_store_def
    by (simp add: purge_log_def persist_meta_def replace_def replace_upto_def publish_upto_def
        example_log_codec_def default_meta_def Let_def)
  show ?thesis
    by (rule purge_never_strands [OF example_log_codec_ok node_fs_ok(2,3) example_snapshot _ _ run node_fs_ok(4)])
      (simp_all add: example_log_store_def blank_entry_def)
qed

end
