(* ===== verification/Manifest.thy ===== *)
theory Manifest
  imports Log_Recovery
begin

text \<open>
  \<^verbatim>\<open>kalpak-storage/src/manifest.rs\<close>: the prefix manifest, a map from cache keys to block lists with an
  append-only log of JSON lines, over the file system of \<open>Durability\<close>.  The JSON codec and the check
  that a line is UTF-8 are arguments.  The file handle writes at its position, which is the end of the
  file after opening and after every write.
\<close>

section \<open>State and codec\<close>

type_synonym manifest_binding = "cache_key \<times> block_id list"

record manifest =
  mf_map :: "(cache_key, block_id list) fmap"
  mf_log :: nat

record manifest_codec =
  binding_json :: "manifest_binding \<Rightarrow> bytes"
  binding_parse :: "bytes \<Rightarrow> manifest_binding option"
  utf8 :: "bytes \<Rightarrow> bool"

definition LOG_NAME :: string where "LOG_NAME = ''manifest.jsonl''"

text \<open>\<^verbatim>\<open>trim_end\<close>; the spaces beyond ASCII never end a line that \<open>bind\<close> wrote.\<close>

definition is_space :: "u8 \<Rightarrow> bool" where
  "is_space b \<longleftrightarrow> b \<in> {9, 10, 11, 12, 13, 32}"

definition trim_end :: "bytes \<Rightarrow> bytes" where
  "trim_end l = rev (dropWhile is_space (rev l))"

section \<open>Operations\<close>

fun replay_manifest ::
  "manifest_codec \<Rightarrow> bytes list \<Rightarrow> (cache_key, block_id list) fmap \<Rightarrow> nat
     \<Rightarrow> error + (cache_key, block_id list) fmap \<times> nat" where
  "replay_manifest c [] m n = Inr (m, n)"
| "replay_manifest c (l # ls) m n =
     (if \<not> utf8 c l then Inl (Io ''stream did not contain valid UTF-8'')
      else case binding_parse c (trim_end l) of
             None \<Rightarrow> Inr (m, n)
           | Some (k, bs) \<Rightarrow> replay_manifest c ls (fmupd k bs m) (n + length l))"

text \<open>Opening: the calls that may fail are open, read, seek and \<^verbatim>\<open>set_len\<close>.\<close>

definition open_manifest :: "manifest_codec \<Rightarrow> fault \<Rightarrow> file_system \<Rightarrow> (error + manifest) \<times> file_system" where
  "open_manifest c fault fs =
     (let (i, opened) = open_append LOG_NAME fs in
      case fault of
        FaultAt 0 _ \<Rightarrow> (Inl (Io ''open''), fs)
      | FaultAt (Suc 0) _ \<Rightarrow> (Inl (Io ''read''), opened)
      | _ \<Rightarrow>
          (case replay_manifest c (split_inclusive NEWLINE (contents opened i)) fmempty 0 of
             Inl e \<Rightarrow> (Inl e, opened)
           | Inr (m, valid_end) \<Rightarrow>
               (case fault of
                  FaultAt n _ \<Rightarrow>
                    if n < 4 then (Inl (Io ''set_len''), opened)
                    else (Inr \<lparr>mf_map = m, mf_log = i\<rparr>, set_len i valid_end opened)
                | NoFault \<Rightarrow> (Inr \<lparr>mf_map = m, mf_log = i\<rparr>, set_len i valid_end opened))))"

definition bind_manifest ::
  "manifest_codec \<Rightarrow> fault \<Rightarrow> manifest_binding \<Rightarrow> manifest \<Rightarrow> file_system \<Rightarrow> (error + unit) \<times> manifest \<times> file_system" where
  "bind_manifest c fault b mf fs =
     (let line = binding_json c b;
          one = write_append (mf_log mf) line fs;
          two = write_append (mf_log mf) [NEWLINE] one;
          bound = (Inr (), mf\<lparr>mf_map := fmupd (fst b) (snd b) (mf_map mf)\<rparr>, sync_file (mf_log mf) two)
      in case fault of
           NoFault \<Rightarrow> bound
         | FaultAt n m \<Rightarrow>
             if n = 0 then (Inl (Io ''write''), mf, write_append (mf_log mf) (take m line) fs)
             else if n = 1 then (Inl (Io ''write''), mf, one)
             else if n = 2 then (Inl (Io ''sync''), mf, two)
             else bound)"

definition manifest_lookup :: "manifest \<Rightarrow> cache_key \<Rightarrow> block_id list option" where
  "manifest_lookup mf k = fmlookup (mf_map mf) k"

fun longest_from ::
  "(cache_key, block_id list) fmap \<Rightarrow> manifest_binding option \<Rightarrow> cache_key list \<Rightarrow> manifest_binding option" where
  "longest_from m best [] = best"
| "longest_from m best (k # ks) =
     (case fmlookup m k of None \<Rightarrow> best | Some bs \<Rightarrow> longest_from m (Some (k, bs)) ks)"

definition longest_prefix :: "manifest \<Rightarrow> cache_key list \<Rightarrow> manifest_binding option" where
  "longest_prefix mf ks = longest_from (mf_map mf) None ks"

definition manifest_len :: "manifest \<Rightarrow> nat" where
  "manifest_len mf = fmsize (mf_map mf)"

definition manifest_is_empty :: "manifest \<Rightarrow> bool" where
  "manifest_is_empty mf \<longleftrightarrow> fmsize (mf_map mf) = 0"

section \<open>Recovery\<close>

text \<open>
  What the manifest relies on of the JSON codec, for the bindings \<open>B\<close> in use: a serialized binding is one line that parses to the
  binding and ends in no space, a proper prefix of it does not parse, nor do two of them without a
  newline between.  Prefixes are UTF-8 because the texts of the keys are ASCII.
\<close>

definition manifest_codec_ok :: "manifest_codec \<Rightarrow> manifest_binding set \<Rightarrow> bool" where
  "manifest_codec_ok c B \<longleftrightarrow>
     (\<forall>b\<in>B. let js = binding_json c b in
        js \<noteq> [] \<and> NEWLINE \<notin> set js \<and> \<not> is_space (last js) \<and> binding_parse c js = Some b
        \<and> utf8 c (js @ [NEWLINE])
        \<and> (\<forall>k. utf8 c (take k js) \<and> (k < length js \<longrightarrow> binding_parse c (trim_end (take k js)) = None))
        \<and> (\<forall>b'\<in>B. let both = js @ binding_json c b' @ [NEWLINE] in
             utf8 c both \<and> binding_parse c (trim_end both) = None))"

definition manifest_lines :: "manifest_codec \<Rightarrow> manifest_binding list \<Rightarrow> bytes" where
  "manifest_lines c bs = concat (map (\<lambda>b. binding_json c b @ [NEWLINE]) bs)"

definition last_wins :: "manifest_binding list \<Rightarrow> (cache_key, block_id list) fmap" where
  "last_wins bs = fold (\<lambda>(k, v). fmupd k v) bs fmempty"

lemma trim_end_line:
  assumes "js \<noteq> []" and "\<not> is_space (last js)"
  shows "trim_end (js @ [NEWLINE]) = js" and "trim_end js = js"
proof -
  have "dropWhile is_space (rev js) = rev js"
    using assms by (cases js rule: rev_cases) simp_all
  then show "trim_end (js @ [NEWLINE]) = js" and "trim_end js = js"
    by (simp_all add: trim_end_def is_space_def NEWLINE_def)
qed

lemma codec_line:
  assumes "manifest_codec_ok c B" and "b \<in> B"
  shows "NEWLINE \<notin> set (binding_json c b)" and "utf8 c (binding_json c b @ [NEWLINE])"
    and "binding_parse c (trim_end (binding_json c b @ [NEWLINE])) = Some b"
    and "binding_parse c (trim_end (binding_json c b)) = Some b" and "utf8 c (take k (binding_json c b))"
    and "k < length (binding_json c b) \<Longrightarrow> binding_parse c (trim_end (take k (binding_json c b))) = None"
    and "b' \<in> B \<Longrightarrow> utf8 c (binding_json c b @ binding_json c b' @ [NEWLINE])"
    and "b' \<in> B \<Longrightarrow> binding_parse c (trim_end (binding_json c b @ binding_json c b' @ [NEWLINE])) = None"
    and "binding_json c b \<noteq> []"
proof -
  note law = bspec [OF assms(1) [unfolded manifest_codec_ok_def Let_def] assms(2)]
  show "NEWLINE \<notin> set (binding_json c b)" "utf8 c (binding_json c b @ [NEWLINE])" "utf8 c (take k (binding_json c b))"
    "binding_json c b \<noteq> []"
    using law by blast+
  show "binding_parse c (trim_end (binding_json c b @ [NEWLINE])) = Some b" "binding_parse c (trim_end (binding_json c b)) = Some b"
    using law trim_end_line [of "binding_json c b"] by auto
  show "k < length (binding_json c b) \<Longrightarrow> binding_parse c (trim_end (take k (binding_json c b))) = None"
    using law by blast
  show "utf8 c (binding_json c b @ binding_json c b' @ [NEWLINE])"
    "binding_parse c (trim_end (binding_json c b @ binding_json c b' @ [NEWLINE])) = None" if "b' \<in> B"
    using law that by blast+
qed

lemma replay_lines_tail:
  assumes "manifest_codec_ok c B" and "set bs \<subseteq> B"
  shows "replay_manifest c (split_inclusive NEWLINE (manifest_lines c bs @ rest)) m n =
    replay_manifest c (split_inclusive NEWLINE rest) (fold (\<lambda>(k, v). fmupd k v) bs m)
      (n + length (manifest_lines c bs))"
  using assms(2)
proof (induction bs arbitrary: m n)
  case (Cons b bs)
  obtain k v where b: "b = (k, v)" by fastforce
  have "manifest_lines c (b # bs) @ rest = binding_json c b @ NEWLINE # (manifest_lines c bs @ rest)"
    by (simp add: manifest_lines_def)
  then show ?case
    using split_inclusive_line [OF codec_line(1) [OF assms(1)]] codec_line(2,3) [OF assms(1), where b = b] Cons
    by (simp add: b) (simp add: manifest_lines_def add.assoc)
qed (simp add: manifest_lines_def)

text \<open>A torn last line is skipped, or taken when only its newline is missing.\<close>

lemma replay_torn_line:
  assumes "manifest_codec_ok c B" and "b \<in> B" and "k \<le> length (binding_json c b)"
  shows "replay_manifest c (split_inclusive NEWLINE (take k (binding_json c b))) m n =
    (if k = length (binding_json c b) then Inr (fmupd (fst b) (snd b) m, n + k) else Inr (m, n))"
proof -
  have "NEWLINE \<notin> set (take k (binding_json c b))"
    using codec_line(1) [OF assms(1,2)] by (meson in_set_takeD)
  then show ?thesis
    using codec_line(4,5,6,9) [OF assms(1,2)] codec_line(5) [OF assms(1,2), of "length (binding_json c b)"] assms(3)
    by (auto simp: split_inclusive_tail split: prod.splits)
qed

lemma open_reads:
  assumes "read_file fs LOG_NAME = Some content" and "replay_manifest c (split_inclusive NEWLINE content) fmempty 0 = Inr (m, n)"
  shows "\<exists>mf. fst (open_manifest c NoFault fs) = Inr mf \<and> mf_map mf = m"
  using assms by (auto simp: open_manifest_def open_append_def read_file_def)

lemma bind_writes:
  assumes "bind_manifest c fault b mf fs = (r, mf', fs')"
  defines "i \<equiv> mf_log mf" and "line \<equiv> binding_json c b @ [NEWLINE]"
  shows "\<exists>k. contents fs' i = contents fs i @ take k line
    \<and> dir fs' = dir fs \<and> disk_dir fs' = disk_dir fs
    \<and> (if r = Inr () then k = length line \<and> disk_contents fs' i = contents fs' i
         \<and> mf_map mf' = fmupd (fst b) (snd b) (mf_map mf)
       else disk_contents fs' i = disk_contents fs i)"
proof (cases fault)
  case NoFault
  then show ?thesis
    using assms by (intro exI [of _ "length line"]) (auto simp: bind_manifest_def Let_def write_append_def sync_file_def)
next
  case (FaultAt n m)
  show ?thesis
  proof (cases "n = 0")
    case True
    then show ?thesis
      using assms FaultAt by (intro exI [of _ "min m (length (binding_json c b))"])
        (auto simp: bind_manifest_def Let_def write_append_def min_def)
  next
    case False
    then show ?thesis
      using assms FaultAt
      by (intro exI [of _ "if n = 1 then length (binding_json c b) else length line"])
        (auto simp: bind_manifest_def Let_def write_append_def sync_file_def split: if_splits)
  qed
qed

text \<open>
  C31.  The manifest keeps what it acknowledged.  Start from a manifest whose log file is durable under
  its name in the directory and holds complete lines only, with a codec whose lines and their prefixes
  are valid UTF-8 and parse as they should.  Whichever call of \<open>bind\<close> fails and wherever the machine crashes after it,
  reopening succeeds and finds the old map or the one with the new binding; after \<open>Ok\<close> it is the new
  one.  Later bindings of a key win.
\<close>

theorem manifest_bindings_survive:
  assumes "manifest_codec_ok c (set (bs @ [b]))" and "durable_as fs LOG_NAME (Some (manifest_lines c bs))"
    and "fmlookup (dir fs) LOG_NAME = Some (mf_log mf)" and "mf_map mf = last_wins bs"
    and "bind_manifest c fault b mf fs = (r, mf', fs')" and "crash fs' fs''"
  shows "(\<exists>mf''. fst (open_manifest c NoFault fs'') = Inr mf''
            \<and> (mf_map mf'' = last_wins (bs @ [b]) \<or> r \<noteq> Inr () \<and> mf_map mf'' = last_wins bs))
       \<and> (r = Inr () \<longrightarrow> mf_map mf' = last_wins (bs @ [b]))"
proof -
  let ?i = "mf_log mf" and ?js = "binding_json c b" and ?old = "manifest_lines c bs"
  let ?line = "?js @ [NEWLINE]"
  have fs: "contents fs ?i = ?old" "disk_contents fs ?i = ?old"
    using assms(2,3) by (simp_all add: durable_as_def)
  obtain k where k: "contents fs' ?i = ?old @ take k ?line" "dir fs' = dir fs" "disk_dir fs' = disk_dir fs"
    "if r = Inr () then k = length ?line \<and> disk_contents fs' ?i = contents fs' ?i
       \<and> mf_map mf' = fmupd (fst b) (snd b) (mf_map mf) else disk_contents fs' ?i = ?old"
    using bind_writes [OF assms(5)] fs(1,2) by auto
  have new: "last_wins (bs @ [b]) = fmupd (fst b) (snd b) (last_wins bs)"
    by (simp add: last_wins_def split: prod.splits)
  have "disk_contents fs' ?i = (if r = Inr () then ?old @ take k ?line else ?old)" using k(1,4) by (simp split: if_splits)
  from append_crash [OF assms(2,3) k(2,3,1) this assms(6)]
  obtain q where read: "read_file fs'' LOG_NAME = Some (?old @ take q ?line)" and q: "r = Inr () \<longrightarrow> length (take k ?line) \<le> q"
    by blast
  have sub: "set bs \<subseteq> set (bs @ [b])" "set [b] \<subseteq> set (bs @ [b])" "b \<in> set (bs @ [b])" by auto
  note replay = replay_lines_tail [OF assms(1) sub(1), of _ fmempty 0, folded last_wins_def]
  show ?thesis
  proof (cases "q \<le> length ?js")
    case True
    then have "r \<noteq> Inr ()" using q k(4) by auto
    moreover have "\<exists>m n. replay_manifest c (split_inclusive NEWLINE (?old @ take (q) ?line)) fmempty 0
        = Inr (m, n) \<and> (m = last_wins (bs @ [b]) \<or> m = last_wins bs)"
      using replay_torn_line [OF assms(1) sub(3) True] True unfolding replay new by simp
    ultimately show ?thesis using open_reads [OF read] by blast
  next
    case False
    then have "take (q) ?line = manifest_lines c [b]" by (simp add: manifest_lines_def)
    then have "replay_manifest c (split_inclusive NEWLINE (?old @ take (q) ?line)) fmempty 0
        = Inr (last_wins (bs @ [b]), length ?old + length (manifest_lines c [b]))"
      using replay_lines_tail [OF assms(1) sub(2), of "[]"] unfolding replay new by (simp split: prod.splits)
    from open_reads [OF read this] show ?thesis using k(4) assms(4) new by (auto split: if_splits)
  qed
qed

section \<open>What it loses\<close>

text \<open>
  When only the newline of a line is missing, the next line is glued to it: the following binding is
  acknowledged, and reopening finds neither of the two.
\<close>

theorem missing_newline_loses_bindings:
  assumes "manifest_codec_ok c {b, b'}" and "contents fs (mf_log mf) = []" and "dir fs = fmupd LOG_NAME (mf_log mf) fmempty"
    and "bind_manifest c (FaultAt 1 0) b mf fs = (r1, mf1, fs1)" and "bind_manifest c NoFault b' mf1 fs1 = (r2, mf2, fs2)"
  shows "r2 = Inr () \<and> fmlookup (mf_map mf2) (fst b') = Some (snd b')
    \<and> (\<exists>mf3. fst (open_manifest c NoFault fs2) = Inr mf3 \<and> mf_map mf3 = fmempty)"
proof -
  let ?both = "binding_json c b @ binding_json c b' @ [NEWLINE]"
  have one: "mf1 = mf" "fs1 = write_append (mf_log mf) (binding_json c b) fs"
    using assms(4) by (auto simp: bind_manifest_def Let_def)
  then have two: "r2 = Inr ()" "mf2 = mf\<lparr>mf_map := fmupd (fst b') (snd b') (mf_map mf)\<rparr>"
    "contents fs2 (mf_log mf) = ?both" "dir fs2 = dir fs"
    using assms(2,5) by (auto simp: bind_manifest_def Let_def write_append_def sync_file_def)
  have "NEWLINE \<notin> set (binding_json c b @ binding_json c b')"
    using codec_line(1) [OF assms(1)] by simp
  then have "split_inclusive NEWLINE ?both = [?both]"
    using split_inclusive_line [of NEWLINE "binding_json c b @ binding_json c b'" "[]"] by simp
  then have "replay_manifest c (split_inclusive NEWLINE ?both) fmempty 0 = Inr (fmempty, 0)"
    using codec_line(7,8) [OF assms(1), of b b'] by simp
  moreover have "read_file fs2 LOG_NAME = Some ?both"
    using two(3,4) assms(3) by (simp add: read_file_def)
  ultimately show ?thesis using open_reads two(1,2) by simp
qed

text \<open>A manifest created by \<open>open\<close> is not in the directory on disk: after a crash an acknowledged binding may be gone.\<close>

theorem new_manifest_may_vanish:
  assumes "read_file fs LOG_NAME = None" and "disk_dir fs = dir fs" and "fs_ok fs"
    and "open_manifest c NoFault fs = (Inr mf, fs1)" and "bind_manifest c NoFault b mf fs1 = (r, mf', fs2)"
  shows "r = Inr () \<and> (\<exists>fs3. crash fs2 fs3 \<and> read_file fs3 LOG_NAME = None)"
proof -
  let ?i = "next_inode fs"
  have fresh: "fmlookup (dir fs) LOG_NAME = None" using assms(1) by (simp add: read_file_def)
  have op: "mf_log mf = ?i" "dir fs1 = fmupd LOG_NAME ?i (dir fs)" "disk_dir fs1 = dir fs"
    "next_inode fs1 = Suc ?i"
    using assms(2,4) fresh
    by (auto simp: open_manifest_def open_append_def set_len_def split: sum.splits)
  have two: "r = Inr ()" "disk_dir fs2 = dir fs" "next_inode fs2 = Suc ?i"
    using assms(5) op by (auto simp: bind_manifest_def Let_def write_append_def sync_file_def)
  define fs3 where "fs3 = fs2\<lparr>dir := dir fs, disk_dir := dir fs, disk_contents := contents fs2\<rparr>"
  have "torn d x x" for d x :: bytes
    unfolding torn_def by (intro impI exI [of _ "max (length d) (length x)"]) simp
  then have "crash fs2 fs3"
    using two assms(2,3) by (fastforce simp: crash_def fs3_def fs_ok_def)
  moreover have "read_file fs3 LOG_NAME = None"
    using fresh by (simp add: fs3_def read_file_def)
  ultimately show ?thesis using two(1) by blast
qed

section \<open>Witness\<close>

definition manifest_key :: cache_key where
  "manifest_key = \<lparr>fingerprint = example_fingerprint, prefix_hash = BlockId (fill32 1)\<rparr>"

definition example_binding :: "u8 \<Rightarrow> manifest_binding" where
  "example_binding n = (manifest_key, [BlockId (fill32 n)])"

definition example_manifest_codec :: manifest_codec where
  "example_manifest_codec =
     \<lparr>binding_json = (\<lambda>b. if b = example_binding 1 then [65] else [66]),
      binding_parse = (\<lambda>bs. if bs = [65] then Some (example_binding 1)
                            else if bs = [66] then Some (example_binding 2) else None),
      utf8 = (\<lambda>_. True)\<rparr>"

lemma example_manifest_codec_ok: "manifest_codec_ok example_manifest_codec {example_binding 1, example_binding 2}"
proof -
  have "trim_end (take k [x]) = (if k = 0 then [] else [x])" if "\<not> is_space x" for k x
    using that by (cases k) (simp_all add: trim_end_def)
  moreover have "\<not> is_space 65" "\<not> is_space 66" by (simp_all add: is_space_def)
  moreover have "trim_end [x, y, NEWLINE] = [x, y]" if "\<not> is_space y" for x y
    using that trim_end_line(1) [of "[x, y]"] by simp
  moreover have "trim_end [] = []" by (simp add: trim_end_def)
  ultimately show ?thesis
    by (auto simp: manifest_codec_ok_def example_manifest_codec_def example_binding_def NEWLINE_def Let_def)
qed

definition manifest_fs :: file_system where
  "manifest_fs = \<lparr>dir = fmupd LOG_NAME 0 fmempty, disk_dir = fmupd LOG_NAME 0 fmempty,
     contents = (\<lambda>_. [65, NEWLINE]), disk_contents = (\<lambda>_. [65, NEWLINE]), next_inode = 1\<rparr>"

definition torn_manifest_fs :: file_system where
  "torn_manifest_fs = snd (snd (bind_manifest example_manifest_codec (FaultAt 1 0) (example_binding 2)
     \<lparr>mf_map = last_wins [example_binding 1], mf_log = 0\<rparr> manifest_fs))"

theorem manifest_bindings_survive_witness:
  "\<exists>fs mf. crash torn_manifest_fs fs \<and> fst (open_manifest example_manifest_codec NoFault fs) = Inr mf
    \<and> (mf_map mf = last_wins [example_binding 1, example_binding 2] \<or> mf_map mf = last_wins [example_binding 1])"
proof -
  let ?mf = "\<lparr>mf_map = last_wins [example_binding 1], mf_log = 0\<rparr>"
  have fs: "torn_manifest_fs = manifest_fs\<lparr>contents := (contents manifest_fs)(0 := [65, NEWLINE, 66])\<rparr>"
    by (simp add: torn_manifest_fs_def bind_manifest_def write_append_def example_manifest_codec_def
        example_binding_def manifest_fs_def Let_def)
  have "torn [65, NEWLINE] [65, NEWLINE, 66] [65, NEWLINE, 66]"
    unfolding torn_def by (intro impI exI [of _ 3]) simp
  then have crash: "crash torn_manifest_fs (torn_manifest_fs\<lparr>disk_contents := contents torn_manifest_fs\<rparr>)"
    by (auto simp: crash_def fs manifest_fs_def fs_ok_def split: if_splits)
  have durable: "durable_as manifest_fs LOG_NAME (Some (manifest_lines example_manifest_codec [example_binding 1]))"
    by (auto simp: durable_as_def manifest_fs_def manifest_lines_def example_manifest_codec_def split: if_splits)
  have run: "bind_manifest example_manifest_codec (FaultAt 1 0) (example_binding 2) ?mf manifest_fs
      = (Inl (Io ''write''), ?mf, torn_manifest_fs)"
    by (simp add: torn_manifest_fs_def bind_manifest_def Let_def)
  have codec: "manifest_codec_ok example_manifest_codec (set ([example_binding 1] @ [example_binding 2]))"
    using example_manifest_codec_ok by simp
  from manifest_bindings_survive [OF codec durable _ _ run crash] crash show ?thesis
    by (auto simp: manifest_fs_def)
qed

end
