(* ===== verification/Lease_Expiry.thy ===== *)
theory Lease_Expiry
  imports Control_Properties
begin

text \<open>
  The loop that lets upload leases expire (\<open>start_expiry\<close> of \<^verbatim>\<open>kalpakdb/src/leases.rs\<close>).  One round is one
  tick of its interval: a leader moves the logical clock by at most one and then expires up to sixteen
  leases whose deadline has passed.  Consensus is the argument \<open>client_write\<close>, one for each round, so that
  a round may fail where another succeeds; a round that panics is \<open>None\<close>.
\<close>

section \<open>One round\<close>

fun expire_each :: "client_write \<Rightarrow> (block_id \<times> lease_deadline) list \<Rightarrow> metadata_state \<Rightarrow> metadata_state" where
  "expire_each cw [] s = s"
| "expire_each cw ((i, d) # due) s =
     expire_each cw due (snd (expire_upload_lease cw i (generation d) (deadline_tick d) s))"

definition expiry_round :: "client_write \<Rightarrow> raft_metrics \<Rightarrow> metadata_state \<Rightarrow> metadata_state option" where
  "expiry_round cw metrics s =
     (if current_leader metrics \<noteq> Some (metrics_id metrics) then Some s
      else case lease_expiry_work s of
        None \<Rightarrow> None
      | Some (now, active, _) \<Rightarrow>
          let (r, s) = (if active then advance_lease_clock cw now s else (Inr (), s)) in
          if active \<and> isl r then Some s
          else case lease_expiry_work s of
            None \<Rightarrow> None
          | Some (_, _, due) \<Rightarrow> Some (expire_each cw due s))"

text \<open>A sequence of rounds, each with the node's view of the leader and with what consensus does in it.\<close>

fun expiry_rounds :: "(raft_metrics \<times> client_write) list \<Rightarrow> metadata_state \<Rightarrow> metadata_state option" where
  "expiry_rounds [] s = Some s"
| "expiry_rounds ((metrics, cw) # rounds) s = Option.bind (expiry_round cw metrics s) (expiry_rounds rounds)"

text \<open>The rounds of a leader in which every call of the round returns \<open>Ok\<close>.\<close>

fun each_answered :: "client_write \<Rightarrow> (block_id \<times> lease_deadline) list \<Rightarrow> metadata_state \<Rightarrow> bool" where
  "each_answered cw [] s \<longleftrightarrow> True"
| "each_answered cw ((i, d) # due) s \<longleftrightarrow>
     (let (r, s) = expire_upload_lease cw i (generation d) (deadline_tick d) s in
      \<not> isl r \<and> each_answered cw due s)"

definition round_answered :: "client_write \<Rightarrow> raft_metrics \<Rightarrow> metadata_state \<Rightarrow> bool" where
  "round_answered cw metrics s \<longleftrightarrow>
     current_leader metrics = Some (metrics_id metrics)
     \<and> (case lease_expiry_work s of
          None \<Rightarrow> False
        | Some (now, active, _) \<Rightarrow>
            let (r, s) = (if active then advance_lease_clock cw now s else (Inr (), s)) in
            \<not> isl r
            \<and> (case lease_expiry_work s of None \<Rightarrow> False | Some (_, _, due) \<Rightarrow> each_answered cw due s))"

fun answered_rounds :: "(raft_metrics \<times> client_write) list \<Rightarrow> metadata_state \<Rightarrow> nat" where
  "answered_rounds [] s = 0"
| "answered_rounds ((metrics, cw) # rounds) s =
     (case expiry_round cw metrics s of
        None \<Rightarrow> 0
      | Some u \<Rightarrow> (if round_answered cw metrics s then 1 else 0) + answered_rounds rounds u)"

text \<open>
  What consensus does while no other requests are submitted: whether it answers or fails, what it has
  applied are entries in log order that carry the submitted request or none (blank entries, membership
  changes); if it answers, with the state machine's response to such an entry.
\<close>

definition quiet_write :: "(cache_key \<Rightarrow> string) \<Rightarrow> client_write \<Rightarrow> bool" where
  "quiet_write bk cw \<longleftrightarrow>
     (\<forall>req s r s'. state_inv bk s \<and> cw req s = (r, s') \<longrightarrow>
        (\<exists>es. along in_order bk s es \<and> (\<forall>e\<in>set es. \<forall>q. payload e = Normal q \<longrightarrow> q = req)
           \<and> s' = fst (apply_entries bk s es)
           \<and> (\<forall>x. r = Inr x \<longrightarrow>
                (\<exists>before e after. es = before @ e # after \<and> payload e = Normal req
                   \<and> x = snd (apply_entry bk (fst (apply_entries bk s before)) e)))))"

section \<open>The work of a round\<close>

lemma deadline_has_record:
  assumes "state_inv bk s" and "fmlookup (deadlines (leases s)) i = Some d"
  shows "fmlookup (records (leases s)) i \<noteq> None"
  using state_inv_maps(1) [OF assms(1)] assms(2) by (auto simp: validate_iff fmany_iff bad_deadline_iff)

lemma any_checked_True: "any_checked f xs = Some True \<Longrightarrow> \<exists>x\<in>set xs. f x = Some True"
  by (induction xs) (auto split: option.splits bool.splits)

lemma expiry_work_total:
  assumes "state_inv bk s"
  shows "lease_expiry_work s = Some (clock (leases s),
      (\<exists>i d. fmlookup (deadlines (leases s)) i = Some d \<and> deadline_active (leases s) i = Some True),
      take 16 (due_leases (leases s)))"
proof -
  let ?ks = "map fst (btree_entries (deadlines (leases s)))"
  have keys: "i \<in> set ?ks \<longleftrightarrow> (\<exists>d. fmlookup (deadlines (leases s)) i = Some d)" for i
    by (force simp: set_btree_entries)
  have "deadline_active (leases s) i \<noteq> None" if "i \<in> set ?ks" for i
    using deadline_has_record [OF assms] that keys by (auto simp: deadline_active_def split: option.splits)
  then obtain b where b: "any_checked (deadline_active (leases s)) ?ks = Some b"
    using any_checked_None [of "deadline_active (leases s)" ?ks] by (meson option.exhaust)
  have "b \<longleftrightarrow> (\<exists>i d. fmlookup (deadlines (leases s)) i = Some d \<and> deadline_active (leases s) i = Some True)"
  proof (cases b)
    case True
    with b have "any_checked (deadline_active (leases s)) ?ks = Some True" by simp
    then show ?thesis using any_checked_True keys True by metis
  next
    case False
    with b have "any_checked (deadline_active (leases s)) ?ks = Some False" by simp
    then have "\<forall>i\<in>set ?ks. deadline_active (leases s) i = Some False" by (simp only: any_checked_False)
    then show ?thesis using keys False by (metis option.inject)
  qed
  then show ?thesis using b by (simp add: lease_expiry_work_def)
qed

text \<open>A request that touches no block is applied as it is, whatever the fences.\<close>

lemma untouched_apply:
  assumes "state_inv bk s" and "touched bk s req = []"
  shows "apply_one bk s req = apply_unfenced bk s req"
proof -
  have "\<not> MAX_BLOCK_FENCES < fmsize (block_fences s)"
    using assms(1) by (simp add: state_inv_def fences_ok_def)
  moreover obtain u r where u: "apply_unfenced bk s req = (u, r)" by fastforce
  moreover have "block_fences u = block_fences s" using unfenced_frame(2) [of bk s req] u by simp
  ultimately show ?thesis
    using assms(2) by (simp add: apply_one_def Let_def)
qed

lemma quiet_run:
  assumes "along in_order bk s es" and "state_inv bk s" and "Q (leases s)"
    and "\<forall>e\<in>set es. \<forall>q. payload e = Normal q \<longrightarrow> q = req"
    and "\<And>t. state_inv bk t \<Longrightarrow> Q (leases t) \<Longrightarrow> Q (leases (fst (apply_one bk t req)))"
  shows "state_inv bk (fst (apply_entries bk s es)) \<and> Q (leases (fst (apply_entries bk s es)))"
  using assms(1-4)
proof (induction es arbitrary: s)
  case (Cons e es)
  let ?s = "s\<lparr>last_applied := Some (entry_log_id e)\<rparr>"
  have ord: "in_order s e" "along in_order bk (fst (apply_entry bk s e)) es"
    using Cons.prems(1) by simp_all
  have "state_inv bk ?s"
    using state_inv_applied Cons.prems(2) ord(1) by (simp add: in_order_def)
  then have "Q (leases (fst (apply_one bk ?s req)))"
    using assms(5) Cons.prems(3) by simp
  then have "Q (leases (fst (apply_entry bk s e)))"
    using Cons.prems(3,4) by (auto simp: apply_entry_def Let_def split: entry_payload.split)
  with Cons.IH [OF ord(2) metadata.entry_step [OF Cons.prems(2) ord(1)]] Cons.prems(4) show ?case
    by simp
qed simp

text \<open>
  A quiet call: \<open>Q\<close> holds of the leases whether it is answered or not; if it is answered, \<open>R\<close> holds and
  the response is \<open>x\<close>.
\<close>

lemma quiet_call:
  assumes "quiet_write bk cw" and "state_inv bk s" and "cw req s = (r, s')" and "Q (leases s)"
    and step: "\<And>t. state_inv bk t \<Longrightarrow> Q (leases t) \<Longrightarrow>
      R (leases (fst (apply_one bk t req))) \<and> snd (apply_one bk t req) = x"
    and weak: "\<And>L. R L \<Longrightarrow> Q L"
  shows "state_inv bk s' \<and> Q (leases s') \<and> (\<forall>y. r = Inr y \<longrightarrow> R (leases s') \<and> y = x)"
proof -
  have "quiet_write bk cw \<and> state_inv bk s \<and> cw req s = (r, s')"
    using assms(1-3) by simp
  then obtain es where es: "along in_order bk s es" "\<forall>e\<in>set es. \<forall>q. payload e = Normal q \<longrightarrow> q = req"
    "s' = fst (apply_entries bk s es)"
    "\<forall>y. r = Inr y \<longrightarrow> (\<exists>before e after. es = before @ e # after \<and> payload e = Normal req
       \<and> y = snd (apply_entry bk (fst (apply_entries bk s before)) e))"
    unfolding quiet_write_def by (elim conjE allE [of _ req] allE [of _ s] allE [of _ r] allE [of _ s'] impE exE) simp_all
  have keepQ: "Q (leases (fst (apply_one bk t req)))" if "state_inv bk t" "Q (leases t)" for t
    using step [OF that] weak by blast
  have keepR: "R (leases (fst (apply_one bk t req)))" if "state_inv bk t" "R (leases t)" for t
    using step [OF that(1)] weak [OF that(2)] by blast
  have "R (leases s') \<and> y = x" if got: "r = Inr y" for y
  proof -
    obtain before e after where split: "es = before @ e # after" "payload e = Normal req"
      "y = snd (apply_entry bk (fst (apply_entries bk s before)) e)"
      using es(4) got by blast
    let ?b = "fst (apply_entries bk s before)"
    let ?t = "?b\<lparr>last_applied := Some (entry_log_id e)\<rparr>"
    have ord: "along in_order bk s before" "in_order ?b e" "along in_order bk (fst (apply_entry bk ?b e)) after"
      using es(1) by (simp_all add: split(1) along_append)
    have own: "\<forall>e\<in>set before. \<forall>q. payload e = Normal q \<longrightarrow> q = req"
      "\<forall>e\<in>set after. \<forall>q. payload e = Normal q \<longrightarrow> q = req"
      using es(2) split(1) by auto
    have b: "state_inv bk ?b \<and> Q (leases ?b)"
      by (rule quiet_run [where Q = Q and req = req, OF ord(1) assms(2,4) own(1) keepQ])
    then have "state_inv bk ?t"
      using state_inv_applied ord(2) by (simp add: in_order_def)
    then have "R (leases (fst (apply_one bk ?t req))) \<and> snd (apply_one bk ?t req) = x"
      using b by (intro step) simp_all
    moreover have "apply_entry bk ?b e = apply_one bk ?t req"
      by (simp add: apply_entry_def split(2))
    ultimately have hit: "R (leases (fst (apply_entry bk ?b e)))" "y = x"
      by (simp_all add: split(3))
    have "R (leases (fst (apply_entries bk (fst (apply_entry bk ?b e)) after)))"
      by (rule conjunct2 [OF quiet_run [where Q = R and req = req,
          OF ord(3) metadata.entry_step [OF conjunct1 [OF b] ord(2)] hit(1) own(2) keepR]])
    with hit(2) show ?thesis
      by (simp add: es(3) split(1) apply_entries_append)
  qed
  moreover have "state_inv bk s' \<and> Q (leases s')"
    unfolding es(3) by (rule quiet_run [where Q = Q and req = req, OF es(1) assms(2,4) es(2) keepQ])
  ultimately show ?thesis by blast
qed

text \<open>The two requests of a round under such a consensus.\<close>

lemma advance_quiet:
  assumes "quiet_write bk cw" and "state_inv bk s" and "clock (leases s) < d"
    and "advance_lease_clock cw (clock (leases s)) s = (r, u)"
  shows "state_inv bk u \<and> (\<exists>c. leases u = (leases s)\<lparr>clock := c\<rparr> \<and> clock (leases s) \<le> c
        \<and> (\<not> isl r \<longrightarrow> unat c = unat (clock (leases s)) + 1))
      \<and> (\<not> isl (fst (cw (AdvanceLeaseClock (clock (leases s))) s)) \<longrightarrow> \<not> isl r)"
proof -
  define now where "now = clock (leases s)"
  have now: "now \<noteq> - 1" using assms(3) word_n1_ge [of d] by (auto simp: now_def)
  then have add: "checked_add now 1 = Some (now + 1)" and up: "now < now + 1"
    and next_tick: "unat (now + 1) = unat now + 1"
    using unat_Suc_fits [of now] word_Suc_unat [of now] by (simp_all add: checked_add_def)
  obtain q s' where q: "cw (AdvanceLeaseClock now) s = (q, s')" by fastforce
  let ?M = "(leases s)\<lparr>clock := now + 1\<rparr>"
  have step: "leases (fst (apply_one bk t (AdvanceLeaseClock now))) = ?M
      \<and> snd (apply_one bk t (AdvanceLeaseClock now)) = LeaseClockAdvanced"
    if t: "state_inv bk t" and L: "leases t = leases s \<or> leases t = ?M" for t
  proof -
    have "apply_one bk t (AdvanceLeaseClock now) = advance t now"
      using untouched_apply [OF t, of "AdvanceLeaseClock now"] by simp
    then show ?thesis
      using L
    proof (elim disjE)
      assume "leases t = leases s"
      with \<open>apply_one bk t (AdvanceLeaseClock now) = advance t now\<close> show ?thesis
        by (simp add: advance_def add now_def [symmetric])
    next
      assume "leases t = ?M"
      with \<open>apply_one bk t (AdvanceLeaseClock now) = advance t now\<close> up show ?thesis
        by (simp add: advance_def)
    qed
  qed
  have run: "state_inv bk s' \<and> (leases s' = leases s \<or> leases s' = ?M)
      \<and> (\<forall>y. q = Inr y \<longrightarrow> leases s' = ?M \<and> y = LeaseClockAdvanced)"
    by (rule quiet_call [OF assms(1,2) q, where Q = "\<lambda>L. L = leases s \<or> L = ?M" and R = "\<lambda>L. L = ?M"])
      (use step in simp_all)
  have u: "u = s'" and r: "isl r \<longleftrightarrow> isl q"
    using assms(4) q run unfolding now_def [symmetric]
    by (cases q; simp add: advance_lease_clock_def on_response_def raft_write_def split: raft_error.splits;
        force)+
  have "\<exists>c. leases u = (leases s)\<lparr>clock := c\<rparr> \<and> now \<le> c \<and> (\<not> isl r \<longrightarrow> unat c = unat now + 1)"
  proof (cases "leases u = ?M")
    case True
    then show ?thesis
      using up next_tick by (intro exI [of _ "now + 1"]) simp
  next
    case False
    then have "leases u = leases s" and "isl q"
      using run u by (cases q; simp)+
    with r show ?thesis
      by (intro exI [of _ now]) (simp add: now_def)
  qed
  with run u r q show ?thesis
    unfolding now_def [symmetric] by simp
qed

lemma expire_quiet:
  assumes "quiet_write bk cw" and "state_inv bk s" and "fmlookup (deadlines (leases s)) i = Some d"
    and "is_expired (leases s) i"
    and "expire_upload_lease cw i (generation d) (deadline_tick d) s = (r, u)"
  shows "state_inv bk u
      \<and> (leases u = leases s \<and> isl r
         \<or> (\<exists>x. leases u = (leases s)\<lparr>expired := or_insert i x (expired (leases s))\<rparr>))
      \<and> (\<not> isl (fst (cw (ExpireUploadLease i (generation d) (deadline_tick d)) s)) \<longrightarrow> \<not> isl r)"
proof -
  let ?req = "ExpireUploadLease i (generation d) (deadline_tick d)"
  let ?R = "\<lambda>L. \<exists>x. L = (leases s)\<lparr>expired := or_insert i x (expired (leases s))\<rparr>"
  let ?Q = "\<lambda>L. L = leases s \<or> ?R L"
  obtain q s' where q: "cw ?req s = (q, s')" by fastforce
  have again: "or_insert i y (or_insert i x m) = or_insert i x m" for x y :: u64 and m
    by (intro fmap_ext) (simp add: fmlookup_or_insert)
  have "?R (leases (fst (apply_one bk t ?req))) \<and> snd (apply_one bk t ?req) = LeaseExpired"
    if "state_inv bk t" "?Q (leases t)" for t
  proof -
    have "is_expired (leases t) i" "fmlookup (deadlines (leases t)) i = Some d"
      using that(2) assms(3,4) by (auto simp: is_expired_iff fmlookup_or_insert)
    then have "apply_one bk t ?req
        = (t\<lparr>leases := (leases t)\<lparr>expired := or_insert i (applied_index t) (expired (leases t))\<rparr>\<rparr>, LeaseExpired)"
      using untouched_apply [OF that(1), of ?req] by (simp add: expire_def)
    then show ?thesis
      using that(2) by (auto simp: again)
  qed
  then have run: "state_inv bk s' \<and> ?Q (leases s') \<and> (\<forall>y. q = Inr y \<longrightarrow> ?R (leases s') \<and> y = LeaseExpired)"
    by (rule quiet_call [OF assms(1,2) q, of ?Q ?R LeaseExpired, rotated]) auto
  have "u = s'" and "isl r \<longleftrightarrow> isl q"
    using assms(5) q run
    by (cases q; auto simp: expire_upload_lease_def on_response_def raft_write_def split: raft_error.splits)+
  with run q show ?thesis
    by (cases q) auto
qed

text \<open>What a round keeps: the leases, their deadlines and cancellations; markers are only added.\<close>

definition marked :: "lease_state \<Rightarrow> block_id \<Rightarrow> bool" where
  "marked L i \<longleftrightarrow> fmlookup (expired L) i \<noteq> None"

definition same_leases :: "lease_state \<Rightarrow> lease_state \<Rightarrow> bool" where
  "same_leases L M \<longleftrightarrow>
     records M = records L \<and> deadlines M = deadlines L \<and> cancelled M = cancelled L
     \<and> (\<forall>j. marked L j \<longrightarrow> marked M j)"

lemma same_leases_trans: "same_leases L M \<Longrightarrow> same_leases M N \<Longrightarrow> same_leases L N"
  by (simp add: same_leases_def)

lemma expire_each_effect:
  assumes "quiet_write bk cw" and "state_inv bk s"
    and "\<forall>(i, d)\<in>set due. fmlookup (deadlines (leases s)) i = Some d \<and> is_expired (leases s) i"
  shows "state_inv bk (expire_each cw due s) \<and> same_leases (leases s) (leases (expire_each cw due s))
    \<and> clock (leases (expire_each cw due s)) = clock (leases s)
    \<and> (each_answered cw due s \<longrightarrow> (\<forall>j\<in>fst ` set due. marked (leases (expire_each cw due s)) j))
    \<and> ((\<forall>req s. \<not> isl (fst (cw req s))) \<longrightarrow> each_answered cw due s)"
  using assms(2,3)
proof (induction due arbitrary: s)
  case (Cons p due)
  obtain i d where p: "p = (i, d)" by fastforce
  obtain r u where u: "expire_upload_lease cw i (generation d) (deadline_tick d) s = (r, u)" by fastforce
  have i: "fmlookup (deadlines (leases s)) i = Some d" "is_expired (leases s) i"
    using Cons.prems(2) p by auto
  note one = expire_quiet [OF assms(1) Cons.prems(1) i u]
  have same: "same_leases (leases s) (leases u)" "clock (leases u) = clock (leases s)"
    and mark: "\<not> isl r \<Longrightarrow> marked (leases u) i"
    using one by (auto simp: same_leases_def marked_def fmlookup_or_insert)
  have "is_expired (leases u) j" if "is_expired (leases s) j" for j
    using that same by (auto simp: is_expired_iff same_leases_def marked_def)
  then have "\<forall>(j, e)\<in>set due. fmlookup (deadlines (leases u)) j = Some e \<and> is_expired (leases u) j"
    using Cons.prems(2) same by (auto simp: same_leases_def)
  note rest = Cons.IH [OF conjunct1 [OF one] this]
  have "\<not> isl r" if "\<forall>req s. \<not> isl (fst (cw req s))"
    using one that by blast
  with rest same mark show ?case
    using same_leases_trans [OF same(1)] by (auto simp: p u same_leases_def)
qed (simp add: same_leases_def)

text \<open>The first half of a round moves the clock if a deadline is pending, or reports a failure.\<close>

definition tick :: "client_write \<Rightarrow> bool \<Rightarrow> metadata_state \<Rightarrow> (control_error + unit) \<times> metadata_state" where
  "tick cw active s = (if active then advance_lease_clock cw (clock (leases s)) s else (Inr (), s))"

lemma tick_effect:
  assumes "quiet_write bk cw" and "state_inv bk s" and "tick cw active s = (r, v)"
    and "active \<longrightarrow> (\<exists>i d. fmlookup (deadlines (leases s)) i = Some d \<and> deadline_active (leases s) i = Some True)"
  shows "state_inv bk v" and "\<exists>c. leases v = (leases s)\<lparr>clock := c\<rparr>" and "clock (leases s) \<le> clock (leases v)"
    and "active \<Longrightarrow> \<not> isl r \<Longrightarrow> unat (clock (leases v)) = unat (clock (leases s)) + 1"
    and "\<forall>req s. \<not> isl (fst (cw req s)) \<Longrightarrow> \<not> isl r" and "\<not> active \<Longrightarrow> \<not> isl r"
proof -
  have "state_inv bk v \<and> (\<exists>c. leases v = (leases s)\<lparr>clock := c\<rparr>) \<and> clock (leases s) \<le> clock (leases v)
      \<and> (active \<and> \<not> isl r \<longrightarrow> unat (clock (leases v)) = unat (clock (leases s)) + 1)
      \<and> ((\<forall>req s. \<not> isl (fst (cw req s))) \<longrightarrow> \<not> isl r) \<and> (\<not> active \<longrightarrow> \<not> isl r)"
  proof (cases active)
    case True
    then obtain i d where "fmlookup (deadlines (leases s)) i = Some d" "deadline_active (leases s) i = Some True"
      using assms(4) by blast
    then have "clock (leases s) < deadline_tick d"
      by (auto simp: deadline_active_def is_expired_iff not_le split: option.splits)
    from advance_quiet [OF assms(1,2) this, of r v] assms(3) True show ?thesis
      by (auto simp: tick_def)
  next
    case False
    with assms(2,3) have "v = s" "r = Inr ()" by (auto simp: tick_def)
    with assms(2) False show ?thesis
      by (auto intro: exI [of _ "clock (leases s)"])
  qed
  then show "state_inv bk v" and "\<exists>c. leases v = (leases s)\<lparr>clock := c\<rparr>" and "clock (leases s) \<le> clock (leases v)"
    and "active \<Longrightarrow> \<not> isl r \<Longrightarrow> unat (clock (leases v)) = unat (clock (leases s)) + 1"
    and "\<forall>req s. \<not> isl (fst (cw req s)) \<Longrightarrow> \<not> isl r" and "\<not> active \<Longrightarrow> \<not> isl r"
    by blast+
qed

section \<open>Every deadline is enforced\<close>

definition unmarked :: "lease_state \<Rightarrow> block_id set" where
  "unmarked L = {j. fmlookup (deadlines L) j \<noteq> None \<and> \<not> marked L j}"

lemma finite_unmarked: "finite (unmarked L)" "card (unmarked L) \<le> fmsize (deadlines L)"
proof -
  have sub: "unmarked L \<subseteq> fset (fmdom (deadlines L))" by (auto simp: unmarked_def intro: fmdomI)
  then show "finite (unmarked L)" by (rule finite_subset) simp
  show "card (unmarked L) \<le> fmsize (deadlines L)"
    using card_mono [OF _ sub] by (simp add: fmsize_def fcard.rep_eq)
qed

text \<open>A lease that waits for its deadline.\<close>

definition waiting :: "lease_state \<Rightarrow> block_id \<Rightarrow> lease_deadline \<Rightarrow> bool" where
  "waiting L i d \<longleftrightarrow>
     (\<exists>l. fmlookup (records L) i = Some l \<and> committed l = None)
     \<and> fmlookup (cancelled L) i = None \<and> fmlookup (deadlines L) i = Some d"

definition rounds_left :: "lease_state \<Rightarrow> lease_deadline \<Rightarrow> nat" where
  "rounds_left L d = (unat (deadline_tick d) - unat (clock L)) + card (unmarked L)"

text \<open>One round: it never panics, it keeps the leases, and it does its work if every call is answered.\<close>

definition pending_deadline :: "lease_state \<Rightarrow> bool" where
  "pending_deadline L \<longleftrightarrow> (\<exists>i d. fmlookup (deadlines L) i = Some d \<and> deadline_active L i = Some True)"

lemma expiry_round_effect:
  assumes "quiet_write bk cw" and "state_inv bk s"
  shows "\<exists>u. expiry_round cw m s = Some u \<and> state_inv bk u \<and> same_leases (leases s) (leases u)
    \<and> clock (leases s) \<le> clock (leases u)
    \<and> (round_answered cw m s \<longrightarrow>
         (pending_deadline (leases s) \<longrightarrow> unat (clock (leases u)) = unat (clock (leases s)) + 1)
         \<and> (\<forall>j\<in>fst ` set (take 16 (due_leases ((leases s)\<lparr>clock := clock (leases u)\<rparr>))). marked (leases u) j))
    \<and> (current_leader m = Some (metrics_id m) \<and> (\<forall>req s. \<not> isl (fst (cw req s))) \<longrightarrow> round_answered cw m s)"
proof (cases "current_leader m = Some (metrics_id m)")
  case False
  with assms(2) show ?thesis
    by (simp add: expiry_round_def round_answered_def same_leases_def)
next
  case True
  obtain r v where v: "tick cw (pending_deadline (leases s)) s = (r, v)" by fastforce
  note eff = tick_effect [OF assms v, unfolded pending_deadline_def, OF impI]
  have work: "lease_expiry_work s = Some (clock (leases s), pending_deadline (leases s), take 16 (due_leases (leases s)))"
    unfolding pending_deadline_def by (rule expiry_work_total [OF assms(2)])
  have inv: "state_inv bk v" and le: "clock (leases s) \<le> clock (leases v)"
    using eff by blast+
  obtain b where "lease_expiry_work v = Some (clock (leases v), b, take 16 (due_leases (leases v)))"
    using expiry_work_total [OF inv] by blast
  moreover have v': "(if pending_deadline (leases s) then advance_lease_clock cw (clock (leases s)) s else (Inr (), s)) = (r, v)"
    using v by (simp add: tick_def)
  ultimately have round: "expiry_round cw m s = Some (if pending_deadline (leases s) \<and> isl r then v
        else expire_each cw (take 16 (due_leases (leases v))) v)"
      "round_answered cw m s \<longleftrightarrow> \<not> isl r \<and> each_answered cw (take 16 (due_leases (leases v))) v"
    unfolding expiry_round_def round_answered_def work using True by simp_all
  obtain c where c: "leases v = (leases s)\<lparr>clock := c\<rparr>" using eff by blast
  then have same: "same_leases (leases s) (leases v)"
    and due: "due_leases ((leases s)\<lparr>clock := clock (leases v)\<rparr>) = due_leases (leases v)"
    by (simp_all add: same_leases_def marked_def)
  have "\<forall>(i, d)\<in>set (take 16 (due_leases (leases v))). fmlookup (deadlines (leases v)) i = Some d
      \<and> is_expired (leases v) i"
    by (auto simp: due_leases_def set_btree_entries dest!: in_set_takeD)
  note each = expire_each_effect [OF assms(1) inv this]
  show ?thesis
  proof (cases "pending_deadline (leases s) \<and> isl r")
    case True
    then show ?thesis
      using round inv same le eff(5) by (intro exI [of _ v]) auto
  next
    case False
    then have r: "\<not> isl r"
      using eff(6) by (auto simp: pending_deadline_def)
    let ?u = "expire_each cw (take 16 (due_leases (leases v))) v"
    have "pending_deadline (leases s) \<Longrightarrow> unat (clock (leases v)) = unat (clock (leases s)) + 1"
      using eff(4) r by (simp add: pending_deadline_def)
    then show ?thesis
      using round False r each le due same_leases_trans [OF same] by (intro exI [of _ ?u]) auto
  qed
qed

lemma round_progress:
  assumes "quiet_write bk cw" and "state_inv bk s" and "waiting (leases s) i d"
  shows "\<exists>u. expiry_round cw m s = Some u \<and> state_inv bk u \<and> waiting (leases u) i d
    \<and> (marked (leases s) i \<longrightarrow> marked (leases u) i) \<and> rounds_left (leases u) d \<le> rounds_left (leases s) d
    \<and> (round_answered cw m s \<longrightarrow> marked (leases u) i \<or> rounds_left (leases u) d < rounds_left (leases s) d)"
proof -
  from expiry_round_effect [OF assms(1,2), of m] obtain u where
    u: "expiry_round cw m s = Some u" "state_inv bk u" "same_leases (leases s) (leases u)"
      "clock (leases s) \<le> clock (leases u)"
      "round_answered cw m s \<Longrightarrow> pending_deadline (leases s) \<Longrightarrow>
         unat (clock (leases u)) = unat (clock (leases s)) + 1"
      "round_answered cw m s \<Longrightarrow>
         \<forall>j\<in>fst ` set (take 16 (due_leases ((leases s)\<lparr>clock := clock (leases u)\<rparr>))). marked (leases u) j"
    by auto
  have sub: "unmarked (leases u) \<subseteq> unmarked (leases s)"
    using u(3) by (auto simp: unmarked_def same_leases_def)
  then have fewer: "card (unmarked (leases u)) \<le> card (unmarked (leases s))"
    by (intro card_mono finite_unmarked)
  have mono: "marked (leases s) i \<Longrightarrow> marked (leases u) i" using u(3) by (simp add: same_leases_def)
  have w: "waiting (leases u) i d" using assms(3) u(3) by (simp add: waiting_def same_leases_def)
  have "rounds_left (leases u) d < rounds_left (leases s) d"
    if full: "round_answered cw m s" and old: "\<not> marked (leases s) i"
  proof (cases "deadline_tick d \<le> clock (leases s)")
    case True
    let ?due = "due_leases ((leases s)\<lparr>clock := clock (leases u)\<rparr>)"
    have late: "deadline_tick d \<le> clock (leases u)" using True u(4) by simp
    have "(i, d) \<in> set ?due"
      using assms(3) late old
      by (auto simp: due_leases_def waiting_def is_expired_iff set_btree_entries marked_def)
    then obtain j e where j: "(j, e) \<in> set (take 16 ?due)" by (cases ?due) auto
    then have "j \<in> unmarked (leases s)"
      by (auto simp: due_leases_def unmarked_def marked_def set_btree_entries dest!: in_set_takeD)
    moreover have "j \<notin> unmarked (leases u)" using j u(6) [OF full] by (force simp: unmarked_def)
    ultimately have "card (unmarked (leases u)) < card (unmarked (leases s))"
      using sub by (intro psubset_card_mono finite_unmarked) auto
    then show ?thesis using True late by (simp add: rounds_left_def word_le_nat_alt)
  next
    case False
    then have "deadline_active (leases s) i = Some True"
      using assms(3) old by (auto simp: deadline_active_def waiting_def is_expired_iff marked_def)
    then have "unat (clock (leases u)) = unat (clock (leases s)) + 1"
      using u(5) [OF full] assms(3) by (auto simp: waiting_def pending_deadline_def)
    with fewer show ?thesis using False by (simp add: rounds_left_def word_le_nat_alt)
  qed
  moreover have "rounds_left (leases u) d \<le> rounds_left (leases s) d"
    using fewer u(4) by (simp add: rounds_left_def word_le_nat_alt)
  ultimately show ?thesis using u(1,2) w mono by (intro exI [of _ u]) blast
qed

lemma rounds_mark:
  assumes "\<forall>(m, cw)\<in>set rounds. quiet_write bk cw" and "state_inv bk s" and "waiting (leases s) i d"
  shows "\<exists>u. expiry_rounds rounds s = Some u \<and> state_inv bk u \<and> waiting (leases u) i d
    \<and> (marked (leases s) i \<or> rounds_left (leases s) d \<le> answered_rounds rounds s \<longrightarrow> marked (leases u) i)"
  using assms
proof (induction rounds arbitrary: s)
  case Nil
  have "card (unmarked (leases s)) \<noteq> 0" if "\<not> marked (leases s) i"
    using that Nil(3) finite_unmarked(1) by (auto simp: unmarked_def waiting_def)
  then show ?case using Nil by (cases "marked (leases s) i") (auto simp: rounds_left_def)
next
  case (Cons p rounds)
  obtain m cw where p: "p = (m, cw)" by fastforce
  then have "quiet_write bk cw" and rest: "\<forall>(m, cw)\<in>set rounds. quiet_write bk cw"
    using Cons.prems(1) by auto
  from round_progress [OF this(1) Cons.prems(2,3), of m] obtain u where
    u: "expiry_round cw m s = Some u" "state_inv bk u" "waiting (leases u) i d"
      "marked (leases s) i \<longrightarrow> marked (leases u) i" "rounds_left (leases u) d \<le> rounds_left (leases s) d"
      "round_answered cw m s \<longrightarrow> marked (leases u) i \<or> rounds_left (leases u) d < rounds_left (leases s) d"
    by blast
  from Cons.IH [OF rest u(2,3)] obtain v where
    "expiry_rounds rounds u = Some v" "state_inv bk v" "waiting (leases v) i d"
    "marked (leases u) i \<or> rounds_left (leases u) d \<le> answered_rounds rounds u \<longrightarrow> marked (leases v) i"
    by blast
  then show ?case
    using u by (intro exI [of _ v]) (auto simp: p split: if_splits)
qed

text \<open>
  C19.  Every deadline is enforced.  Let a node run the expiry loop while no other requests are
  submitted; consensus may fail in any call of any round, and may then have applied the request or not.
  No round panics.  A reservation with a deadline that is neither committed nor cancelled is recorded
  as expired once there have been as many rounds in which the node led and all calls were answered as
  ticks are left to its deadline plus one for each lease with a deadline.
\<close>

theorem due_leases_expire:
  assumes "state_inv bk s" and "\<forall>(m, cw)\<in>set rounds. quiet_write bk cw"
    and "fmlookup (records (leases s)) i = Some l" and "committed l = None" and "fmlookup (cancelled (leases s)) i = None"
    and "fmlookup (deadlines (leases s)) i = Some d"
  shows "\<exists>u. expiry_rounds rounds s = Some u
    \<and> ((unat (deadline_tick d) - unat (clock (leases s))) + fmsize (deadlines (leases s))
         \<le> answered_rounds rounds s \<longrightarrow>
         fmlookup (expired (leases u)) i \<noteq> None \<and> is_expired (leases u) i)"
proof -
  have "waiting (leases s) i d" using assms(3-6) by (simp add: waiting_def)
  from rounds_mark [OF assms(2,1) this] obtain u where
    "expiry_rounds rounds s = Some u" "waiting (leases u) i d"
    "rounds_left (leases s) d \<le> answered_rounds rounds s \<longrightarrow> marked (leases u) i"
    by blast
  then show ?thesis
    using finite_unmarked(2) [of "leases s"]
    by (intro exI [of _ u]) (auto simp: marked_def waiting_def is_expired_iff rounds_left_def)
qed

text \<open>How many rounds are answered: at least those of a leader whose consensus always answers.\<close>

definition always_answers :: "raft_metrics \<times> client_write \<Rightarrow> bool" where
  "always_answers p \<longleftrightarrow>
     current_leader (fst p) = Some (metrics_id (fst p)) \<and> (\<forall>req s. \<not> isl (fst (snd p req s)))"

lemma answered_rounds_ge:
  assumes "\<forall>(m, cw)\<in>set rounds. quiet_write bk cw" and "state_inv bk s"
  shows "length (filter always_answers rounds) \<le> answered_rounds rounds s"
  using assms
proof (induction rounds arbitrary: s)
  case (Cons p rounds)
  obtain m cw where p: "p = (m, cw)" by fastforce
  then have "quiet_write bk cw" and rest: "\<forall>(m, cw)\<in>set rounds. quiet_write bk cw"
    using Cons.prems(1) by auto
  from expiry_round_effect [OF this(1) Cons.prems(2), of m] obtain u where
    "expiry_round cw m s = Some u" "state_inv bk u" "always_answers p \<longrightarrow> round_answered cw m s"
    by (auto simp: p always_answers_def)
  with Cons.IH [OF rest, of u] show ?case
    by (auto simp: p split: if_splits)
qed simp

text \<open>A reservation renewed for three ticks, and a node that leads itself.\<close>

definition timed_entries :: "entry list" where
  "timed_entries = two_leases @ [entry_at 4 (RenewUploadLease lease_one the_agent 0 3)]"

definition timed :: metadata_state where
  "timed = fst (apply_entries (\<lambda>_. []) default_state timed_entries)"

lemma timed_run:
  "leases timed = (leases leased)\<lparr>deadlines :=
     fmap_of_list [(lease_one, \<lparr>generation = 1, deadline_tick = 3, ttl_ticks = 3\<rparr>)]\<rparr>"
  and timed_inv: "state_inv (\<lambda>_. []) timed"
proof -
  have fenced: "block_fences leased = fmap_of_list [(the_block, 3)]" unfolding leased_def by (simp add: run_simps)
  show "leases timed = (leases leased)\<lparr>deadlines :=
      fmap_of_list [(lease_one, \<lparr>generation = 1, deadline_tick = 3, ttl_ticks = 3\<rparr>)]\<rparr>"
    unfolding timed_def timed_entries_def apply_entries_append leased_def [symmetric]
    by (simp add: apply_entry_def entry_at_def apply_one_def leased_run fenced renew_def renewal_retry_def current_generation_def
        deadline_kept_def is_expired_def checked_add_def MAX_TTL_TICKS_def MAX_BLOCK_FENCES_def fm_simps Let_def)
  have "in_order leased (entry_at 4 (RenewUploadLease lease_one the_agent 0 3))"
    unfolding leased_def by (simp add: run_simps)
  then have "along in_order (\<lambda>_. []) default_state timed_entries"
    unfolding timed_entries_def along_append leased_def [symmetric] using two_leases_run(4) by simp
  from metadata.run [OF state_inv_default this] show "state_inv (\<lambda>_. []) timed" unfolding timed_def .
qed

definition sole_leader :: raft_metrics where
  "sole_leader = \<lparr>metrics_id = 1, current_leader = Some 1, member_nodes = []\<rparr>"

text \<open>Consensus that answers at once, that fails and drops the request, and that applies it but reports a failure.\<close>

definition failed_write :: client_write where
  "failed_write req s = (Inl (RaftFailure ''timeout''), s)"

definition unacknowledged_write :: "(cache_key \<Rightarrow> string) \<Rightarrow> client_write" where
  "unacknowledged_write bk req s = (Inl (RaftFailure ''timeout''), snd (direct_write bk req s))"

lemma quiet_examples: "quiet_write bk (direct_write bk)" "quiet_write bk failed_write"
  "quiet_write bk (unacknowledged_write bk)"
proof -
  let ?e = "\<lambda>req s. entry_at (saturating_add (applied_index s) 1) req"
  have e: "along in_order bk s [?e req s]" "snd (direct_write bk req s) = fst (apply_entries bk s [?e req s])"
    "fst (direct_write bk req s) = Inr (snd (apply_entry bk s (?e req s)))" "payload (?e req s) = Normal req" for req s
    by (simp_all add: direct_write_def entry_at_def in_order_def saturating_add_ge split_def Let_def)
  show "quiet_write bk (direct_write bk)"
    unfolding quiet_write_def
  proof (intro allI impI)
    fix req s r s'
    assume run: "state_inv bk s \<and> direct_write bk req s = (r, s')"
    then have "r = Inr (snd (apply_entry bk s (?e req s)))" "s' = fst (apply_entries bk s [?e req s])"
      using e(2,3) [where req = req and s = s] by simp_all
    then show "\<exists>es. along in_order bk s es \<and> (\<forall>e\<in>set es. \<forall>q. payload e = Normal q \<longrightarrow> q = req)
        \<and> s' = fst (apply_entries bk s es)
        \<and> (\<forall>x. r = Inr x \<longrightarrow> (\<exists>before e after. es = before @ e # after \<and> payload e = Normal req
             \<and> x = snd (apply_entry bk (fst (apply_entries bk s before)) e)))"
      using e(1,4) [where req = req and s = s]
      by (intro exI [of _ "[?e req s]"]) (auto intro!: exI [of _ "[]"] simp del: apply_entries.simps(2))
  qed
  show "quiet_write bk failed_write"
    unfolding quiet_write_def failed_write_def by (auto intro!: exI [of _ "[]"])
  show "quiet_write bk (unacknowledged_write bk)"
    unfolding quiet_write_def unacknowledged_write_def using e(1,2,4)
    by (auto intro!: exI [of _ "[?e _ _]"] simp del: apply_entries.simps(2))
qed

definition mixed_rounds :: "(raft_metrics \<times> client_write) list" where
  "mixed_rounds =
     (let m = sole_leader; bk = (\<lambda>_. []) in
      [(m, direct_write bk), (m, failed_write), (m\<lparr>current_leader := None\<rparr>, direct_write bk),
       (m, unacknowledged_write bk), (m, direct_write bk), (m, direct_write bk), (m, direct_write bk)])"

theorem due_leases_expire_witness:
  "\<exists>u. expiry_rounds mixed_rounds timed = Some u \<and> is_expired (leases u) lease_one"
proof -
  have quiet: "\<forall>(m, cw)\<in>set mixed_rounds. quiet_write (\<lambda>_. []) cw"
    by (simp add: mixed_rounds_def quiet_examples Let_def)
  have "always_answers (sole_leader, direct_write (\<lambda>_. []))"
    by (simp add: always_answers_def sole_leader_def direct_write_def split_def Let_def)
  then have "4 \<le> length (filter always_answers mixed_rounds)"
    by (simp add: mixed_rounds_def Let_def)
  then have "4 \<le> answered_rounds mixed_rounds timed"
    using answered_rounds_ge [OF quiet timed_inv] by simp
  then show ?thesis
    using due_leases_expire [OF timed_inv quiet, of lease_one
        "\<lparr>lease_agent = the_agent, lease_blocks = [the_block], created_at = 2, committed = None\<rparr>"
        "\<lparr>generation = 1, deadline_tick = 3, ttl_ticks = 3\<rparr>"]
    by (auto simp: timed_run leased_run fmsize_fmupd)
qed

end
