(* ===== verification/Encoders.thy ===== *)
theory Encoders
  imports Kalpak_Core
begin

text \<open>
  The contract the canonical byte messages and the batch frames rest on.  An encoder is
  self-delimiting on a set of values when the bytes of one value are never a prefix of another
  value followed by anything: a reader that knows which encoder comes next always knows where it
  stops, so a concatenation of such fields is injective.

  The first locale states the law and derives injectivity and the law for a fixed number of
  repetitions; the second adds a fixed-width count and derives that a counted sequence is
  self-delimiting again.  The interpretations are the primitive fields the Rust code writes:
  little-endian integers, 32-byte identifiers, NUL-terminated strings, length-prefixed byte
  strings.
\<close>

locale self_delimiting =
  fixes ok :: "'a \<Rightarrow> bool"
    and enc :: "'a \<Rightarrow> bytes"
  assumes delim: "ok x \<Longrightarrow> ok y \<Longrightarrow> enc x @ r = enc y @ s \<Longrightarrow> x = y \<and> r = s"
begin

lemma enc_inj: "ok x \<Longrightarrow> ok y \<Longrightarrow> enc x = enc y \<Longrightarrow> x = y"
  using delim [of x y "[]" "[]"] by simp

lemma delim_iff: "ok x \<Longrightarrow> ok y \<Longrightarrow> enc x @ r = enc y @ s \<longleftrightarrow> x = y \<and> r = s"
  using delim by blast

lemma delim_concat:
  assumes "length xs = length ys" and "list_all ok xs" and "list_all ok ys"
    and "concat (map enc xs) @ r = concat (map enc ys) @ s"
  shows "xs = ys \<and> r = s"
  using assms
proof (induction xs ys rule: list_induct2)
  case Nil
  then show ?case by simp
next
  case (Cons x xs y ys)
  then have "enc x @ concat (map enc xs) @ r = enc y @ concat (map enc ys) @ s"
    by simp
  with Cons.prems delim have "x = y" and "concat (map enc xs) @ r = concat (map enc ys) @ s"
    by (metis list.pred_inject(2))+
  with Cons show ?case
    by simp
qed

end

text \<open>Two self-delimiting fields side by side.\<close>

locale delimited_pair = a: self_delimiting oka enca + b: self_delimiting okb encb
  for oka :: "'a \<Rightarrow> bool" and enca :: "'a \<Rightarrow> bytes"
    and okb :: "'b \<Rightarrow> bool" and encb :: "'b \<Rightarrow> bytes"

sublocale delimited_pair \<subseteq> pair: self_delimiting
  "\<lambda>p. oka (fst p) \<and> okb (snd p)" "\<lambda>p. enca (fst p) @ encb (snd p)"
proof
  fix x y r s
  assume "oka (fst x) \<and> okb (snd x)" and "oka (fst y) \<and> okb (snd y)"
    and "(enca (fst x) @ encb (snd x)) @ r = (enca (fst y) @ encb (snd y)) @ s"
  then show "x = y \<and> r = s"
    by (simp add: a.delim_iff b.delim_iff prod_eq_iff)
qed

text \<open>A count of fixed width in front of the items.\<close>

locale counted_seq = self_delimiting ok enc
  for ok :: "'a \<Rightarrow> bool" and enc :: "'a \<Rightarrow> bytes" +
  fixes count :: "nat \<Rightarrow> bytes"
    and limit :: nat
    and width :: nat
  assumes count_width: "length (count n) = width"
    and count_inj: "m < limit \<Longrightarrow> n < limit \<Longrightarrow> count m = count n \<Longrightarrow> m = n"

sublocale counted_seq \<subseteq> seq: self_delimiting
  "\<lambda>xs. length xs < limit \<and> list_all ok xs" "\<lambda>xs. count (length xs) @ concat (map enc xs)"
proof
  fix x y r s
  assume x: "length x < limit \<and> list_all ok x" and y: "length y < limit \<and> list_all ok y"
    and "(count (length x) @ concat (map enc x)) @ r = (count (length y) @ concat (map enc y)) @ s"
  then have "count (length x) = count (length y)"
    and rest: "concat (map enc x) @ r = concat (map enc y) @ s"
    by (simp_all add: count_width)
  then have "length x = length y"
    using x y count_inj by blast
  with rest x y show "x = y \<and> r = s"
    using delim_concat by blast
qed

section \<open>The primitive fields\<close>

definition encode_block :: "block_id \<Rightarrow> bytes" where
  "encode_block b = as_bytes (block_bytes b)"

definition count32 :: "nat \<Rightarrow> bytes" where
  "count32 n = u32_le (of_nat n)"

definition count64 :: "nat \<Rightarrow> bytes" where
  "count64 n = u64_le (of_nat n)"

definition nul_terminated :: "string \<Rightarrow> bytes" where
  "nul_terminated s = str_bytes s @ [0]"

definition nul_free :: "string \<Rightarrow> bool" where
  "nul_free s \<longleftrightarrow> 0 \<notin> set (str_bytes s)"

lemma encode_block_eq_iff [simp]: "encode_block a = encode_block b \<longleftrightarrow> a = b"
  by (metis as_bytes_eq_iff block_id.expand encode_block_def)

lemma length_encode_block [simp, codec_simps]: "length (encode_block b) = 32"
  by (simp add: encode_block_def)

lemma length_count [simp, codec_simps]: "length (count32 n) = 4" "length (count64 n) = 8"
  by (simp_all add: count32_def count64_def)

lemma of_nat_word_inj:
  "m < 2 ^ LENGTH('a) \<Longrightarrow> n < 2 ^ LENGTH('a) \<Longrightarrow> (of_nat m :: 'a::len word) = of_nat n
    \<Longrightarrow> m = n"
  by (metis mod_less unat_of_nat)

lemma count32_inj: "m < 2 ^ 32 \<Longrightarrow> n < 2 ^ 32 \<Longrightarrow> count32 m = count32 n \<Longrightarrow> m = n"
  using of_nat_word_inj [where 'a = 32] by (simp add: count32_def)

lemma count64_inj: "m < 2 ^ 64 \<Longrightarrow> n < 2 ^ 64 \<Longrightarrow> count64 m = count64 n \<Longrightarrow> m = n"
  using of_nat_word_inj [where 'a = 64] by (simp add: count64_def)

lemma append_delim:
  assumes "z \<notin> set xs" and "z \<notin> set ys" and "xs @ z # r = ys @ z # s"
  shows "xs = ys \<and> r = s"
  using assms
proof (induction xs arbitrary: ys)
  case Nil
  then show ?case
    by (cases ys) auto
next
  case (Cons x xs)
  then show ?case
    by (cases ys) auto
qed

interpretation u64_field: self_delimiting "\<lambda>_. True" u64_le
  by unfold_locales simp

interpretation byte_field: self_delimiting "\<lambda>_. True" "\<lambda>b. [b]"
  by unfold_locales simp

interpretation block_field: self_delimiting "\<lambda>_. True" encode_block
  by unfold_locales simp

interpretation nul_field: self_delimiting nul_free nul_terminated
proof
  fix x y r s
  assume "nul_free x" and "nul_free y" and "nul_terminated x @ r = nul_terminated y @ s"
  then have "str_bytes x = str_bytes y \<and> r = s"
    by (intro append_delim [of 0]) (simp_all add: nul_free_def nul_terminated_def)
  then show "x = y \<and> r = s"
    by simp
qed

interpretation blocks32: counted_seq "\<lambda>_. True" encode_block count32 "2 ^ 32" 4
  by unfold_locales (simp_all add: count32_inj)

interpretation blocks64: counted_seq "\<lambda>_. True" encode_block count64 "2 ^ 64" 8
  by unfold_locales (simp_all add: count64_inj)

interpretation bytes32_frame: counted_seq "\<lambda>_. True" "\<lambda>b. [b]" count32 "2 ^ 32" 4
  by unfold_locales (simp_all add: count32_inj)

interpretation bytes64_frame: counted_seq "\<lambda>_. True" "\<lambda>b. [b]" count64 "2 ^ 64" 8
  by unfold_locales (simp_all add: count64_inj)

end
