(* ===== verification/Signing.thy ===== *)
theory Signing
  imports Encoders
begin

text \<open>
  \<^verbatim>\<open>kalpak-core/src/signing.rs\<close>: the canonical byte messages an agent signs.  Each definition
  builds the buffer the Rust function builds, field by field.  The lemmas show what a signature
  covers: which operation it is for, and which of the request's fields.
\<close>

section \<open>Messages\<close>

definition REGISTER_PREFIX :: bytes where
  "REGISTER_PREFIX = str_bytes ''KLPK/reg/v1'' @ [0]"

definition BIND_PREFIX :: bytes where
  "BIND_PREFIX = str_bytes ''KLPK/bind/v1'' @ [0]"

definition CHAIN_PREFIX :: bytes where
  "CHAIN_PREFIX = str_bytes ''KLPK/chain/v1'' @ [0]"

definition LEASE_BEGIN_PREFIX :: bytes where
  "LEASE_BEGIN_PREFIX = str_bytes ''KLPK/lease/begin/v1'' @ [0]"

definition LEASE_CANCEL_PREFIX :: bytes where
  "LEASE_CANCEL_PREFIX = str_bytes ''KLPK/lease/cancel/v1'' @ [0]"

definition LEASE_RENEW_PREFIX :: bytes where
  "LEASE_RENEW_PREFIX = str_bytes ''KLPK/lease/renew/v1'' @ [0]"

definition LEASE_COMMIT_PREFIX :: bytes where
  "LEASE_COMMIT_PREFIX = str_bytes ''KLPK/lease/commit/v1'' @ [0]"

definition push_key :: "bytes \<Rightarrow> cache_key \<Rightarrow> bytes" where
  "push_key buf k =
     buf @ str_bytes (model_id (fingerprint k)) @ [0]
         @ str_bytes (tokenizer_hash (fingerprint k)) @ [0]
         @ str_bytes (kv_layout (fingerprint k)) @ [0]
         @ encode_block (prefix_hash k)"

definition push_link ::
  "bytes \<Rightarrow> cache_key \<Rightarrow> block_id list \<Rightarrow> cache_key option \<Rightarrow> bytes" where
  "push_link buf k blocks parent =
     push_key buf k @ u32_le (of_nat (length blocks)) @ concat (map encode_block blocks)
       @ (case parent of
            Some p \<Rightarrow> [1] @ encode_block (prefix_hash p)
          | None \<Rightarrow> [0])"

definition register_message :: "agent_id \<Rightarrow> string \<Rightarrow> bytes" where
  "register_message agent display_name =
     REGISTER_PREFIX @ as_bytes (agent_bytes agent) @ str_bytes display_name"

definition bind_message ::
  "agent_id \<Rightarrow> cache_key \<Rightarrow> block_id list \<Rightarrow> cache_key option \<Rightarrow> bytes" where
  "bind_message agent k blocks parent =
     push_link (BIND_PREFIX @ as_bytes (agent_bytes agent)) k blocks parent"

fun push_links :: "bytes \<Rightarrow> (cache_key \<times> block_id list \<times> cache_key option) list \<Rightarrow> bytes" where
  "push_links buf [] = buf"
| "push_links buf ((k, blocks, parent) # ls) = push_links (push_link buf k blocks parent) ls"

definition chain_message ::
  "agent_id \<Rightarrow> (cache_key \<times> block_id list \<times> cache_key option) list \<Rightarrow> bytes" where
  "chain_message agent links =
     push_links (CHAIN_PREFIX @ as_bytes (agent_bytes agent) @ u32_le (of_nat (length links)))
       links"

fun push_lease_values :: "bytes \<Rightarrow> string list \<Rightarrow> bytes" where
  "push_lease_values buf [] = buf"
| "push_lease_values buf (v # vs) =
     push_lease_values (buf @ u64_le (of_nat (length v)) @ str_bytes v) vs"

definition push_lease_key :: "bytes \<Rightarrow> cache_key \<Rightarrow> bytes" where
  "push_lease_key buf k =
     push_lease_values buf
       [model_id (fingerprint k), tokenizer_hash (fingerprint k), kv_layout (fingerprint k)]
     @ encode_block (prefix_hash k)"

definition lease_begin_message :: "agent_id \<Rightarrow> block_id \<Rightarrow> block_id list \<Rightarrow> bytes" where
  "lease_begin_message agent lease blocks =
     LEASE_BEGIN_PREFIX @ as_bytes (agent_bytes agent) @ encode_block lease
       @ u64_le (of_nat (length blocks)) @ concat (map encode_block blocks)"

definition lease_cancel_message :: "agent_id \<Rightarrow> block_id \<Rightarrow> bytes" where
  "lease_cancel_message agent lease =
     LEASE_CANCEL_PREFIX @ as_bytes (agent_bytes agent) @ encode_block lease"

definition lease_renew_message :: "agent_id \<Rightarrow> block_id \<Rightarrow> u64 \<Rightarrow> u64 \<Rightarrow> bytes" where
  "lease_renew_message agent lease expected_generation ttl_ticks =
     LEASE_RENEW_PREFIX @ as_bytes (agent_bytes agent) @ encode_block lease
       @ u64_le expected_generation @ u64_le ttl_ticks"

definition lease_commit_message ::
  "agent_id \<Rightarrow> block_id \<Rightarrow> cache_key \<Rightarrow> block_id list \<Rightarrow> cache_key option \<Rightarrow> u64 \<Rightarrow> bytes" where
  "lease_commit_message agent lease k blocks parent expected_revision =
     (let buf = LEASE_COMMIT_PREFIX @ as_bytes (agent_bytes agent) @ encode_block lease
                  @ u64_le expected_revision;
          buf = push_lease_key buf k;
          buf = buf @ u64_le (of_nat (length blocks)) @ concat (map encode_block blocks);
          buf = buf @ [if parent \<noteq> None then 1 else 0]
      in case parent of Some p \<Rightarrow> push_lease_key buf p | None \<Rightarrow> buf)"

text \<open>
  The wire form of a signature.  \<open>sign\<close> is Ed25519's signing function for a given secret key;
  a \<^verbatim>\<open>Signature\<close> is its 64 bytes.
\<close>

definition sign_hex :: "(bytes \<Rightarrow> string) \<Rightarrow> (bytes \<Rightarrow> bytes) \<Rightarrow> bytes \<Rightarrow> string" where
  "sign_hex hex_encode sign msg = hex_encode (sign msg)"

definition signature_from_hex :: "(string \<Rightarrow> bytes option) \<Rightarrow> string \<Rightarrow> error + bytes" where
  "signature_from_hex hex_decode s =
     (case hex_decode s of
        None \<Rightarrow> Inl BadSignature
      | Some raw \<Rightarrow> if length raw = 64 then Inr raw else Inl BadSignature)"

section \<open>What a message determines\<close>

text \<open>The signable requests, and the message of each.\<close>

datatype signed_write =
    Register agent_id string
  | Bind agent_id cache_key "block_id list" "cache_key option"
  | Chain agent_id "(cache_key \<times> block_id list \<times> cache_key option) list"
  | Lease_Begin agent_id block_id "block_id list"
  | Lease_Cancel agent_id block_id
  | Lease_Renew agent_id block_id u64 u64
  | Lease_Commit agent_id block_id cache_key "block_id list" "cache_key option" u64

fun message_of :: "signed_write \<Rightarrow> bytes" where
  "message_of (Register a n) = register_message a n"
| "message_of (Bind a k bs p) = bind_message a k bs p"
| "message_of (Chain a ls) = chain_message a ls"
| "message_of (Lease_Begin a l bs) = lease_begin_message a l bs"
| "message_of (Lease_Cancel a l) = lease_cancel_message a l"
| "message_of (Lease_Renew a l g t) = lease_renew_message a l g t"
| "message_of (Lease_Commit a l k bs p r) = lease_commit_message a l k bs p r"

fun prefix_of :: "signed_write \<Rightarrow> bytes" where
  "prefix_of (Register a n) = REGISTER_PREFIX"
| "prefix_of (Bind a k bs p) = BIND_PREFIX"
| "prefix_of (Chain a ls) = CHAIN_PREFIX"
| "prefix_of (Lease_Begin a l bs) = LEASE_BEGIN_PREFIX"
| "prefix_of (Lease_Cancel a l) = LEASE_CANCEL_PREFIX"
| "prefix_of (Lease_Renew a l g t) = LEASE_RENEW_PREFIX"
| "prefix_of (Lease_Commit a l k bs p r) = LEASE_COMMIT_PREFIX"

fun signer :: "signed_write \<Rightarrow> agent_id" where
  "signer (Register a n) = a"
| "signer (Bind a k bs p) = a"
| "signer (Chain a ls) = a"
| "signer (Lease_Begin a l bs) = a"
| "signer (Lease_Cancel a l) = a"
| "signer (Lease_Renew a l g t) = a"
| "signer (Lease_Commit a l k bs p r) = a"

lemmas prefix_defs = REGISTER_PREFIX_def BIND_PREFIX_def CHAIN_PREFIX_def LEASE_BEGIN_PREFIX_def
  LEASE_CANCEL_PREFIX_def LEASE_RENEW_PREFIX_def LEASE_COMMIT_PREFIX_def

lemma push_key_append: "push_key buf k = buf @ push_key [] k"
  by (simp add: push_key_def)

lemma push_link_append: "push_link buf k bs p = buf @ push_link [] k bs p"
  unfolding push_link_def by (subst push_key_append) simp

lemma push_links_append: "push_links buf ls = buf @ concat (map (\<lambda>(k, bs, p). push_link [] k bs p) ls)"
proof (induction buf ls rule: push_links.induct)
  case (2 buf k blocks parent ls)
  then show ?case
    using push_link_append [of buf k blocks parent] by simp
qed simp

text \<open>A string with its 64-bit length in front, as the lease messages write it.\<close>

definition sized_string :: "string \<Rightarrow> bytes" where
  "sized_string v = count64 (length v) @ str_bytes v"

lemma push_lease_values_append: "push_lease_values buf vs = buf @ concat (map sized_string vs)"
  by (induction buf vs rule: push_lease_values.induct) (simp_all add: count64_def sized_string_def)

lemma push_lease_key_append: "push_lease_key buf k = buf @ push_lease_key [] k"
  by (simp add: push_lease_key_def push_lease_values_append)

text \<open>
  Every message starts with its domain prefix and the signer, and no domain prefix is a prefix of
  another one.
\<close>

lemma message_of_shape: "\<exists>rest. message_of m = prefix_of m @ as_bytes (agent_bytes (signer m)) @ rest"
proof (cases m)
  case (Bind a k bs p)
  then show ?thesis
    using push_link_append [of "BIND_PREFIX @ as_bytes (agent_bytes a)" k bs p]
    by (simp add: bind_message_def)
next
  case (Chain a ls)
  then show ?thesis
    by (simp add: chain_message_def push_links_append)
next
  case (Lease_Commit a l k bs p r)
  then show ?thesis
    by (cases p) (simp_all add: lease_commit_message_def push_lease_key_def Let_def
        push_lease_values_append)
qed (simp_all add: register_message_def lease_begin_message_def lease_cancel_message_def
    lease_renew_message_def)

lemma message_prefixes_clash:
  assumes "prefix_of m @ r = prefix_of n @ s"
  shows "prefix_of m = prefix_of n"
  using assms by (cases m; cases n) (simp_all add: prefix_defs str_bytes_def)


text \<open>
  The values the encodings are faithful on: legacy messages terminate strings by NUL and count
  blocks in 32 bits, lease messages prefix every string by its 64-bit length.
\<close>

definition nul_free_key :: "cache_key \<Rightarrow> bool" where
  "nul_free_key k \<longleftrightarrow>
     nul_free (model_id (fingerprint k)) \<and> nul_free (tokenizer_hash (fingerprint k))
     \<and> nul_free (kv_layout (fingerprint k))"

definition sized_key :: "cache_key \<Rightarrow> bool" where
  "sized_key k \<longleftrightarrow>
     length (model_id (fingerprint k)) < 2 ^ 64 \<and> length (tokenizer_hash (fingerprint k)) < 2 ^ 64
     \<and> length (kv_layout (fingerprint k)) < 2 ^ 64"

definition link_ok :: "cache_key \<times> block_id list \<times> cache_key option \<Rightarrow> bool" where
  "link_ok l \<longleftrightarrow> nul_free_key (fst l) \<and> length (fst (snd l)) < 2 ^ 32"

text \<open>The part of a link that is signed: of the parent only its prefix hash.\<close>

definition cover_parent :: "cache_key \<Rightarrow> cache_key option \<Rightarrow> cache_key option" where
  "cover_parent k p = map_option (\<lambda>q. q\<lparr>fingerprint := fingerprint k\<rparr>) p"

definition cover_link ::
  "cache_key \<times> block_id list \<times> cache_key option \<Rightarrow> cache_key \<times> block_id list \<times> cache_key option"
  where "cover_link l = (fst l, fst (snd l), cover_parent (fst l) (snd (snd l)))"

fun writable :: "signed_write \<Rightarrow> bool" where
  "writable (Register a n) = True"
| "writable (Bind a k bs p) = link_ok (k, bs, p)"
| "writable (Chain a ls) = (length ls < 2 ^ 32 \<and> list_all link_ok ls)"
| "writable (Lease_Begin a l bs) = (length bs < 2 ^ 64)"
| "writable (Lease_Cancel a l) = True"
| "writable (Lease_Renew a l g t) = True"
| "writable (Lease_Commit a l k bs p r) =
     (sized_key k \<and> length bs < 2 ^ 64 \<and> (case p of None \<Rightarrow> True | Some q \<Rightarrow> sized_key q))"

fun covered :: "signed_write \<Rightarrow> signed_write" where
  "covered (Bind a k bs p) = Bind a k bs (cover_parent k p)"
| "covered (Chain a ls) = Chain a (map cover_link ls)"
| "covered m = m"

section \<open>The composite fields are self-delimiting\<close>

lemma cache_key_eqI:
  "model_id (fingerprint k) = model_id (fingerprint k')
    \<Longrightarrow> tokenizer_hash (fingerprint k) = tokenizer_hash (fingerprint k')
    \<Longrightarrow> kv_layout (fingerprint k) = kv_layout (fingerprint k')
    \<Longrightarrow> prefix_hash k = prefix_hash k' \<Longrightarrow> k = (k' :: cache_key)"
  by simp

interpretation sized_field: self_delimiting "\<lambda>v. length v < 2 ^ 64" sized_string
proof
  fix v w r s
  assume "length v < 2 ^ 64" and "length w < 2 ^ 64" and "sized_string v @ r = sized_string w @ s"
  then have "str_bytes v = str_bytes w \<and> r = s"
    using bytes64_frame.seq.delim [of "str_bytes v" "str_bytes w" r s]
    by (simp add: list_all_iff sized_string_def)
  then show "v = w \<and> r = s" by simp
qed

interpretation key_field: self_delimiting nul_free_key "push_key []"
proof
  fix x y :: cache_key and r s
  assume "nul_free_key x" and "nul_free_key y" and "push_key [] x @ r = push_key [] y @ s"
  then show "x = y \<and> r = s"
    using nul_field.delim_iff block_field.delim_iff
    by (auto simp: push_key_def nul_free_key_def nul_terminated_def intro!: cache_key_eqI)
qed

interpretation lease_key_field: self_delimiting sized_key "push_lease_key []"
proof
  fix x y :: cache_key and r s
  assume "sized_key x" and "sized_key y" and "push_lease_key [] x @ r = push_lease_key [] y @ s"
  then show "x = y \<and> r = s"
    using sized_field.delim_iff block_field.delim_iff
    by (auto simp: push_lease_key_def push_lease_values_append sized_key_def intro!: cache_key_eqI)
qed

text \<open>
  A legacy link does not carry its parent's fingerprint: it reads the same as the link whose
  parent has the fingerprint of the child, and on those links it is self-delimiting.
\<close>

lemma push_link_cover: "push_link [] (fst l) (fst (snd l)) (snd (snd l))
    = push_link [] (fst (cover_link l)) (fst (snd (cover_link l))) (snd (snd (cover_link l)))"
  by (simp add: push_link_def cover_link_def cover_parent_def split: option.split)

lemma cover_parent_eq_iff:
  "cover_parent k p = cover_parent k q \<longleftrightarrow> map_option prefix_hash p = map_option prefix_hash q"
proof -
  have "a\<lparr>fingerprint := f\<rparr> = b\<lparr>fingerprint := f\<rparr> \<longleftrightarrow> prefix_hash a = prefix_hash b"
    for a b :: cache_key and f
    by (cases a; cases b) simp
  then show ?thesis
    by (cases p; cases q) (simp_all add: cover_parent_def)
qed

interpretation link_field: self_delimiting "\<lambda>l. link_ok l \<and> cover_link l = l"
  "\<lambda>l. push_link [] (fst l) (fst (snd l)) (snd (snd l))"
proof
  fix x y :: "cache_key \<times> block_id list \<times> cache_key option" and r s
  assume x: "link_ok x \<and> cover_link x = x" and y: "link_ok y \<and> cover_link y = y"
    and eq: "push_link [] (fst x) (fst (snd x)) (snd (snd x)) @ r
           = push_link [] (fst y) (fst (snd y)) (snd (snd y)) @ s"
  obtain k bs p where X: "x = (k, bs, p)" by (cases x) auto
  obtain k' bs' p' where Y: "y = (k', bs', p')" by (cases y) auto
  define tail :: "cache_key option \<Rightarrow> bytes" where
    "tail p = (case p of Some p \<Rightarrow> [1] @ encode_block (prefix_hash p) | None \<Rightarrow> [0])" for p
  have "push_key [] k @ count32 (length bs) @ concat (map encode_block bs) @ tail p @ r
      = push_key [] k' @ count32 (length bs') @ concat (map encode_block bs') @ tail p' @ s"
    using eq by (simp add: X Y push_link_def count32_def tail_def)
  then have k: "k = k'" and "count32 (length bs) @ concat (map encode_block bs) @ tail p @ r
      = count32 (length bs') @ concat (map encode_block bs') @ tail p' @ s"
    using x y by (simp_all add: X Y link_ok_def key_field.delim_iff)
  then have bs: "bs = bs'" and "tail p @ r = tail p' @ s"
    using blocks32.seq.delim [of bs bs' "tail p @ r" "tail p' @ s"] x y
    by (simp_all add: X Y link_ok_def list_all_iff)
  then have "map_option prefix_hash p = map_option prefix_hash p' \<and> r = s"
    by (cases p; cases p') (simp_all add: tail_def block_field.delim_iff)
  moreover have "cover_parent k p = p" and "cover_parent k p' = p'"
    using x y k by (simp_all add: X Y cover_link_def)
  ultimately show "x = y \<and> r = s"
    using k bs cover_parent_eq_iff [of k p p'] by (simp add: X Y)
qed


interpretation chain_field: counted_seq "\<lambda>l. link_ok l \<and> cover_link l = l"
  "\<lambda>l. push_link [] (fst l) (fst (snd l)) (snd (snd l))" count32 "2 ^ 32" 4
  by unfold_locales (simp_all add: count32_inj)

lemma cover_link_idem [simp]: "cover_link (cover_link l) = cover_link l"
  by (simp add: cover_link_def cover_parent_def option.map_comp comp_def)

lemma link_ok_cover [simp]: "link_ok (cover_link l) = link_ok l"
  by (simp add: link_ok_def cover_link_def)

lemma message_of_covered: "message_of (covered m) = message_of m"
proof (cases m)
  case (Bind a k bs p)
  then show ?thesis
    using push_link_cover [of "(k, bs, p)"] push_link_append [of "BIND_PREFIX @ as_bytes (agent_bytes a)"]
    by (simp add: bind_message_def cover_link_def)
next
  case (Chain a ls)
  have "concat (map (\<lambda>(k, bs, p). push_link [] k bs p) (map cover_link ls))
      = concat (map (\<lambda>(k, bs, p). push_link [] k bs p) ls)"
    by (rule arg_cong [of _ _ concat]) (simp add: split_def push_link_cover [symmetric])
  with Chain show ?thesis
    by (simp add: chain_message_def push_links_append)
qed simp_all

lemma covered_writable: "writable m \<Longrightarrow> writable (covered m)"
  by (cases m) (auto simp: list_all_iff link_ok_def cover_link_def)

lemma covered_idem [simp]: "covered (covered m) = covered m"
  using cover_link_idem by (cases m) (auto simp: cover_link_def)

lemma bind_message_inj:
  assumes "link_ok l" "link_ok l'" "cover_link l = l" "cover_link l' = l'"
    and "bind_message a (fst l) (fst (snd l)) (snd (snd l))
       = bind_message a' (fst l') (fst (snd l')) (snd (snd l'))"
  shows "a = a' \<and> l = l'"
proof -
  note eq = assms(5) [unfolded bind_message_def]
  have "as_bytes (agent_bytes a) @ push_link [] (fst l) (fst (snd l)) (snd (snd l))
      = as_bytes (agent_bytes a') @ push_link [] (fst l') (fst (snd l')) (snd (snd l'))"
    using eq push_link_append [of "BIND_PREFIX @ as_bytes (agent_bytes a)"]
      push_link_append [of "BIND_PREFIX @ as_bytes (agent_bytes a')"] by simp
  then show ?thesis
    using link_field.enc_inj [of l l'] assms(1-4) by (simp add: agent_id.expand)
qed

lemma chain_message_inj:
  assumes "length ls < 2 ^ 32" "length ls' < 2 ^ 32"
    and "\<forall>l\<in>set ls. link_ok l \<and> cover_link l = l" "\<forall>l\<in>set ls'. link_ok l \<and> cover_link l = l"
    and "chain_message a ls = chain_message a' ls'"
  shows "a = a' \<and> ls = ls'"
proof -
  let ?enc = "\<lambda>l. push_link [] (fst l) (fst (snd l)) (snd (snd l))"
  have "as_bytes (agent_bytes a) @ count32 (length ls) @ concat (map ?enc ls)
      = as_bytes (agent_bytes a') @ count32 (length ls') @ concat (map ?enc ls')"
    using assms(5) by (simp add: chain_message_def push_links_append count32_def split_def)
  then show ?thesis
    using chain_field.seq.enc_inj [of ls ls'] assms(1-4)
    by (simp add: agent_id.expand list_all_iff)
qed

lemma lease_begin_message_inj:
  assumes "length bs < 2 ^ 64" "length bs' < 2 ^ 64"
    and "lease_begin_message a l bs = lease_begin_message a' l' bs'"
  shows "a = a' \<and> l = l' \<and> bs = bs'"
proof -
  have "as_bytes (agent_bytes a) @ encode_block l @ count64 (length bs) @ concat (map encode_block bs)
     = as_bytes (agent_bytes a') @ encode_block l' @ count64 (length bs') @ concat (map encode_block bs')"
    using assms(3) by (simp add: lease_begin_message_def count64_def)
  then show ?thesis
    using blocks64.seq.enc_inj [of bs bs'] assms(1,2)
    by (simp add: agent_id.expand block_field.delim_iff list_all_iff)
qed

lemma lease_commit_message_inj:
  assumes "writable (Lease_Commit a l k bs p r)" "writable (Lease_Commit a' l' k' bs' p' r')"
    and "lease_commit_message a l k bs p r = lease_commit_message a' l' k' bs' p' r'"
  shows "a = a' \<and> l = l' \<and> k = k' \<and> bs = bs' \<and> p = p' \<and> r = r'"
proof -
  define tail :: "cache_key option \<Rightarrow> bytes" where
    "tail p = (case p of Some q \<Rightarrow> 1 # push_lease_key [] q | None \<Rightarrow> [0])" for p
  have shape: "lease_commit_message a l k bs p r
      = LEASE_COMMIT_PREFIX @ as_bytes (agent_bytes a) @ encode_block l @ u64_le r
        @ push_lease_key [] k @ count64 (length bs) @ concat (map encode_block bs) @ tail p"
    for a l k bs p r
    by (cases p) (simp_all add: lease_commit_message_def Let_def tail_def count64_def
        push_lease_key_def push_lease_values_append)
  have "a = a'" "l = l'" "r = r'" "k = k'"
    and "count64 (length bs) @ concat (map encode_block bs) @ tail p
       = count64 (length bs') @ concat (map encode_block bs') @ tail p'"
    using assms by (simp_all add: shape agent_id.expand block_field.delim_iff
        lease_key_field.delim_iff)
  moreover from this have "bs = bs'" and "tail p = tail p'"
    using blocks64.seq.delim [of bs bs' "tail p" "tail p'"] assms(1,2)
    by (simp_all add: list_all_iff)
  moreover from this have "p = p'"
    using assms(1,2) lease_key_field.enc_inj
    by (cases p; cases p') (simp_all add: tail_def)
  ultimately show ?thesis by simp
qed


lemma map_fixed: "map f xs = xs \<Longrightarrow> x \<in> set xs \<Longrightarrow> f x = x"
  by (induction xs) auto

lemma covered_message_inj:
  assumes "writable m" "writable n" "covered m = m" "covered n = n" "message_of m = message_of n"
  shows "m = n"
proof -
  obtain r s where "message_of m = prefix_of m @ as_bytes (agent_bytes (signer m)) @ r"
    and "message_of n = prefix_of n @ as_bytes (agent_bytes (signer n)) @ s"
    using message_of_shape by meson
  with assms(5) have pre: "prefix_of m = prefix_of n"
    by (metis message_prefixes_clash)
  show ?thesis
  proof (cases m)
    case (Register a d)
    with pre obtain a' d' where "n = Register a' d'"
      by (cases n) (auto simp: prefix_defs str_bytes_def)
    with Register assms(5) show ?thesis
      by (simp add: register_message_def agent_id.expand)
  next
    case (Bind a k bs p)
    with pre obtain a' k' bs' p' where "n = Bind a' k' bs' p'"
      by (cases n) (auto simp: prefix_defs str_bytes_def)
    with Bind assms show ?thesis
      using bind_message_inj [of "(k, bs, p)" "(k', bs', p')" a a'] by (simp add: cover_link_def)
  next
    case (Chain a ls)
    with pre obtain a' ls' where "n = Chain a' ls'"
      by (cases n) (auto simp: prefix_defs str_bytes_def)
    with Chain assms show ?thesis
      using chain_message_inj [of ls ls' a a'] map_fixed [of cover_link] by (simp add: list_all_iff)
  next
    case (Lease_Begin a l bs)
    with pre obtain a' l' bs' where "n = Lease_Begin a' l' bs'"
      by (cases n) (auto simp: prefix_defs str_bytes_def)
    with Lease_Begin assms show ?thesis
      using lease_begin_message_inj by simp
  next
    case (Lease_Cancel a l)
    with pre obtain a' l' where "n = Lease_Cancel a' l'"
      by (cases n) (auto simp: prefix_defs str_bytes_def)
    with Lease_Cancel assms(5) show ?thesis
      using block_field.enc_inj by (simp add: lease_cancel_message_def agent_id.expand)
  next
    case (Lease_Renew a l g t)
    with pre obtain a' l' g' t' where "n = Lease_Renew a' l' g' t'"
      by (cases n) (auto simp: prefix_defs str_bytes_def)
    with Lease_Renew assms(5) show ?thesis
      by (simp add: lease_renew_message_def agent_id.expand block_field.delim_iff)
  next
    case (Lease_Commit a l k bs p r)
    with pre obtain a' l' k' bs' p' r' where "n = Lease_Commit a' l' k' bs' p' r'"
      by (cases n) (auto simp: prefix_defs str_bytes_def)
    with Lease_Commit assms show ?thesis
      using lease_commit_message_inj [of a l k bs p r a' l' k' bs' p' r'] by simp
  qed
qed


section \<open>Properties\<close>

text \<open>
  C4.  A signature covers exactly the operation, the signer and all fields of a request, except
  the fingerprint of a legacy parent: two requests whose lengths fit their counts (and, for the
  legacy bind messages, whose fingerprints hold no NUL) have the same canonical message iff they
  agree after every legacy parent is given the fingerprint of its child.  In particular a message
  of one of the seven operations is never a message of another one.
\<close>

theorem message_covers_request:
  assumes "writable m" and "writable n"
  shows "message_of m = message_of n \<longleftrightarrow> covered m = covered n"
proof
  assume "message_of m = message_of n"
  then show "covered m = covered n"
    using covered_message_inj [of "covered m" "covered n"] assms
    by (simp add: covered_writable message_of_covered)
next
  assume "covered m = covered n"
  then show "message_of m = message_of n"
    by (metis message_of_covered)
qed

definition example_key :: "string \<Rightarrow> u8 \<Rightarrow> cache_key" where
  "example_key m b =
     \<lparr>fingerprint = \<lparr>model_id = m, tokenizer_hash = ''t'', kv_layout = ''l''\<rparr>,
      prefix_hash = BlockId (fill32 b)\<rparr>"

text \<open>
  Concretely: a renewal is no cancellation, and a signed bind whose parent is a key of model
  \<open>m\<close> is, byte for byte, the signed bind whose parent is a key of model \<open>other\<close>.
\<close>

theorem message_covers_request_witness:
  "message_of (Lease_Renew (AgentId (fill32 1)) (BlockId (fill32 2)) 3 4)
     \<noteq> message_of (Lease_Cancel (AgentId (fill32 1)) (BlockId (fill32 2)))
   \<and> message_of (Bind (AgentId (fill32 1)) (example_key ''m'' 2) [] (Some (example_key ''m'' 3)))
     = message_of (Bind (AgentId (fill32 1)) (example_key ''m'' 2) [] (Some (example_key ''other'' 3)))"
proof
  show "message_of (Lease_Renew (AgentId (fill32 1)) (BlockId (fill32 2)) 3 4)
     \<noteq> message_of (Lease_Cancel (AgentId (fill32 1)) (BlockId (fill32 2)))"
    by (subst message_covers_request) simp_all
  show "message_of (Bind (AgentId (fill32 1)) (example_key ''m'' 2) [] (Some (example_key ''m'' 3)))
     = message_of (Bind (AgentId (fill32 1)) (example_key ''m'' 2) [] (Some (example_key ''other'' 3)))"
    by (subst message_covers_request)
      (simp_all add: link_ok_def nul_free_key_def nul_free_def str_bytes_def example_key_def
        cover_parent_def)
qed

end
