(* ===== verification/Segment.thy ===== *)
theory Segment
  imports Kalpak_Core
begin

text \<open>
  \<^verbatim>\<open>kalpak-storage/src/segment.rs\<close> and the file calls of \<^verbatim>\<open>io.rs\<close>: the record format of segment files
  and the scan that rebuilds the index.  A file is its bytes.  Offsets and lengths are \<^verbatim>\<open>u64\<close>, and
  additions wrap (release builds do not check for overflow), so the scan may run forever: it is a
  \<open>partial_function\<close>, and \<open>None\<close> means that it does not return.
\<close>

section \<open>Files\<close>

text \<open>\<^verbatim>\<open>read_exact_at\<close> and \<^verbatim>\<open>write_all_at\<close>; a write past the end leaves zeros between.\<close>

definition read_at :: "bytes \<Rightarrow> u64 \<Rightarrow> nat \<Rightarrow> error + bytes" where
  "read_at data off n =
     (if n = 0 then Inr []
      else if unat off + n \<le> length data then Inr (slice (unat off) (unat off + n) data)
      else Inl (Io ''unexpected end of file''))"

definition write_at :: "u64 \<Rightarrow> bytes \<Rightarrow> bytes \<Rightarrow> bytes" where
  "write_at off bs data =
     take (unat off) (data @ replicate (unat off - length data) 0) @ bs @ drop (unat off + length bs) data"

definition write_slice :: "nat \<Rightarrow> bytes \<Rightarrow> bytes \<Rightarrow> bytes" where
  "write_slice off bs buf = take off buf @ bs @ drop (off + length bs) buf"

section \<open>Records\<close>

definition MAGIC :: bytes where "MAGIC = str_bytes ''KLPK''"
definition FORMAT_VERSION :: u32 where "FORMAT_VERSION = 1"
definition HEADER_LEN :: u64 where "HEADER_LEN = 64"
definition BLOCK_ALIGN :: u64 where "BLOCK_ALIGN = 4096"

definition div_ceil :: "u64 \<Rightarrow> u64 \<Rightarrow> u64" where
  "div_ceil a b = (if 0 < a mod b then a div b + 1 else a div b)"

definition record_len :: "u64 \<Rightarrow> u64" where
  "record_len n = div_ceil (HEADER_LEN + n) BLOCK_ALIGN * BLOCK_ALIGN"

definition encode_record :: "block_id \<Rightarrow> bytes \<Rightarrow> bytes" where
  "encode_record i data =
     (let buf = replicate (unat (record_len (of_nat (length data)))) 0;
          buf = write_slice 0 MAGIC buf;
          buf = write_slice 4 (u32_le FORMAT_VERSION) buf;
          buf = write_slice 8 (u64_le (of_nat (length data))) buf;
          buf = write_slice 16 (as_bytes (block_bytes i)) buf
      in write_slice (unat HEADER_LEN) data buf)"

record record_header =
  header_id :: block_id
  header_len :: u64

definition parse_header :: "bytes \<Rightarrow> record_header option" where
  "parse_header buf =
     (if slice 0 4 buf \<noteq> MAGIC then None
      else if u32_from_le (slice 4 8 buf) \<noteq> FORMAT_VERSION then None
      else Some \<lparr>header_id = BlockId (the (try_bytes32 (slice 16 48 buf))),
                 header_len = u64_from_le (slice 8 16 buf)\<rparr>)"

record location =
  loc_segment :: u32
  loc_offset :: u64
  loc_len :: u64

section \<open>Scanning\<close>

partial_function (option) scan_from ::
  "bytes \<Rightarrow> u32 \<Rightarrow> u64 \<Rightarrow> (block_id \<times> location) list
     \<Rightarrow> (error + (block_id \<times> location) list \<times> u64) option" where
  "scan_from data seg off found =
     (if off + HEADER_LEN \<le> of_nat (length data)
      then case read_at data off (unat HEADER_LEN) of
             Inl e \<Rightarrow> Some (Inl e)
           | Inr header \<Rightarrow>
               (case parse_header header of
                  None \<Rightarrow> Some (Inr (found, off))
                | Some rec \<Rightarrow>
                    let total = record_len (header_len rec) in
                    if of_nat (length data) < off + total then Some (Inr (found, off))
                    else scan_from data seg (off + total)
                           (found @ [(header_id rec,
                              \<lparr>loc_segment = seg, loc_offset = off, loc_len = header_len rec\<rparr>)]))
      else Some (Inr (found, off)))"

declare scan_from.simps [code]

definition scan :: "bytes \<Rightarrow> u32 \<Rightarrow> (error + (block_id \<times> location) list \<times> u64) option" where
  "scan data seg = scan_from data seg 0 []"

section \<open>Lengths\<close>

lemmas segment_consts = HEADER_LEN_def BLOCK_ALIGN_def FORMAT_VERSION_def

definition padded :: "nat \<Rightarrow> nat" where
  "padded n = (n + 64 + 4095) div 4096 * 4096"

lemma padded_bounds: "n + 64 \<le> padded n" "padded n < n + 64 + 4096" "padded n mod 4096 = 0" "4096 \<le> padded n"
  by (simp_all add: padded_def)

lemma ceil_4096: "(m + 4095) div 4096 = (if 0 < m mod 4096 then m div 4096 + 1 else m div (4096::nat))"
proof -
  have "(m + 4095) div 4096 = (m mod 4096 + 4095 + m div 4096 * 4096) div 4096"
    by simp
  also have "\<dots> = m div 4096 + (m mod 4096 + 4095) div 4096"
    by (subst div_mult_self1) simp_all
  also have "(m mod 4096 + 4095) div 4096 = (if 0 < m mod 4096 then 1 else 0)"
    by (cases "m mod 4096 = 0") (auto intro!: div_nat_eqI)
  finally show ?thesis by simp
qed

lemma unat_record_len:
  assumes "unat n < 2 ^ 63"
  shows "unat (record_len n) = padded (unat n)"
proof -
  have raw: "unat (HEADER_LEN + n) = 64 + unat n"
    using assms by (simp add: HEADER_LEN_def unat_plus_if')
  have ceil: "unat (div_ceil (HEADER_LEN + n) BLOCK_ALIGN) = (unat n + 64 + 4095) div 4096"
  proof -
    have "unat ((HEADER_LEN + n) div BLOCK_ALIGN) = (64 + unat n) div 4096"
      "unat ((HEADER_LEN + n) mod BLOCK_ALIGN) = (64 + unat n) mod 4096"
      by (simp_all add: unat_div unat_mod raw BLOCK_ALIGN_def)
    moreover from this have "unat ((HEADER_LEN + n) div BLOCK_ALIGN + 1) = (64 + unat n) div 4096 + 1"
      using assms by (simp add: unat_plus_if')
    ultimately show ?thesis
      using ceil_4096 [of "64 + unat n"]
      by (simp add: div_ceil_def word_less_nat_alt add.commute split: if_splits)
  qed
  have "padded (unat n) < 2 ^ 64"
    using assms padded_bounds(2) [of "unat n"] by simp
  moreover have "unat (record_len n) = padded (unat n) mod 2 ^ 64"
    unfolding record_len_def unat_word_ariths(2) ceil by (simp add: padded_def BLOCK_ALIGN_def)
  ultimately show ?thesis by simp
qed

section \<open>Encoding and parsing\<close>

lemma length_MAGIC [simp]: "length MAGIC = 4"
  by (simp add: MAGIC_def)

lemma write_slice_append:
  "length xs = off \<Longrightarrow> length bs \<le> length ys \<Longrightarrow> write_slice off bs (xs @ ys) = (xs @ bs) @ drop (length bs) ys"
  by (simp add: write_slice_def)

text \<open>The layout the format promises: header, reserved zeros, payload, padding.\<close>

definition header_bytes :: "block_id \<Rightarrow> u64 \<Rightarrow> bytes" where
  "header_bytes i n = MAGIC @ u32_le FORMAT_VERSION @ u64_le n @ as_bytes (block_bytes i) @ replicate 16 0"

lemma length_header_bytes [simp]: "length (header_bytes i n) = 64"
  by (simp add: header_bytes_def)

lemma encode_record_layout:
  assumes "length data < 2 ^ 63"
  shows "encode_record i data =
    header_bytes i (of_nat (length data)) @ data @ replicate (padded (length data) - 64 - length data) 0"
proof -
  let ?n = "padded (length data)"
  have n: "unat (record_len (of_nat (length data))) = ?n"
    using unat_record_len [of "of_nat (length data)"] assms by (simp add: unat_of_nat)
  have "64 + length data \<le> ?n"
    using padded_bounds(1) [of "length data"] by simp
  then obtain k where "?n = 64 + length data + k"
    using le_Suc_ex by blast
  then have k: "?n = 4 + (4 + (8 + (32 + (16 + (length data + k)))))"
    by simp
  show ?thesis
    unfolding encode_record_def Let_def n k replicate_add HEADER_LEN_def
    by (simp add: write_slice_def header_bytes_def)
qed

lemma parse_header_bytes [simp]: "parse_header (header_bytes i n) = Some \<lparr>header_id = i, header_len = n\<rparr>"
proof -
  have "slice 0 4 (header_bytes i n) = MAGIC" "slice 4 8 (header_bytes i n) = u32_le FORMAT_VERSION"
    "slice 8 16 (header_bytes i n) = u64_le n" "slice 16 48 (header_bytes i n) = as_bytes (block_bytes i)"
    by (simp_all add: header_bytes_def slice_def)
  then show ?thesis
    by (simp add: parse_header_def)
qed

lemma length_encode_record: "length data < 2 ^ 63 \<Longrightarrow> length (encode_record i data) = padded (length data)"
  using padded_bounds(1) [of "length data"] by (simp add: encode_record_layout)

section \<open>Scanning well-formed files\<close>

definition segment_bytes :: "(block_id \<times> bytes) list \<Rightarrow> bytes" where
  "segment_bytes rs = concat (map (\<lambda>(i, data). encode_record i data) rs)"

fun locations :: "u32 \<Rightarrow> nat \<Rightarrow> (block_id \<times> bytes) list \<Rightarrow> (block_id \<times> location) list" where
  "locations seg off [] = []"
| "locations seg off ((i, data) # rs) =
     (i, \<lparr>loc_segment = seg, loc_offset = of_nat off, loc_len = of_nat (length data)\<rparr>)
       # locations seg (off + padded (length data)) rs"

text \<open>What ends a scan: too few bytes, no header, or a header whose record is not all there.\<close>

definition scan_ends :: "bytes \<Rightarrow> nat \<Rightarrow> bool" where
  "scan_ends data off \<longleftrightarrow>
     length data < off + 64
     \<or> (case parse_header (slice off (off + 64) data) of
          None \<Rightarrow> True
        | Some rec \<Rightarrow> unat (header_len rec) < 2 ^ 63 \<and> length data < off + padded (unat (header_len rec)))"

lemma word_of_nat_unat_id: "of_nat (unat w) = (w :: u64)"
  by simp

lemma unat_of_nat_u64: "n < 2 ^ 64 \<Longrightarrow> unat (of_nat n :: u64) = n"
  by (simp add: unat_of_nat)

lemma offset_fits:
  assumes "length data < 2 ^ 62" and "off \<le> length data" and "n \<le> 2 ^ 63 + 8192"
  shows "unat (of_nat off + of_nat n :: u64) = off + n"
proof -
  have "off + n < 2 ^ 64"
    using assms by simp
  then have "unat (of_nat (off + n) :: u64) = off + n"
    by (rule unat_of_nat_u64)
  then show ?thesis by simp
qed

lemma header_fits:
  assumes "length data < 2 ^ 62" and "off \<le> length data"
  shows "(of_nat off + HEADER_LEN \<le> (of_nat (length data) :: u64)) = (off + 64 \<le> length data)"
  using offset_fits [OF assms, of 64] assms(1)
  by (simp add: word_le_nat_alt HEADER_LEN_def unat_of_nat_u64)

lemma scan_from_end:
  assumes "length data < 2 ^ 62" and "off \<le> length data" and "scan_ends data off"
  shows "scan_from data seg (of_nat off) found = Some (Inr (found, of_nat off))"
proof (cases "off + 64 \<le> length data")
  case False
  then show ?thesis
    by (subst scan_from.simps) (simp add: header_fits [OF assms(1,2)])
next
  case True
  then have read: "read_at data (of_nat off) (unat HEADER_LEN) = Inr (slice off (off + 64) data)"
    using assms(1,2) by (simp add: read_at_def HEADER_LEN_def unat_of_nat_u64)
  show ?thesis
  proof (cases "parse_header (slice off (off + 64) data)")
    case None
    then show ?thesis
      using True by (subst scan_from.simps) (simp add: header_fits [OF assms(1,2)] read)
  next
    case (Some rec)
    with assms(3) True have big: "unat (header_len rec) < 2 ^ 63" "length data < off + padded (unat (header_len rec))"
      by (simp_all add: scan_ends_def)
    have "unat (of_nat off + record_len (header_len rec)) = off + padded (unat (header_len rec))"
      using offset_fits [OF assms(1,2), of "padded (unat (header_len rec))"] big(1)
        padded_bounds(2) [of "unat (header_len rec)"]
      by (simp flip: unat_record_len)
    then have "of_nat (length data) < of_nat off + record_len (header_len rec)"
      using big(2) assms(1) by (simp add: word_less_nat_alt unat_of_nat_u64)
    then show ?thesis
      using True by (subst scan_from.simps) (simp add: header_fits [OF assms(1,2)] read Some)
  qed
qed

lemma scan_from_record:
  assumes "length data < 2 ^ 62" and "data = pre @ encode_record i payload @ post"
  shows "scan_from data seg (of_nat (length pre)) found =
    scan_from data seg (of_nat (length pre + padded (length payload)))
      (found @ [(i, \<lparr>loc_segment = seg, loc_offset = of_nat (length pre), loc_len = of_nat (length payload)\<rparr>)])"
proof -
  let ?off = "length pre" and ?n = "of_nat (length payload) :: u64"
  have small: "length payload < 2 ^ 63"
  proof -
    have "length payload \<le> length (encode_record i payload)"
      by (simp add: encode_record_def write_slice_def Let_def)
    then show ?thesis
      using assms by simp
  qed
  have len: "length data = ?off + padded (length payload) + length post"
    using assms(2) length_encode_record [OF small] by simp
  have n: "unat ?n = length payload" "unat (record_len ?n) = padded (length payload)"
    using small unat_record_len [of ?n] by (simp_all add: unat_of_nat_u64)
  have off: "?off \<le> length data" "?off + 64 \<le> length data"
    using len padded_bounds(4) [of "length payload"] by simp_all
  have "slice ?off (?off + 64) data = header_bytes i ?n"
    unfolding assms(2) encode_record_layout [OF small] by (simp add: slice_def)
  then have read: "read_at data (of_nat ?off) (unat HEADER_LEN) = Inr (header_bytes i ?n)"
    using assms(1) off by (simp add: read_at_def HEADER_LEN_def unat_of_nat_u64)
  have next_off: "of_nat ?off + record_len ?n = (of_nat (?off + padded (length payload)) :: u64)"
    by (metis n(2) of_nat_add word_of_nat_unat_id)
  have "\<not> of_nat (length data) < (of_nat (?off + padded (length payload)) :: u64)"
    using len assms(1) by (simp add: word_less_nat_alt unat_of_nat_u64 del: of_nat_add)
  then show ?thesis
    using off by (subst scan_from.simps)
      (simp add: header_fits [OF assms(1) off(1)] read next_off Let_def del: of_nat_add)
qed

lemma scan_from_records:
  assumes "length data < 2 ^ 62" and "data = pre @ segment_bytes rs @ rest"
    and "scan_ends data (length pre + length (segment_bytes rs))"
  shows "scan_from data seg (of_nat (length pre)) found =
    Some (Inr (found @ locations seg (length pre) rs, of_nat (length pre + length (segment_bytes rs))))"
  using assms(2,3)
proof (induction rs arbitrary: pre found)
  case Nil
  then show ?case
    using scan_from_end [OF assms(1), of "length pre"] by (simp add: segment_bytes_def)
next
  case (Cons r rs)
  obtain i payload where r: "r = (i, payload)" by fastforce
  have split: "data = pre @ encode_record i payload @ (segment_bytes rs @ rest)"
    using Cons.prems(1) by (simp add: r segment_bytes_def)
  have "length payload \<le> length (encode_record i payload)"
    by (simp add: encode_record_def write_slice_def Let_def)
  then have small: "length payload < 2 ^ 63"
    using assms(1) split by simp
  note len = length_encode_record [OF small, of i]
  have bytes: "segment_bytes (r # rs) = encode_record i payload @ segment_bytes rs"
    by (simp add: r segment_bytes_def)
  let ?found = "found @ [(i, \<lparr>loc_segment = seg, loc_offset = of_nat (length pre),
      loc_len = of_nat (length payload)\<rparr>)]"
  have "scan_from data seg (of_nat (length (pre @ encode_record i payload))) ?found
      = Some (Inr (?found @ locations seg (length (pre @ encode_record i payload)) rs,
          of_nat (length (pre @ encode_record i payload) + length (segment_bytes rs))))"
  proof (rule Cons.IH)
    show "data = (pre @ encode_record i payload) @ segment_bytes rs @ rest"
      using split by simp
    show "scan_ends data (length (pre @ encode_record i payload) + length (segment_bytes rs))"
      using Cons.prems(2) by (simp add: bytes add.assoc)
  qed
  then show ?case
    unfolding scan_from_record [OF assms(1) split] r locations.simps
    by (simp add: bytes [unfolded r] len add.assoc)
qed

section \<open>Properties\<close>

text \<open>
  Records round-trip and are aligned.  For every payload that fits in memory, the header of the
  encoded record parses to its id and length, the payload follows the header, and the record is a
  multiple of 4096 bytes long with less than one block of padding.
\<close>

theorem record_roundtrip:
  assumes "length data < 2 ^ 63"
  shows "parse_header (take 64 (encode_record i data)) = Some \<lparr>header_id = i, header_len = of_nat (length data)\<rparr>
       \<and> slice 64 (64 + length data) (encode_record i data) = data
       \<and> length (encode_record i data) = unat (record_len (of_nat (length data)))
       \<and> length (encode_record i data) mod 4096 = 0
       \<and> length (encode_record i data) < 64 + length data + 4096"
  using assms padded_bounds [of "length data"] unat_record_len [of "of_nat (length data)"]
  by (simp add: length_encode_record unat_of_nat_u64) (simp add: encode_record_layout slice_def)

theorem record_roundtrip_witness:
  "parse_header (take 64 (encode_record (BlockId (fill32 1)) [1, 2, 3]))
     = Some \<lparr>header_id = BlockId (fill32 1), header_len = 3\<rparr>"
  using record_roundtrip [of "[1, 2, 3]" "BlockId (fill32 1)"] by simp

text \<open>
  Reopening finds every record.  On a file of complete records, whatever follows them as long as it
  does not look like another complete record, the scan returns exactly the records with their
  locations, in order, and the offset at which the next record belongs.
\<close>

lemma scan_finds_records:
  assumes "length (segment_bytes rs @ rest) < 2 ^ 62"
    and "scan_ends (segment_bytes rs @ rest) (length (segment_bytes rs))"
  shows "scan (segment_bytes rs @ rest) seg =
    Some (Inr (locations seg 0 rs, of_nat (length (segment_bytes rs))))"
  using scan_from_records [OF assms(1), of "[]" rs rest seg "[]"] assms(2)
  by (simp add: scan_def)

lemma segment_bytes_empty [simp]: "segment_bytes [] = []"
  by (simp add: segment_bytes_def)

lemma length_segment_bytes_one:
  "length data < 2 ^ 63 \<Longrightarrow> length (segment_bytes [(i, data)]) = padded (length data)"
  by (simp add: segment_bytes_def length_encode_record)

lemma scan_finds_records_witness:
  "scan (segment_bytes [(BlockId (fill32 1), [1, 2, 3])] @ [75]) 0 =
     Some (Inr ([(BlockId (fill32 1), \<lparr>loc_segment = 0, loc_offset = 0, loc_len = 3\<rparr>)], 4096))"
proof -
  have "length (segment_bytes [(BlockId (fill32 1), [1, 2, 3 :: u8])]) = 4096"
    by (simp add: length_segment_bytes_one padded_def)
  then show ?thesis
    using scan_finds_records [of "[(BlockId (fill32 1), [1, 2, 3])]" "[75]" 0]
    by (simp add: scan_ends_def)
qed

text \<open>The offsets at which the scan reads a header: the start, and behind every complete record.\<close>

inductive record_start :: "bytes \<Rightarrow> nat \<Rightarrow> bool" for data where
  first: "record_start data 0"
| behind: "record_start data off \<Longrightarrow> off + 64 \<le> length data
    \<Longrightarrow> parse_header (slice off (off + 64) data) = Some rec
    \<Longrightarrow> off + padded (unat (header_len rec)) \<le> length data
    \<Longrightarrow> record_start data (off + padded (unat (header_len rec)))"

text \<open>
  C40.  The scan of a file shorter than \<open>2\<^sup>6\<^sup>2\<close> bytes returns whenever the length fields of the headers it
  visits are below \<open>2\<^sup>6\<^sup>3\<close>: it then stops at the first record start with no complete record behind it.
\<close>

theorem scan_terminates:
  assumes "length data < 2 ^ 62"
    and "\<And>off rec. record_start data off \<Longrightarrow> parse_header (slice off (off + 64) data) = Some rec
      \<Longrightarrow> unat (header_len rec) < 2 ^ 63"
  shows "\<exists>found k. scan data seg = Some (Inr (found, of_nat k))
      \<and> k \<le> length data \<and> record_start data k \<and> scan_ends data k"
proof -
  have "\<exists>found' k. scan_from data seg (of_nat off) found = Some (Inr (found', of_nat k))
      \<and> k \<le> length data \<and> record_start data k \<and> scan_ends data k"
    if "off \<le> length data" "record_start data off" for off found
    using that
  proof (induction "length data - off" arbitrary: off found rule: less_induct)
    case less
    show ?case
    proof (cases "scan_ends data off")
      case True
      then show ?thesis
        using scan_from_end [OF assms(1) less.prems(1) True] less.prems by blast
    next
      case False
      then obtain rec where rec: "parse_header (slice off (off + 64) data) = Some rec"
        "off + 64 \<le> length data" "off + padded (unat (header_len rec)) \<le> length data"
        using assms(2) [OF less.prems(2)] by (auto simp: scan_ends_def split: option.splits)
      have len: "unat (header_len rec) < 2 ^ 63" using assms(2) [OF less.prems(2) rec(1)] .
      let ?n = "padded (unat (header_len rec))"
      have total: "of_nat off + record_len (header_len rec) = (of_nat (off + ?n) :: u64)"
        by (metis len of_nat_add unat_record_len word_of_nat_unat_id)
      have "read_at data (of_nat off) (unat HEADER_LEN) = Inr (slice off (off + 64) data)"
        using assms(1) rec(2) by (simp add: read_at_def HEADER_LEN_def unat_of_nat_u64)
      moreover have "\<not> of_nat (length data) < (of_nat (off + ?n) :: u64)"
        using assms(1) rec(3) by (simp add: word_less_nat_alt unat_of_nat_u64 del: of_nat_add)
      ultimately have "\<exists>f. scan_from data seg (of_nat off) found = scan_from data seg (of_nat (off + ?n)) f"
        using rec(2) by (subst scan_from.simps)
          (simp add: header_fits [OF assms(1) less.prems(1)] rec(1) total Let_def del: of_nat_add, blast)
      then show ?thesis
        using less.hyps [of "off + ?n"] rec(3) padded_bounds(4) [of "unat (header_len rec)"]
          behind [OF less.prems(2) rec(2,1,3)] by fastforce
    qed
  qed
  from this [of 0 "[]"] show ?thesis
    by (simp add: scan_def first)
qed

definition one_record :: bytes where
  "one_record = segment_bytes [(BlockId (fill32 1), [1, 2, 3])]"

lemma one_record_header:
  "length one_record = 4096"
  "parse_header (slice 0 64 one_record) = Some \<lparr>header_id = BlockId (fill32 1), header_len = 3\<rparr>"
  "parse_header (slice 4096 (4096 + 64) one_record) = None"
proof -
  show len: "length one_record = 4096"
    by (simp add: one_record_def length_segment_bytes_one padded_def)
  show "parse_header (slice 0 64 one_record) = Some \<lparr>header_id = BlockId (fill32 1), header_len = 3\<rparr>"
    using record_roundtrip [of "[1, 2, 3]" "BlockId (fill32 1)"]
    by (simp add: one_record_def segment_bytes_def slice_def)
  show "parse_header (slice 4096 (4096 + 64) one_record) = None"
    using len by (simp add: slice_def parse_header_def MAGIC_def str_bytes_def)
qed

lemma one_record_starts: "record_start one_record off \<Longrightarrow> off = 0 \<or> off = 4096"
  by (induction rule: record_start.induct) (auto simp: one_record_header padded_def)

theorem scan_terminates_witness:
  "\<exists>found. scan one_record 7 = Some (Inr (found, 4096))"
proof -
  have fields: "unat (header_len rec) < 2 ^ 63"
    if "record_start one_record off" "parse_header (slice off (off + 64) one_record) = Some rec" for off rec
    using one_record_starts [OF that(1)] that(2) one_record_header by auto
  obtain found k where "scan one_record 7 = Some (Inr (found, of_nat k))" "record_start one_record k"
    "scan_ends one_record k"
    using scan_terminates [of one_record 7] one_record_header(1) fields by auto
  moreover have "\<not> scan_ends one_record 0"
    by (simp add: scan_ends_def one_record_header padded_def)
  ultimately show ?thesis
    using one_record_starts [of k] by auto
qed

text \<open>
  A header whose length field is \<open>2\<^sup>6\<^sup>4 - 64\<close> makes the record length wrap to zero: the scan then
  visits the same record forever, adding it again each time.
\<close>

definition endless_segment :: bytes where
  "endless_segment = header_bytes (BlockId (fill32 1)) (- 64)"

text \<open>
  The scan does not return on a file whose first header carries the length \<open>2\<^sup>6\<^sup>4 - 64\<close>, so a store with
  one damaged length field cannot be opened.
\<close>

theorem scan_loops_on_wrapped_length: "scan endless_segment seg = None"
proof -
  have total: "record_len (- 64) = 0"
    by (simp add: record_len_def segment_consts div_ceil_def)
  have read: "read_at endless_segment 0 64 = Inr endless_segment"
    by (simp add: read_at_def endless_segment_def slice_def)
  have parse: "parse_header endless_segment = Some \<lparr>header_id = BlockId (fill32 1), header_len = - 64\<rparr>"
    and len: "length endless_segment = 64"
    by (simp_all add: endless_segment_def)
  have "\<not> (data = endless_segment \<and> off = 0)"
    if "scan_from data seg off found = Some r" for data off found r
    using that
  proof (rule scan_from.raw_induct [rotated], goal_cases)
    case (1 scan_from data seg off found r)
    show ?case
    proof
      assume "data = endless_segment \<and> off = 0"
      then show False
        using 1(1) [of endless_segment seg 0] 1(2)
        by (auto simp: HEADER_LEN_def read parse len total Let_def word_le_nat_alt)
    qed
  qed
  then show ?thesis
    by (cases "scan endless_segment seg") (auto simp: scan_def)
qed

end
