(* ===== verification/Block_Store.thy ===== *)
theory Block_Store
  imports Segment Durability
begin

text \<open>
  \<^verbatim>\<open>kalpak-storage/src/store.rs\<close>: the content-addressed block store over segment files.  The state
  holds the index, the contents of the segment files behind the open handles (in the order of the
  handle table), the append position, and the flag that refuses writes after a failed one.  The hash
  is an argument.  The locks make each operation atomic with respect to the others, so an operation is
  one function on the state.

  Input and output calls may fail: a \<open>fault\<close> says which call of the operation fails, and for a write how
  many bytes had been written.  Handles are looked up by segment number, which panics out of range.
\<close>

section \<open>State\<close>

record block_store =
  st_index :: "(block_id, location) fmap"
  st_files :: "bytes list"
  st_tail :: u64
  st_roll_bytes :: u64
  st_write_failed :: bool

datatype store_error = Failure error | Panic

definition DEFAULT_SEGMENT_ROLL_BYTES :: u64 where
  "DEFAULT_SEGMENT_ROLL_BYTES = 256 * 1024 * 1024"

section \<open>Opening\<close>

text \<open>
  The segments found in the directory are scanned in the order of their numbers; a later record for
  the same block replaces an earlier one.  The result is \<open>None\<close> when a scan does not return.
\<close>

fun open_segments ::
  "(u32 \<times> bytes) list \<Rightarrow> (block_id, location) fmap \<Rightarrow> u64
     \<Rightarrow> (error + (block_id, location) fmap \<times> u64) option" where
  "open_segments [] idx t = Some (Inr (idx, t))"
| "open_segments ((seg, data) # segs) idx t =
     (case scan data seg of
        None \<Rightarrow> None
      | Some (Inl e) \<Rightarrow> Some (Inl e)
      | Some (Inr (found, t')) \<Rightarrow> open_segments segs (fold (\<lambda>(i, l). fmupd i l) found idx) t')"

definition open_with :: "(u32 \<times> bytes) list \<Rightarrow> (error + block_store) option" where
  "open_with listing =
     (let segs = sort_key fst listing in
      case open_segments segs fmempty 0 of
        None \<Rightarrow> None
      | Some (Inl e) \<Rightarrow> Some (Inl e)
      | Some (Inr (idx, t)) \<Rightarrow>
          Some (Inr \<lparr>st_index = idx,
                     st_files = (if segs = [] then [[]] else map snd segs),
                     st_tail = (if segs = [] then 0 else t),
                     st_roll_bytes = DEFAULT_SEGMENT_ROLL_BYTES, st_write_failed = False\<rparr>))"

definition open_with_roll :: "(u32 \<times> bytes) list \<Rightarrow> u64 \<Rightarrow> (error + block_store) option" where
  "open_with_roll listing roll =
     map_option (map_sum id (\<lambda>st. st\<lparr>st_roll_bytes := roll\<rparr>)) (open_with listing)"

section \<open>Reading\<close>

definition get_block :: "(bytes \<Rightarrow> bytes32) \<Rightarrow> block_store \<Rightarrow> block_id \<Rightarrow> store_error + bytes" where
  "get_block H st i =
     (case fmlookup (st_index st) i of
        None \<Rightarrow> Inl (Failure (BlockNotFound i))
      | Some loc \<Rightarrow>
          if length (st_files st) \<le> unat (loc_segment loc) then Inl Panic
          else case read_at (st_files st ! unat (loc_segment loc)) (loc_offset loc + HEADER_LEN)
                      (unat (loc_len loc)) of
                 Inl e \<Rightarrow> Inl (Failure e)
               | Inr data \<Rightarrow> if verify H i data then Inr data else Inl (Failure (Corrupt i)))"

definition contains_block :: "block_store \<Rightarrow> block_id \<Rightarrow> bool" where
  "contains_block st i = contains_key (st_index st) i"

record verify_report =
  blocks_checked :: nat
  bytes_checked :: nat
  corrupt_blocks :: "block_id list"
  unreadable_blocks :: "block_id list"

fun verify_each :: "(bytes \<Rightarrow> bytes32) \<Rightarrow> block_store \<Rightarrow> block_id list \<Rightarrow> verify_report \<Rightarrow> store_error + verify_report" where
  "verify_each H st [] rep = Inr rep"
| "verify_each H st (i # is) rep =
     (case get_block H st i of
        Inr data \<Rightarrow>
          verify_each H st is (rep\<lparr>blocks_checked := blocks_checked rep + 1,
                                   bytes_checked := bytes_checked rep + length data\<rparr>)
      | Inl Panic \<Rightarrow> Inl Panic
      | Inl (Failure (Corrupt j)) \<Rightarrow>
          verify_each H st is (rep\<lparr>corrupt_blocks := corrupt_blocks rep @ [j]\<rparr>)
      | Inl (Failure _) \<Rightarrow>
          verify_each H st is (rep\<lparr>unreadable_blocks := unreadable_blocks rep @ [i]\<rparr>))"

definition verify_all ::
  "(bytes \<Rightarrow> bytes32) \<Rightarrow> ((block_id, location) fmap \<Rightarrow> block_id list) \<Rightarrow> block_store \<Rightarrow> store_error + verify_report" where
  "verify_all H keys st =
     verify_each H st (keys (st_index st))
       \<lparr>blocks_checked = 0, bytes_checked = 0, corrupt_blocks = [], unreadable_blocks = []\<rparr>"

definition is_clean :: "verify_report \<Rightarrow> bool" where
  "is_clean rep \<longleftrightarrow> corrupt_blocks rep = [] \<and> unreadable_blocks rep = []"

record store_stats =
  stat_blocks :: nat
  stat_segments :: nat
  stat_bytes_on_disk :: nat

definition stats :: "block_store \<Rightarrow> store_stats" where
  "stats st =
     \<lparr>stat_blocks = fmsize (st_index st), stat_segments = length (st_files st),
      stat_bytes_on_disk = sum_list (map length (butlast (st_files st))) + unat (st_tail st)\<rparr>"

section \<open>Writing\<close>

text \<open>\<^verbatim>\<open>write_batch\<close>: the writes in order, then the sync.  Each call uses up one step of the fault.\<close>

fun step_fault :: "fault \<Rightarrow> fault" where
  "step_fault NoFault = NoFault"
| "step_fault (FaultAt n m) = FaultAt (n - 1) m"

fun fails :: "fault \<Rightarrow> bool" where
  "fails (FaultAt 0 _) = True"
| "fails _ = False"

fun written :: "fault \<Rightarrow> nat" where
  "written (FaultAt _ m) = m"
| "written NoFault = 0"

fun write_batch :: "fault \<Rightarrow> (u64 \<times> bytes) list \<Rightarrow> bytes \<Rightarrow> (error option \<times> fault) \<times> bytes" where
  "write_batch f [] data =
     ((if fails f then Some (Io ''sync'') else None, step_fault f), data)"
| "write_batch f ((off, bs) # ws) data =
     (if fails f then ((Some (Io ''write''), f), write_at off (take (written f) bs) data)
      else write_batch (step_fault f) ws (write_at off bs data))"

definition flush_pending ::
  "fault \<Rightarrow> (u64 \<times> bytes) list \<Rightarrow> bytes \<Rightarrow> (error option \<times> fault) \<times> bytes" where
  "flush_pending f pending data =
     (if pending = [] then ((None, f), data) else write_batch f pending data)"

text \<open>The variables of the loop in \<open>put_many_inner\<close>; the handle table and the tail are the store's own.\<close>

record put_state =
  ps_files :: "bytes list"
  ps_tail :: u64
  ps_staged :: "(block_id \<times> location) list"
  ps_pending :: "(u64 \<times> bytes) list"
  ps_rolled :: bool
  ps_fault :: fault

definition flush_active :: "put_state \<Rightarrow> error option \<times> put_state" where
  "flush_active ps =
     (let ((err, f), data) = flush_pending (ps_fault ps) (ps_pending ps) (last (ps_files ps))
      in (err, ps\<lparr>ps_files := butlast (ps_files ps) @ [data], ps_fault := f,
                  ps_pending := (if err = None then [] else ps_pending ps)\<rparr>))"

text \<open>Sealing the active segment and opening the next one, whose file does not exist yet.\<close>

definition roll_segment :: "put_state \<Rightarrow> error option \<times> put_state" where
  "roll_segment ps =
     (let (err, ps) = flush_active ps in
      if err \<noteq> None then (err, ps)
      else if fails (ps_fault ps) then (Some (Io ''open''), ps)
      else (None, ps\<lparr>ps_files := ps_files ps @ [[]], ps_rolled := True, ps_tail := 0,
                     ps_fault := step_fault (ps_fault ps)\<rparr>))"

definition stage_record :: "block_id \<Rightarrow> bytes \<Rightarrow> put_state \<Rightarrow> put_state" where
  "stage_record i data ps =
     ps\<lparr>ps_tail := ps_tail ps + of_nat (length (encode_record i data)),
        ps_pending := ps_pending ps @ [(ps_tail ps, encode_record i data)],
        ps_staged := ps_staged ps @ [(i, \<lparr>loc_segment = of_nat (length (ps_files ps)) - 1,
                                         loc_offset = ps_tail ps, loc_len = of_nat (length data)\<rparr>)]\<rparr>"

definition block_present ::
  "(bytes \<Rightarrow> bytes32) \<Rightarrow> block_store \<Rightarrow> bool \<Rightarrow> block_id \<Rightarrow> put_state \<Rightarrow> bool option" where
  "block_present H st repairing i ps =
     (if repairing
      then case get_block H (st\<lparr>st_files := ps_files ps\<rparr>) i of
             Inr _ \<Rightarrow> Some True
           | Inl Panic \<Rightarrow> None
           | Inl (Failure _) \<Rightarrow> Some False
      else Some (contains_key (st_index st) i))"

definition put_step ::
  "(bytes \<Rightarrow> bytes32) \<Rightarrow> block_store \<Rightarrow> bool \<Rightarrow> block_id \<times> bytes \<Rightarrow> put_state
     \<Rightarrow> store_error option \<times> put_state" where
  "put_step H st repairing item ps =
     (case item of (i, data) \<Rightarrow>
        case block_present H st repairing i ps of
          None \<Rightarrow> (Some Panic, ps)
        | Some present \<Rightarrow>
            if present \<or> i \<in> fst ` set (ps_staged ps) then (None, ps)
            else if st_roll_bytes st < ps_tail ps + of_nat (length (encode_record i data)) \<and> 0 < ps_tail ps
            then (case roll_segment ps of
                    (Some e, ps) \<Rightarrow> (Some (Failure e), ps)
                  | (None, ps) \<Rightarrow> (None, stage_record i data ps))
            else (None, stage_record i data ps))"

fun put_loop ::
  "(bytes \<Rightarrow> bytes32) \<Rightarrow> block_store \<Rightarrow> bool \<Rightarrow> (block_id \<times> bytes) list \<Rightarrow> put_state
     \<Rightarrow> store_error option \<times> put_state" where
  "put_loop H st repairing [] ps =
     (case flush_active ps of
        (Some e, ps) \<Rightarrow> (Some (Failure e), ps)
      | (None, ps) \<Rightarrow>
          if ps_rolled ps \<and> fails (ps_fault ps) then (Some (Failure (Io ''sync directory'')), ps)
          else (None, ps))"
| "put_loop H st repairing (item # items) ps =
     (case put_step H st repairing item ps of
        (Some e, ps) \<Rightarrow> (Some e, ps)
      | (None, ps) \<Rightarrow> put_loop H st repairing items ps)"

definition put_many_inner ::
  "(bytes \<Rightarrow> bytes32) \<Rightarrow> fault \<Rightarrow> bool \<Rightarrow> bytes list \<Rightarrow> block_store
     \<Rightarrow> (store_error + block_id list) \<times> block_store" where
  "put_many_inner H f repairing payloads st =
     (let prepared = map (\<lambda>p. (block_id_of H p, p)) payloads in
      if st_write_failed st
      then (Inl (Failure (Io ''append failed previously; restart storage before further writes'')), st)
      else
        case put_loop H st repairing prepared
               \<lparr>ps_files = st_files st, ps_tail = st_tail st, ps_staged = [], ps_pending = [],
                ps_rolled = False, ps_fault = f\<rparr> of
          (Some e, ps) \<Rightarrow>
            (Inl e, st\<lparr>st_files := ps_files ps, st_tail := ps_tail ps, st_write_failed := True\<rparr>)
        | (None, ps) \<Rightarrow>
            (Inr (map fst prepared),
             st\<lparr>st_files := ps_files ps, st_tail := ps_tail ps,
                st_index := fold (\<lambda>(i, l). fmupd i l) (ps_staged ps) (st_index st)\<rparr>))"

definition put_many ::
  "(bytes \<Rightarrow> bytes32) \<Rightarrow> fault \<Rightarrow> bytes list \<Rightarrow> block_store \<Rightarrow> (store_error + block_id list) \<times> block_store" where
  "put_many H f payloads st = put_many_inner H f False payloads st"

definition put ::
  "(bytes \<Rightarrow> bytes32) \<Rightarrow> fault \<Rightarrow> bytes \<Rightarrow> block_store \<Rightarrow> (store_error + block_id) \<times> block_store" where
  "put H f data st = map_prod (map_sum id hd) id (put_many H f [data] st)"

definition repair_block ::
  "(bytes \<Rightarrow> bytes32) \<Rightarrow> fault \<Rightarrow> block_id \<Rightarrow> bytes \<Rightarrow> block_store \<Rightarrow> (store_error + block_id) \<times> block_store" where
  "repair_block H f i data st =
     (if \<not> verify H i data then (Inl (Failure (Corrupt i)), st)
      else map_prod (map_sum id hd) id (put_many_inner H f True [data] st))"

section \<open>Compaction\<close>

record compact_stats =
  segments_rewritten :: nat
  blocks_dropped :: nat
  bytes_reclaimed :: nat

text \<open>Copying the kept records of one segment: the new file and the new locations.\<close>

fun copy_live ::
  "(bytes \<Rightarrow> bytes32) \<Rightarrow> u32 \<Rightarrow> bytes \<Rightarrow> (block_id \<times> location) list \<Rightarrow> u64 \<Rightarrow> bytes
     \<Rightarrow> (block_id \<times> location) list \<Rightarrow> error + bytes \<times> (block_id \<times> location) list \<times> u64" where
  "copy_live H seg old [] off tmp locs = Inr (tmp, locs, off)"
| "copy_live H seg old ((i, loc) # keep) off tmp locs =
     (case read_at old (loc_offset loc + HEADER_LEN) (unat (loc_len loc)) of
        Inl e \<Rightarrow> Inl e
      | Inr data \<Rightarrow>
          if \<not> verify H i data then Inl (Corrupt i)
          else
            let rec = encode_record i data in
            copy_live H seg old keep (off + of_nat (length rec)) (write_at off rec tmp)
              (locs @ [(i, \<lparr>loc_segment = seg, loc_offset = off, loc_len = loc_len loc\<rparr>)]))"

definition compact_segment ::
  "(bytes \<Rightarrow> bytes32) \<Rightarrow> ((block_id, location) fmap \<Rightarrow> (block_id \<times> location) list) \<Rightarrow> (block_id \<Rightarrow> bool)
     \<Rightarrow> nat \<Rightarrow> fault \<Rightarrow> block_store \<Rightarrow> compact_stats \<Rightarrow> (error option \<times> fault) \<times> block_store \<times> compact_stats" where
  "compact_segment H iter live k f st cs =
     (let entries = filter (\<lambda>(_, l). loc_segment l = of_nat k) (iter (st_index st));
          keep = filter (\<lambda>(i, _). live i) entries;
          dead = filter (\<lambda>(i, _). \<not> live i) entries
      in if dead = [] then ((None, f), st, cs)
         else case copy_live H (of_nat k) (st_files st ! k) keep 0 [] [] of
           Inl e \<Rightarrow> ((Some e, f), st, cs)
         | Inr (tmp, locs, off) \<Rightarrow>
             if fails f then ((Some (Io ''rewrite''), f), st, cs)
             else
               let swapped = st\<lparr>st_files := (st_files st)[k := tmp],
                      st_index := fold (\<lambda>(i, l). fmupd i l) locs
                                    (fold (\<lambda>(i, _). fmdrop i) dead (st_index st))\<rparr>
               in if fails (step_fault f) then ((Some (Io ''sync directory''), step_fault f), swapped, cs)
                  else ((None, step_fault (step_fault f)), swapped,
                    \<lparr>segments_rewritten = segments_rewritten cs + 1,
                     blocks_dropped = blocks_dropped cs + length dead,
                     bytes_reclaimed = bytes_reclaimed cs + (length (st_files st ! k) - unat off)\<rparr>))"

fun compact_from ::
  "(bytes \<Rightarrow> bytes32) \<Rightarrow> ((block_id, location) fmap \<Rightarrow> (block_id \<times> location) list) \<Rightarrow> (block_id \<Rightarrow> bool)
     \<Rightarrow> nat list \<Rightarrow> fault \<Rightarrow> block_store \<Rightarrow> compact_stats \<Rightarrow> (error + compact_stats) \<times> block_store" where
  "compact_from H iter live [] f st cs = (Inr cs, st)"
| "compact_from H iter live (k # ks) f st cs =
     (case compact_segment H iter live k f st cs of
        ((Some e, _), st, _) \<Rightarrow> (Inl e, st)
      | ((None, f), st, cs) \<Rightarrow> compact_from H iter live ks f st cs)"

definition compact ::
  "(bytes \<Rightarrow> bytes32) \<Rightarrow> ((block_id, location) fmap \<Rightarrow> (block_id \<times> location) list) \<Rightarrow> (block_id \<Rightarrow> bool)
     \<Rightarrow> fault \<Rightarrow> block_store \<Rightarrow> (error + compact_stats) \<times> block_store" where
  "compact H iter live f st =
     compact_from H iter live [0..<length (st_files st) - 1] f st
       \<lparr>segments_rewritten = 0, blocks_dropped = 0, bytes_reclaimed = 0\<rparr>"

end
