(* ===== verification/Block_Store_Refinement.thy ===== *)
theory Block_Store_Refinement
  imports Block_Store
begin

text \<open>
  The block store refines an append-only sequence of records.  The abstract state is a list of segments,
  each a list of records \<open>(id, payload)\<close>; reading a block finds its last record.  The concrete store
  represents it when every file starts with its encoded records, the index points to the last record
  of each block, and the tail is behind the last record.
\<close>

section \<open>The abstract store\<close>

type_synonym segments = "(block_id \<times> bytes) list list"

definition latest :: "segments \<Rightarrow> block_id \<Rightarrow> bytes option" where
  "latest rss = map_of (rev (concat rss))"

definition abs_get :: "(bytes \<Rightarrow> bytes32) \<Rightarrow> segments \<Rightarrow> block_id \<Rightarrow> store_error + bytes" where
  "abs_get H rss i =
     (case latest rss i of
        None \<Rightarrow> Inl (Failure (BlockNotFound i))
      | Some data \<Rightarrow> if verify H i data then Inr data else Inl (Failure (Corrupt i)))"

section \<open>Where records lie\<close>

fun placed :: "u32 \<Rightarrow> nat \<Rightarrow> (block_id \<times> bytes) list \<Rightarrow> (block_id \<times> location \<times> bytes) list" where
  "placed seg off [] = []"
| "placed seg off ((i, data) # rs) =
     (i, \<lparr>loc_segment = seg, loc_offset = of_nat off, loc_len = of_nat (length data)\<rparr>, data)
       # placed seg (off + padded (length data)) rs"

fun placed_from :: "nat \<Rightarrow> segments \<Rightarrow> (block_id \<times> location \<times> bytes) list" where
  "placed_from k [] = []"
| "placed_from k (rs # rss) = placed (of_nat k) 0 rs @ placed_from (Suc k) rss"

definition index_of :: "segments \<Rightarrow> (block_id, location) fmap" where
  "index_of rss = fold (\<lambda>(i, l). fmupd i l) (map (\<lambda>(i, l, _). (i, l)) (placed_from 0 rss)) fmempty"

lemma placed_append:
  "placed seg off (xs @ ys) = placed seg off xs @ placed seg (off + sum_list (map (padded \<circ> length \<circ> snd) xs)) ys"
  by (induction seg off xs rule: placed.induct) (simp_all add: add.assoc)

lemma placed_from_append: "placed_from k (rss @ sss) = placed_from k rss @ placed_from (k + length rss) sss"
  by (induction k rss rule: placed_from.induct) simp_all

lemma placed_records: "map (\<lambda>(i, _, d). (i, d)) (placed seg off rs) = rs"
  by (induction seg off rs rule: placed.induct) simp_all

lemma placed_from_records: "map (\<lambda>(i, _, d). (i, d)) (placed_from k rss) = concat rss"
  by (induction k rss rule: placed_from.induct) (simp_all add: placed_records)

lemma locations_placed: "locations seg off rs = map (\<lambda>(i, l, _). (i, l)) (placed seg off rs)"
  by (induction seg off rs rule: placed.induct) simp_all

lemma fold_fmupd_map_of:
  "fmlookup (fold (\<lambda>(i, l). fmupd i l) xs m) i =
     (case map_of (rev xs) i of None \<Rightarrow> fmlookup m i | Some l \<Rightarrow> Some l)"
proof (induction xs arbitrary: m)
  case (Cons x xs)
  then show ?case
    by (cases x) (auto simp: map_add_def split: option.splits)
qed simp

lemma map_of_project:
  "map_of (rev (map (\<lambda>(i, x). (i, f x)) xs)) i = map_option f (map_of (rev xs) i)"
  unfolding rev_map map_of_map by simp

lemma index_lookup:
  "fmlookup (index_of rss) i = map_option fst (map_of (rev (placed_from 0 rss)) i)"
  unfolding index_of_def fold_fmupd_map_of
  using map_of_project [of fst "placed_from 0 rss" i] by (simp add: split_def split: option.splits)

lemma latest_lookup: "latest rss i = map_option snd (map_of (rev (placed_from 0 rss)) i)"
  using map_of_project [of snd "placed_from 0 rss" i] placed_from_records [of 0 rss]
  by (simp add: latest_def split_def)

section \<open>The representation\<close>

definition file_holds :: "bytes \<Rightarrow> (block_id \<times> bytes) list \<Rightarrow> bool" where
  "file_holds data rs \<longleftrightarrow> (\<exists>rest. data = segment_bytes rs @ rest) \<and> length data < 2 ^ 62"

definition represents :: "segments \<Rightarrow> block_store \<Rightarrow> bool" where
  "represents rss st \<longleftrightarrow>
     rss \<noteq> [] \<and> length rss < 2 ^ 32 \<and> list_all2 file_holds (st_files st) rss
     \<and> st_index st = index_of rss \<and> st_tail st = of_nat (length (segment_bytes (last rss)))
     \<and> \<not> st_write_failed st"

lemma segment_bytes_Cons:
  "segment_bytes ((i, data) # rs) = encode_record i data @ segment_bytes rs"
  "segment_bytes (xs @ ys) = segment_bytes xs @ segment_bytes ys"
  by (simp_all add: segment_bytes_def)

lemma length_payload_le: "length data \<le> length (encode_record i data)"
  by (simp add: encode_record_def write_slice_def Let_def)

text \<open>Reading at a placed location gives the record's payload.\<close>

lemma read_placed:
  assumes "length data < 2 ^ 62" and "data = pre @ segment_bytes rs @ rest"
    and "(i, loc, d) \<in> set (placed seg (length pre) rs)"
  shows "loc_segment loc = seg" and "read_at data (loc_offset loc + HEADER_LEN) (unat (loc_len loc)) = Inr d"
proof -
  have "loc_segment loc = seg \<and> read_at data (loc_offset loc + HEADER_LEN) (unat (loc_len loc)) = Inr d"
    using assms(2,3)
  proof (induction rs arbitrary: pre)
    case (Cons r rs)
    obtain j e where r: "r = (j, e)" by fastforce
    have small: "length e < 2 ^ 63"
      using assms(1) Cons.prems(1) length_payload_le [of e j] by (simp add: r segment_bytes_Cons)
    show ?case
    proof (cases "(i, loc, d) \<in> set (placed seg (length (pre @ encode_record j e)) rs)")
      case True
      then show ?thesis
        using Cons.IH [of "pre @ encode_record j e"] Cons.prems(1) by (simp add: r segment_bytes_Cons)
    next
      case False
      then have here: "i = j" "d = e"
        "loc = \<lparr>loc_segment = seg, loc_offset = of_nat (length pre), loc_len = of_nat (length e)\<rparr>"
        using Cons.prems(2) by (auto simp: r length_encode_record [OF small])
      have len: "length data \<ge> length pre + 64 + length e"
        using Cons.prems(1) padded_bounds(1) [of "length e"]
        by (simp add: r segment_bytes_Cons length_encode_record [OF small])
      have off: "unat (of_nat (length pre) + HEADER_LEN) = length pre + 64"
        using offset_fits [of data "length pre" 64] assms(1) len by (simp add: HEADER_LEN_def)
      have "slice (length pre + 64) (length pre + 64 + length e) data = e"
        using Cons.prems(1)
        by (simp add: r segment_bytes_Cons encode_record_layout [OF small] slice_def)
      then show ?thesis
        using len small by (simp add: here read_at_def off unat_of_nat_u64)
    qed
  qed simp
  then show "loc_segment loc = seg"
    and "read_at data (loc_offset loc + HEADER_LEN) (unat (loc_len loc)) = Inr d"
    by blast+
qed

lemma read_placed_from:
  assumes "list_all2 file_holds fs rss" and "(i, loc, d) \<in> set (placed_from k rss)"
    and "k + length rss < 2 ^ 32"
  shows "\<exists>n<length fs. unat (loc_segment loc) = k + n
    \<and> read_at (fs ! n) (loc_offset loc + HEADER_LEN) (unat (loc_len loc)) = Inr d"
  using assms
proof (induction fs rss arbitrary: k rule: list_all2_induct)
  case (Cons data fs rs rss)
  show ?case
  proof (cases "(i, loc, d) \<in> set (placed (of_nat k) 0 rs)")
    case True
    obtain rest where "data = [] @ segment_bytes rs @ rest" "length data < 2 ^ 62"
      using Cons.hyps(1) by (auto simp: file_holds_def)
    then have "loc_segment loc = of_nat k"
      "read_at data (loc_offset loc + HEADER_LEN) (unat (loc_len loc)) = Inr d"
      using read_placed [of data "[]" rs rest i loc d "of_nat k"] True by simp_all
    then show ?thesis
      using Cons.prems(2) by (intro exI [of _ 0]) (simp add: unat_of_nat)
  next
    case False
    then obtain n where "n < length fs" "unat (loc_segment loc) = Suc k + n"
      "read_at (fs ! n) (loc_offset loc + HEADER_LEN) (unat (loc_len loc)) = Inr d"
      using Cons.IH [of "Suc k"] Cons.prems by auto
    then show ?thesis
      by (intro exI [of _ "Suc n"]) simp
  qed
qed simp

text \<open>Reading the store reads the abstract one; files behind those of the abstract state do not matter.\<close>

lemma get_prefix:
  assumes "st_index st = index_of rss" and "list_all2 file_holds (take (length rss) (st_files st)) rss"
    and "length rss < 2 ^ 32"
  shows "get_block H st i = abs_get H rss i"
proof (cases "map_of (rev (placed_from 0 rss)) i")
  case None
  then show ?thesis
    using assms by (simp add: get_block_def abs_get_def index_lookup latest_lookup)
next
  case (Some x)
  obtain loc d where x: "x = (loc, d)" by fastforce
  then have "(i, loc, d) \<in> set (placed_from 0 rss)"
    using map_of_SomeD [OF Some] by simp
  then obtain n where "n < length (take (length rss) (st_files st))" "unat (loc_segment loc) = n"
    "read_at (take (length rss) (st_files st) ! n) (loc_offset loc + HEADER_LEN) (unat (loc_len loc)) = Inr d"
    using read_placed_from [OF assms(2), of i loc d 0] assms(3) by auto
  then show ?thesis
    using assms Some x by (simp add: get_block_def abs_get_def index_lookup latest_lookup)
qed

lemma get_refines:
  assumes "represents rss st"
  shows "get_block H st i = abs_get H rss i"
proof -
  have "length (st_files st) = length rss"
    using assms by (auto simp: represents_def dest: list_all2_lengthD)
  then show ?thesis
    using assms by (intro get_prefix) (simp_all add: represents_def)
qed

section \<open>Writing a batch\<close>

fun pending_writes :: "nat \<Rightarrow> (block_id \<times> bytes) list \<Rightarrow> (u64 \<times> bytes) list" where
  "pending_writes off [] = []"
| "pending_writes off ((i, data) # rs) =
     (of_nat off, encode_record i data) # pending_writes (off + length (encode_record i data)) rs"

lemma pending_writes_append:
  "pending_writes off (xs @ ys) = pending_writes off xs @ pending_writes (off + length (segment_bytes xs)) ys"
  by (induction off xs rule: pending_writes.induct) (simp_all add: segment_bytes_Cons add.assoc)

lemma write_at_append:
  assumes "length xs < 2 ^ 64"
  shows "write_at (of_nat (length xs)) bs (xs @ ys) = xs @ bs @ drop (length bs) ys"
  using assms by (simp add: write_at_def unat_of_nat_u64)

lemma file_holds_prefix: "file_holds data (xs @ ys) \<Longrightarrow> file_holds data xs"
  by (auto simp: file_holds_def segment_bytes_Cons)

lemma file_holds_write:
  assumes "file_holds data xs" and "length (segment_bytes xs) + length bs < 2 ^ 62"
  shows "\<exists>rest. write_at (of_nat (length (segment_bytes xs))) bs data = segment_bytes xs @ bs @ rest
      \<and> length (segment_bytes xs @ bs @ rest) \<le> max (length data) (length (segment_bytes xs) + length bs)"
proof -
  obtain rest where "data = segment_bytes xs @ rest" using assms(1) by (auto simp: file_holds_def)
  then show ?thesis
    using write_at_append [of "segment_bytes xs" bs rest] assms(2)
    by (intro exI [of _ "drop (length bs) rest"]) (simp add: max_def)
qed

lemma write_batch_effect:
  assumes "write_batch f (pending_writes (length (segment_bytes base)) pend) data = ((err, f'), data')"
    and "file_holds data base" and "length (segment_bytes (base @ pend)) < 2 ^ 62"
  shows "file_holds data' base \<and> length data' \<le> max (length data) (length (segment_bytes (base @ pend)))
    \<and> (err = None \<longrightarrow> file_holds data' (base @ pend))"
  using assms
proof (induction pend arbitrary: f base data)
  case Nil
  then show ?case by (auto split: if_splits)
next
  case (Cons r pend)
  obtain i d where r: "r = (i, d)" by fastforce
  let ?L = "length (segment_bytes base)" and ?rec = "encode_record i d"
  have room: "?L + length ?rec < 2 ^ 62"
    using Cons.prems(3) by (simp add: r segment_bytes_Cons)
  show ?case
  proof (cases "fails f")
    case True
    have part: "?L + length (take (written f) ?rec) < 2 ^ 62"
      using room by simp
    have "data' = write_at (of_nat ?L) (take (written f) ?rec) data"
      using Cons.prems(1) True by (auto simp: r)
    with file_holds_write [OF Cons.prems(2) part]
    obtain rest where "data' = segment_bytes base @ take (written f) ?rec @ rest"
      "length data' \<le> max (length data) (?L + length (take (written f) ?rec))"
      by auto
    then show ?thesis
      using True Cons.prems room by (auto simp: r file_holds_def segment_bytes_Cons max_def split: if_splits)
  next
    case False
    obtain rest where w: "write_at (of_nat ?L) ?rec data = segment_bytes base @ ?rec @ rest"
      "length (segment_bytes base @ ?rec @ rest) \<le> max (length data) (?L + length ?rec)"
      using file_holds_write [OF Cons.prems(2) room] by blast
    have one: "segment_bytes (base @ [(i, d)]) = segment_bytes base @ ?rec"
      by (simp add: segment_bytes_def)
    have holds: "file_holds (segment_bytes base @ ?rec @ rest) (base @ [(i, d)])"
      using Cons.prems(2,3) w(2) room unfolding file_holds_def one by (auto simp: max_def split: if_splits)
    have "write_batch (step_fault f) (pending_writes (length (segment_bytes (base @ [(i, d)]))) pend)
        (segment_bytes base @ ?rec @ rest) = ((err, f'), data')"
      using Cons.prems(1) False w(1) by (simp add: r one)
    from Cons.IH [OF this holds] Cons.prems(3)
    have res: "file_holds data' (base @ [(i, d)])"
      "length data' \<le> max (length (segment_bytes base @ ?rec @ rest)) (length (segment_bytes (base @ r # pend)))"
      "err = None \<longrightarrow> file_holds data' (base @ r # pend)"
      by (simp_all add: r)
    have "length (segment_bytes (base @ r # pend)) \<ge> ?L + length ?rec"
      by (simp add: r segment_bytes_Cons)
    then have "length data' \<le> max (length data) (length (segment_bytes (base @ r # pend)))"
      using res(2) w(2) by linarith
    then show ?thesis
      using res file_holds_prefix by blast
  qed
qed

lemma flush_pending_effect:
  assumes "flush_pending f (pending_writes (length (segment_bytes base)) pend) data = ((err, f'), data')"
    and "file_holds data base" and "length (segment_bytes (base @ pend)) < 2 ^ 62"
  shows "file_holds data' base \<and> length data' \<le> max (length data) (length (segment_bytes (base @ pend)))
    \<and> (err = None \<longrightarrow> file_holds data' (base @ pend))"
proof (cases "pend = []")
  case True
  then show ?thesis using assms by (auto simp: flush_pending_def)
next
  case False
  then have "pending_writes (length (segment_bytes base)) pend \<noteq> []"
    by (cases pend) auto
  then show ?thesis
    using write_batch_effect assms by (auto simp: flush_pending_def)
qed

section \<open>The loop of a put\<close>

text \<open>
  During a put the segments \<open>rss'\<close> are those of the store plus the staged records; of the active
  segment \<open>base\<close> is on file and \<open>pend\<close> is still pending.
\<close>

definition staging :: "segments \<Rightarrow> put_state \<Rightarrow> segments \<Rightarrow> (block_id \<times> bytes) list \<Rightarrow> (block_id \<times> bytes) list \<Rightarrow> bool" where
  "staging rss ps rss' base pend \<longleftrightarrow>
     rss' \<noteq> [] \<and> length rss \<le> length rss' \<and> length (ps_files ps) = length rss'
     \<and> list_all2 file_holds (butlast (ps_files ps)) (butlast rss')
     \<and> last rss' = base @ pend \<and> file_holds (last (ps_files ps)) base
     \<and> ps_pending ps = pending_writes (length (segment_bytes base)) pend
     \<and> ps_tail ps = of_nat (length (segment_bytes (last rss')))
     \<and> (\<exists>P. placed_from 0 rss' = placed_from 0 rss @ P \<and> ps_staged ps = map (\<lambda>(i, l, _). (i, l)) P)
     \<and> list_all2 file_holds (take (length rss) (ps_files ps)) rss
     \<and> (length rss = length rss' \<longrightarrow> (\<exists>more. base = last rss @ more))"

text \<open>The sizes that are left for the records still to come.\<close>

definition room :: "(block_id \<times> bytes) list \<Rightarrow> put_state \<Rightarrow> segments \<Rightarrow> bool" where
  "room items ps rss' \<longleftrightarrow>
     length (last (ps_files ps)) + length (segment_bytes items) < 2 ^ 62
     \<and> length (segment_bytes (last rss')) + length (segment_bytes items) < 2 ^ 62"

lemma list_all2_butlast_last:
  "fs \<noteq> [] \<Longrightarrow> rss \<noteq> [] \<Longrightarrow> length fs = length rss \<Longrightarrow>
     list_all2 P fs rss \<longleftrightarrow> list_all2 P (butlast fs) (butlast rss) \<and> P (last fs) (last rss)"
proof -
  assume ne: "fs \<noteq> []" "rss \<noteq> []" and len: "length fs = length rss"
  have "list_all2 P (butlast fs @ [last fs]) (butlast rss @ [last rss])
      \<longleftrightarrow> list_all2 P (butlast fs) (butlast rss) \<and> P (last fs) (last rss)"
    using len by (simp add: list_all2_append)
  then show ?thesis using ne by simp
qed

lemma take_replace_last:
  assumes "fs \<noteq> []" and "list_all2 P (take n fs) rss" and "length rss = n" and "n \<le> length fs"
    and "n = length fs \<Longrightarrow> P y (last rss)"
  shows "list_all2 P (take n (butlast fs @ [y])) rss"
proof (cases "n = length fs")
  case False
  then have "take n (butlast fs @ [y]) = take n fs"
    using assms(1,4) by (simp add: take_butlast)
  then show ?thesis using assms(2) by simp
next
  case True
  then have ne: "rss \<noteq> []" using assms(1,3) by auto
  have "list_all2 P (butlast fs @ [y]) rss"
    using assms True ne by (simp add: list_all2_butlast_last [of fs] list_all2_butlast_last [of "butlast fs @ [y]"])
  moreover have "take n (butlast fs @ [y]) = butlast fs @ [y]"
    using True assms(1) by (intro take_all) (simp add: Suc_leI)
  ultimately show ?thesis by simp
qed

lemma flush_active_effect:
  assumes "staging rss ps rss' base pend" and "room items ps rss'" and "flush_active ps = (err, ps')"
  shows "err = None \<Longrightarrow> staging rss ps' rss' (base @ pend) [] \<and> room items ps' rss'
           \<and> ps_rolled ps' = ps_rolled ps"
    and "list_all2 file_holds (take (length rss) (ps_files ps')) rss"
proof -
  obtain f' data' where fl: "flush_pending (ps_fault ps) (ps_pending ps) (last (ps_files ps)) = ((err, f'), data')"
    and ps': "ps' = ps\<lparr>ps_files := butlast (ps_files ps) @ [data'], ps_fault := f',
      ps_pending := (if err = None then [] else ps_pending ps)\<rparr>"
    using assms(3) by (auto simp: flush_active_def split: prod.splits)
  have ne: "ps_files ps \<noteq> []" "length (ps_files ps) = length rss'"
    using assms(1) by (auto simp: staging_def)
  have eff: "file_holds data' base" "length data' \<le> max (length (last (ps_files ps))) (length (segment_bytes (base @ pend)))"
    "err = None \<Longrightarrow> file_holds data' (base @ pend)"
    using flush_pending_effect [of "ps_fault ps" base pend "last (ps_files ps)" err f' data'] fl assms(1,2)
    by (auto simp: staging_def room_def)
  have old: "file_holds data' (last rss)" if "length rss = length (ps_files ps)"
    using assms(1) that ne(2) eff(1) file_holds_prefix by (auto simp: staging_def)
  show "list_all2 file_holds (take (length rss) (ps_files ps')) rss"
    unfolding ps' using take_replace_last [OF ne(1), of file_holds "length rss" rss data'] assms(1) ne(2) old
    by (auto simp: staging_def)
  then show "err = None \<Longrightarrow> staging rss ps' rss' (base @ pend) [] \<and> room items ps' rss'
           \<and> ps_rolled ps' = ps_rolled ps"
    using assms(1,2) eff ne unfolding ps' staging_def room_def by (auto simp: max_def split: if_splits)
qed

lemma padded_sum:
  assumes "length (segment_bytes rs) < 2 ^ 63"
  shows "sum_list (map (padded \<circ> length \<circ> snd) rs) = length (segment_bytes rs)"
  using assms
proof (induction rs)
  case (Cons r rs)
  obtain i d where r: "r = (i, d)" by fastforce
  have "length d < 2 ^ 63"
    using Cons.prems length_payload_le [of d i] by (simp add: r segment_bytes_Cons)
  then show ?case
    using Cons by (simp add: r segment_bytes_Cons length_encode_record)
qed simp

lemma placed_from_snoc:
  assumes "rss \<noteq> []" and "length (segment_bytes (last rss)) < 2 ^ 63"
  shows "placed_from 0 (butlast rss @ [last rss @ [(i, d)]]) = placed_from 0 rss
    @ [(i, \<lparr>loc_segment = of_nat (length rss - 1), loc_offset = of_nat (length (segment_bytes (last rss))),
           loc_len = of_nat (length d)\<rparr>, d)]"
proof -
  have "placed_from 0 rss = placed_from 0 (butlast rss @ [last rss])"
    using assms(1) by simp
  then show ?thesis
    by (simp only: placed_from_append) (simp add: placed_append padded_sum [OF assms(2)])
qed

lemma stage_record_effect:
  assumes "staging rss ps rss' base pend" and "room ((i, d) # items) ps rss'"
  shows "staging rss (stage_record i d ps) (butlast rss' @ [last rss' @ [(i, d)]]) base (pend @ [(i, d)])"
    and "room items (stage_record i d ps) (butlast rss' @ [last rss' @ [(i, d)]])"
    and "fst ` set (ps_staged (stage_record i d ps)) = insert i (fst ` set (ps_staged ps))"
proof -
  have ne: "rss' \<noteq> []" "length (ps_files ps) = length rss'"
    using assms(1) by (simp_all add: staging_def)
  have small: "length (segment_bytes (last rss')) < 2 ^ 63"
    using assms(2) by (simp add: room_def)
  obtain P where P: "placed_from 0 rss' = placed_from 0 rss @ P" "ps_staged ps = map (\<lambda>(i, l, _). (i, l)) P"
    using assms(1) by (auto simp: staging_def)
  have tail: "ps_tail ps = of_nat (length (segment_bytes (last rss')))"
    using assms(1) by (simp add: staging_def)
  have seg: "of_nat (length rss') - 1 = (of_nat (length rss' - 1) :: u32)"
    using ne(1) by (cases rss') simp_all
  have len: "length (butlast rss' @ [last rss' @ [(i, d)]]) = length rss'"
    using ne(1) by (cases rss') simp_all
  have "\<exists>P. placed_from 0 (butlast rss' @ [last rss' @ [(i, d)]]) = placed_from 0 rss @ P
      \<and> ps_staged (stage_record i d ps) = map (\<lambda>(i, l, _). (i, l)) P"
    unfolding placed_from_snoc [OF ne(1) small]
    by (intro exI [of _ "P @ [(i, \<lparr>loc_segment = of_nat (length rss' - 1),
          loc_offset = of_nat (length (segment_bytes (last rss'))), loc_len = of_nat (length d)\<rparr>, d)]"])
      (simp add: P stage_record_def seg tail ne)
  then show "staging rss (stage_record i d ps) (butlast rss' @ [last rss' @ [(i, d)]]) base (pend @ [(i, d)])"
    using assms(1) ne len unfolding staging_def
    by (simp add: stage_record_def pending_writes_append segment_bytes_Cons segment_bytes_def)
  show "room items (stage_record i d ps) (butlast rss' @ [last rss' @ [(i, d)]])"
    using assms(2) len by (simp add: room_def stage_record_def segment_bytes_Cons segment_bytes_def)
  show "fst ` set (ps_staged (stage_record i d ps)) = insert i (fst ` set (ps_staged ps))"
    by (simp add: stage_record_def)
qed

lemma staging_flushed:
  assumes "staging rss ps rss' base []"
  shows "list_all2 file_holds (ps_files ps) rss'"
proof -
  have "ps_files ps \<noteq> []" "rss' \<noteq> []" "length (ps_files ps) = length rss'"
    using assms by (auto simp: staging_def)
  from list_all2_butlast_last [OF this] show ?thesis
    using assms by (simp add: staging_def)
qed

lemma roll_segment_effect:
  assumes "staging rss ps rss' base pend" and "room ((i, d) # items) ps rss'" and "roll_segment ps = (err, ps')"
  shows "err = None \<Longrightarrow> staging rss ps' (rss' @ [[]]) [] [] \<and> room ((i, d) # items) ps' (rss' @ [[]])
           \<and> ps_staged ps' = ps_staged ps"
    and "list_all2 file_holds (take (length rss) (ps_files ps')) rss"
proof -
  obtain e ps1 where fl: "flush_active ps = (e, ps1)" by fastforce
  note eff = flush_active_effect [OF assms(1,2) fl]
  have staged: "ps_staged ps1 = ps_staged ps"
    using fl by (auto simp: flush_active_def split: prod.splits)
  have len: "length rss \<le> length (ps_files ps1)" if "e = None"
    using eff(1) [OF that] by (auto simp: staging_def)
  have rolled: "ps' = ps1\<lparr>ps_files := ps_files ps1 @ [[]], ps_rolled := True, ps_tail := 0,
      ps_fault := step_fault (ps_fault ps1)\<rparr> \<and> e = None" if "err = None"
    using assms(3) fl that by (auto simp: roll_segment_def split: if_splits)
  show new: "list_all2 file_holds (take (length rss) (ps_files ps')) rss"
    using assms(3) fl eff(2) len by (auto simp: roll_segment_def split: if_splits)
  assume "err = None"
  then have ps': "ps' = ps1\<lparr>ps_files := ps_files ps1 @ [[]], ps_rolled := True, ps_tail := 0,
      ps_fault := step_fault (ps_fault ps1)\<rparr>" and st: "staging rss ps1 rss' (base @ pend) []"
    and rm: "room ((i, d) # items) ps1 rss'"
    using rolled eff(1) by blast+
  have "list_all2 file_holds (ps_files ps1) rss'"
    using st by (rule staging_flushed)
  moreover have "placed_from 0 (rss' @ [[]]) = placed_from 0 rss'"
    by (simp add: placed_from_append)
  moreover have "file_holds [] []"
    by (simp add: file_holds_def)
  ultimately show "staging rss ps' (rss' @ [[]]) [] [] \<and> room ((i, d) # items) ps' (rss' @ [[]])
           \<and> ps_staged ps' = ps_staged ps"
    using st rm new staged unfolding ps' staging_def room_def by simp
qed

section \<open>Putting\<close>

definition present :: "(bytes \<Rightarrow> bytes32) \<Rightarrow> segments \<Rightarrow> bool \<Rightarrow> block_id \<Rightarrow> bool" where
  "present H rss repairing i \<longleftrightarrow>
     (if repairing then \<exists>d. abs_get H rss i = Inr d else latest rss i \<noteq> None)"

text \<open>The records a batch adds: those of blocks that are neither present nor earlier in the batch.\<close>

fun fresh :: "(block_id \<Rightarrow> bool) \<Rightarrow> block_id set \<Rightarrow> (block_id \<times> bytes) list \<Rightarrow> (block_id \<times> bytes) list" where
  "fresh known seen [] = []"
| "fresh known seen ((i, d) # items) =
     (if known i \<or> i \<in> seen then fresh known seen items
      else (i, d) # fresh known (insert i seen) items)"

lemma block_present_abs:
  assumes "st_index st = index_of rss" and "list_all2 file_holds (take (length rss) (ps_files ps)) rss"
    and "length rss < 2 ^ 32"
  shows "block_present H st repairing i ps = Some (present H rss repairing i)"
proof (cases repairing)
  case False
  then show ?thesis
    using assms(1) by (auto simp: block_present_def present_def index_lookup latest_lookup)
next
  case True
  have "get_block H (st\<lparr>st_files := ps_files ps\<rparr>) i = abs_get H rss i"
    using assms by (intro get_prefix) simp_all
  then show ?thesis
    using True by (auto simp: block_present_def present_def abs_get_def split: option.splits)
qed

lemma room_mono: "room (x # items) ps rss' \<Longrightarrow> room items ps rss'"
  by (cases x) (simp add: room_def segment_bytes_Cons)

lemma put_step_effect:
  assumes "staging rss ps rss' base pend" and "room ((i, d) # items) ps rss'"
    and "st_index st = index_of rss" and "length rss < 2 ^ 32"
    and "put_step H st repairing (i, d) ps = (err, ps')"
  shows "err = None \<Longrightarrow> (\<exists>rss'' base' pend'. staging rss ps' rss'' base' pend' \<and> room items ps' rss''
      \<and> length rss'' \<le> Suc (length rss')
      \<and> concat rss'' = concat rss' @ fresh (present H rss repairing) (fst ` set (ps_staged ps)) [(i, d)]
      \<and> fst ` set (ps_staged ps') = (if present H rss repairing i then {} else {i}) \<union> fst ` set (ps_staged ps))"
    and "list_all2 file_holds (take (length rss) (ps_files ps')) rss"
    and "err \<noteq> Some Panic"
proof -
  have old: "list_all2 file_holds (take (length rss) (ps_files ps)) rss"
    using assms(1) by (simp add: staging_def)
  note pres = block_present_abs [OF assms(3) old assms(4), of H repairing i]
  let ?skip = "present H rss repairing i \<or> i \<in> fst ` set (ps_staged ps)"
  let ?roll = "st_roll_bytes st < ps_tail ps + of_nat (length (encode_record i d)) \<and> 0 < ps_tail ps"
  have ne: "rss' \<noteq> []" using assms(1) by (simp add: staging_def)
  then have cat: "concat (butlast rss' @ [last rss' @ [(i, d)]]) = concat rss' @ [(i, d)]"
    by (metis append_butlast_last_id concat_append concat.simps append_assoc append_Nil2)
  consider (skip) ?skip | (roll) "\<not> ?skip" ?roll | (stage) "\<not> ?skip" "\<not> ?roll" by blast
  then have "(err = None \<longrightarrow> (\<exists>rss'' base' pend'. staging rss ps' rss'' base' pend' \<and> room items ps' rss''
      \<and> length rss'' \<le> Suc (length rss')
      \<and> concat rss'' = concat rss' @ fresh (present H rss repairing) (fst ` set (ps_staged ps)) [(i, d)]
      \<and> fst ` set (ps_staged ps') = (if present H rss repairing i then {} else {i}) \<union> fst ` set (ps_staged ps)))
    \<and> list_all2 file_holds (take (length rss) (ps_files ps')) rss \<and> err \<noteq> Some Panic"
  proof cases
    case skip
    then have "err = None" "ps' = ps"
      using assms(5) pres by (auto simp: put_step_def)
    then show ?thesis
      using assms(1) room_mono [OF assms(2)] old skip
      by - (intro conjI impI exI [of _ rss'] exI [of _ base] exI [of _ pend]; auto)
  next
    case stage
    then have "err = None" "ps' = stage_record i d ps"
      using assms(5) pres by (auto simp: put_step_def)
    then show ?thesis
      using stage_record_effect [OF assms(1,2)] old stage cat ne
      by - (intro conjI impI exI [of _ "butlast rss' @ [last rss' @ [(i, d)]]"] exI [of _ base]
          exI [of _ "pend @ [(i, d)]"]; auto simp: stage_record_def)
  next
    case roll
    obtain e ps1 where r: "roll_segment ps = (e, ps1)" by fastforce
    note eff = roll_segment_effect [OF assms(1,2) r]
    show ?thesis
    proof (cases e)
      case (Some x)
      then show ?thesis
        using assms(5) pres roll r eff(2) by (auto simp: put_step_def)
    next
      case None
      then have st1: "staging rss ps1 (rss' @ [[]]) [] []" and rm1: "room ((i, d) # items) ps1 (rss' @ [[]])"
        and staged: "ps_staged ps1 = ps_staged ps"
        using eff(1) by blast+
      have "err = None" "ps' = stage_record i d ps1"
        using assms(5) pres roll r None by (auto simp: put_step_def)
      then show ?thesis
        using stage_record_effect [OF st1 rm1] eff(2) roll staged
        by - (intro conjI impI exI [of _ "rss' @ [[(i, d)]]"] exI [of _ "[]"]
            exI [of _ "[(i, d)]"]; auto simp: stage_record_def)
    qed
  qed
  then show "err = None \<Longrightarrow> (\<exists>rss'' base' pend'. staging rss ps' rss'' base' pend' \<and> room items ps' rss''
      \<and> length rss'' \<le> Suc (length rss')
      \<and> concat rss'' = concat rss' @ fresh (present H rss repairing) (fst ` set (ps_staged ps)) [(i, d)]
      \<and> fst ` set (ps_staged ps') = (if present H rss repairing i then {} else {i}) \<union> fst ` set (ps_staged ps))"
    and "list_all2 file_holds (take (length rss) (ps_files ps')) rss"
    and "err \<noteq> Some Panic"
    by blast+
qed

lemma fresh_Cons:
  "fresh known seen (x # items) =
     fresh known seen [x] @ fresh known ((if known (fst x) then {} else {fst x}) \<union> seen) items"
  by (cases x) (auto simp: insert_absorb)

lemma put_loop_effect:
  assumes "staging rss ps rss' base pend" and "room items ps rss'" and "length rss' + length items < 2 ^ 32"
    and "st_index st = index_of rss" and "length rss < 2 ^ 32"
    and "put_loop H st repairing items ps = (err, ps')"
  shows "list_all2 file_holds (take (length rss) (ps_files ps')) rss \<and> err \<noteq> Some Panic
    \<and> (err = None \<longrightarrow> (\<exists>rss''. rss'' \<noteq> [] \<and> length rss'' < 2 ^ 32 \<and> list_all2 file_holds (ps_files ps') rss''
          \<and> ps_tail ps' = of_nat (length (segment_bytes (last rss'')))
          \<and> concat rss'' = concat rss' @ fresh (present H rss repairing) (fst ` set (ps_staged ps)) items
          \<and> (\<exists>P. placed_from 0 rss'' = placed_from 0 rss @ P \<and> ps_staged ps' = map (\<lambda>(i, l, _). (i, l)) P)))"
  using assms(1-3,6)
proof (induction items arbitrary: ps rss' base pend)
  case Nil
  obtain e ps1 where fl: "flush_active ps = (e, ps1)" by fastforce
  note eff = flush_active_effect [OF Nil.prems(1,2) fl]
  have same: "ps' = ps1" "err \<noteq> Some Panic" "err = None \<longrightarrow> e = None"
    using Nil.prems(4) fl by (auto split: option.splits if_splits)
  then show ?case
    using eff(2)
  proof (intro conjI impI)
    assume "err = None"
    then have st: "staging rss ps1 rss' (base @ pend) []" using same eff(1) by blast
    show "\<exists>rss''. rss'' \<noteq> [] \<and> length rss'' < 2 ^ 32 \<and> list_all2 file_holds (ps_files ps') rss''
          \<and> ps_tail ps' = of_nat (length (segment_bytes (last rss'')))
          \<and> concat rss'' = concat rss' @ fresh (present H rss repairing) (fst ` set (ps_staged ps)) []
          \<and> (\<exists>P. placed_from 0 rss'' = placed_from 0 rss @ P \<and> ps_staged ps' = map (\<lambda>(i, l, _). (i, l)) P)"
      using st staging_flushed [OF st] Nil.prems(3) same(1)
      by (intro exI [of _ rss']) (simp add: staging_def)
  qed simp_all
next
  case (Cons x items)
  obtain i d where x: "x = (i, d)" by fastforce
  obtain e ps1 where step: "put_step H st repairing (i, d) ps = (e, ps1)" by fastforce
  note eff = put_step_effect [OF Cons.prems(1) Cons.prems(2) [unfolded x] assms(4,5) step]
  show ?case
  proof (cases e)
    case (Some err1)
    then have "err = Some err1" "ps' = ps1" using Cons.prems(4) step by (simp_all add: x)
    then show ?thesis using eff(2,3) Some by simp
  next
    case None
    then obtain rss1 base1 pend1 where one: "staging rss ps1 rss1 base1 pend1" "room items ps1 rss1"
      "length rss1 \<le> Suc (length rss')"
      "concat rss1 = concat rss' @ fresh (present H rss repairing) (fst ` set (ps_staged ps)) [(i, d)]"
      "fst ` set (ps_staged ps1) = (if present H rss repairing i then {} else {i}) \<union> fst ` set (ps_staged ps)"
      using eff(1) by blast
    have rest: "put_loop H st repairing items ps1 = (err, ps')"
      using Cons.prems(4) step None by (simp add: x)
    have "length rss1 + length items < 2 ^ 32"
      using one(3) Cons.prems(3) by simp
    note IH = Cons.IH [OF one(1,2) this rest]
    have recs: "concat rss1 @ fresh (present H rss repairing) (fst ` set (ps_staged ps1)) items
        = concat rss' @ fresh (present H rss repairing) (fst ` set (ps_staged ps)) (x # items)"
      unfolding fresh_Cons [of _ _ x items] one(4,5) by (simp add: x)
    show ?thesis using IH unfolding recs .
  qed
qed

text \<open>A batch fits when no file can reach \<open>2\<^sup>6\<^sup>2\<close> bytes and no segment number can overflow.\<close>

definition batch_fits :: "(bytes \<Rightarrow> bytes32) \<Rightarrow> bytes list \<Rightarrow> block_store \<Rightarrow> bool" where
  "batch_fits H payloads st \<longleftrightarrow>
     length (last (st_files st)) + length (segment_bytes (map (\<lambda>p. (block_id_of H p, p)) payloads)) < 2 ^ 62
     \<and> length (st_files st) + length payloads < 2 ^ 32"

lemma put_many_inner_effect:
  assumes "represents rss st" and "batch_fits H payloads st"
    and "put_many_inner H f repairing payloads st = (r, st')"
  defines "items \<equiv> map (\<lambda>p. (block_id_of H p, p)) payloads"
  shows "(\<forall>e. r = Inl e \<longrightarrow> e \<noteq> Panic \<and> st_write_failed st' \<and> st_index st' = st_index st
            \<and> list_all2 file_holds (take (length rss) (st_files st')) rss)
       \<and> (\<forall>ids. r = Inr ids \<longrightarrow> ids = map fst items
            \<and> (\<exists>rss'. represents rss' st' \<and> concat rss' = concat rss @ fresh (present H rss repairing) {} items))"
proof -
  let ?ps = "\<lparr>ps_files = st_files st, ps_tail = st_tail st, ps_staged = [], ps_pending = [],
      ps_rolled = False, ps_fault = f\<rparr>"
  have rep: "rss \<noteq> []" "length rss < 2 ^ 32" "list_all2 file_holds (st_files st) rss"
    "st_index st = index_of rss" "st_tail st = of_nat (length (segment_bytes (last rss)))"
    "\<not> st_write_failed st"
    using assms(1) by (simp_all add: represents_def)
  have len: "length (st_files st) = length rss" using list_all2_lengthD [OF rep(3)] .
  then have "st_files st \<noteq> []" using rep(1) by auto
  then have split: "list_all2 file_holds (butlast (st_files st)) (butlast rss)"
    "file_holds (last (st_files st)) (last rss)"
    using list_all2_butlast_last [of "st_files st" rss file_holds] rep(1,3) len by auto
  then have start: "staging rss ?ps rss (last rss) []"
    using rep len by (simp add: staging_def)
  have "length (segment_bytes (last rss)) \<le> length (last (st_files st))"
    using split(2) by (auto simp: file_holds_def)
  then have space: "room items ?ps rss" "length rss + length items < 2 ^ 32"
    using assms(2) len by (simp_all add: room_def batch_fits_def items_def)
  obtain err ps' where loop: "put_loop H st repairing items ?ps = (err, ps')" by fastforce
  note eff = put_loop_effect [OF start space rep(4,2) loop]
  have res: "put_many_inner H f repairing payloads st = (case err of
      Some e \<Rightarrow> (Inl e, st\<lparr>st_files := ps_files ps', st_tail := ps_tail ps', st_write_failed := True\<rparr>)
    | None \<Rightarrow> (Inr (map fst items), st\<lparr>st_files := ps_files ps', st_tail := ps_tail ps',
        st_index := fold (\<lambda>(i, l). fmupd i l) (ps_staged ps') (st_index st)\<rparr>))"
    unfolding put_many_inner_def Let_def items_def [symmetric] using rep(6) loop by (simp split: option.splits)
  show ?thesis
  proof (cases err)
    case (Some e)
    then show ?thesis using res assms(3) eff by auto
  next
    case None
    then obtain rss' P where new: "rss' \<noteq> []" "length rss' < 2 ^ 32" "list_all2 file_holds (ps_files ps') rss'"
      "ps_tail ps' = of_nat (length (segment_bytes (last rss')))"
      "concat rss' = concat rss @ fresh (present H rss repairing) {} items"
      "placed_from 0 rss' = placed_from 0 rss @ P" "ps_staged ps' = map (\<lambda>(i, l, _). (i, l)) P"
      using eff by auto
    have "fold (\<lambda>(i, l). fmupd i l) (ps_staged ps') (st_index st) = index_of rss'"
      by (simp add: index_of_def new(6,7) rep(4))
    then have "represents rss' st'" "r = Inr (map fst items)"
      using res None assms(3) new rep(6) by (auto simp: represents_def)
    then show ?thesis using new(5) by blast
  qed
qed

text \<open>Without a failing call a put succeeds.\<close>

lemma write_batch_NoFault: "fst (write_batch NoFault ws data) = (None, NoFault)"
  by (induction ws arbitrary: data) auto

lemma flush_active_NoFault:
  "ps_fault ps = NoFault \<Longrightarrow> fst (flush_active ps) = None \<and> ps_fault (snd (flush_active ps)) = NoFault"
  using write_batch_NoFault [of "ps_pending ps" "last (ps_files ps)"]
  by (auto simp: flush_active_def flush_pending_def split: prod.splits)

lemma roll_segment_NoFault:
  "ps_fault ps = NoFault \<Longrightarrow> fst (roll_segment ps) = None \<and> ps_fault (snd (roll_segment ps)) = NoFault"
  using flush_active_NoFault [of ps] by (auto simp: roll_segment_def split: prod.splits)

lemma put_step_NoFault:
  assumes "ps_fault ps = NoFault" and "put_step H st repairing item ps = (err, ps')"
  shows "err \<in> {None, Some Panic} \<and> ps_fault ps' = NoFault"
  using assms(2) roll_segment_NoFault [OF assms(1)] assms(1)
  by (auto simp: put_step_def stage_record_def split: prod.splits option.splits if_splits)

lemma put_loop_NoFault:
  assumes "ps_fault ps = NoFault" and "put_loop H st repairing items ps = (err, ps')"
  shows "err \<in> {None, Some Panic}"
  using assms
proof (induction items arbitrary: ps)
  case Nil
  then show ?case
    using flush_active_NoFault [of ps] by (auto split: prod.splits option.splits if_splits)
next
  case (Cons x items)
  obtain e ps1 where step: "put_step H st repairing x ps = (e, ps1)" by fastforce
  note one = put_step_NoFault [OF Cons.prems(1) step]
  then show ?case
    using Cons.IH [of ps1] Cons.prems(2) step by (auto split: option.splits)
qed

lemma put_many_inner_succeeds:
  assumes "represents rss st" and "batch_fits H payloads st"
  shows "\<exists>ids. fst (put_many_inner H NoFault repairing payloads st) = Inr ids"
proof (cases "fst (put_many_inner H NoFault repairing payloads st)")
  case (Inl e)
  then have "e \<noteq> Panic"
    using put_many_inner_effect [OF assms, of NoFault repairing] by (metis prod.collapse)
  moreover have "\<not> st_write_failed st"
    using assms(1) by (simp add: represents_def)
  moreover obtain err ps' where loop: "put_loop H st repairing (map (\<lambda>p. (block_id_of H p, p)) payloads)
      \<lparr>ps_files = st_files st, ps_tail = st_tail st, ps_staged = [], ps_pending = [],
       ps_rolled = False, ps_fault = NoFault\<rparr> = (err, ps')" by fastforce
  moreover have "err \<in> {None, Some Panic}"
    by (rule put_loop_NoFault [OF _ loop]) simp
  ultimately have "e = Panic"
    using Inl by (auto simp: put_many_inner_def Let_def)
  with \<open>e \<noteq> Panic\<close> show ?thesis by simp
qed simp

section \<open>Properties of put and get\<close>

lemma latest_append:
  assumes "latest rss i = Some d" and "concat rss' = concat rss @ new" and "i \<notin> fst ` set new"
  shows "latest rss' i = Some d"
proof -
  have "map_of (rev new) i = None"
    using assms(3) by (simp add: map_of_eq_None_iff)
  then show ?thesis
    using assms(1,2) by (simp add: latest_def map_add_def)
qed

lemma fresh_ids: "fst ` set (fresh known seen items) \<subseteq> {i. \<not> known i \<and> i \<notin> seen}"
  by (induction known seen items rule: fresh.induct) auto

lemma fresh_found:
  assumes "(i, d) \<in> set items" and "\<not> known i" and "i \<notin> seen"
  shows "\<exists>e. (i, e) \<in> set items \<and> map_of (rev (fresh known seen items)) i = Some e"
  using assms
proof (induction known seen items rule: fresh.induct)
  case (2 known seen j e items)
  show ?case
  proof (cases "known j \<or> j \<in> seen")
    case True
    then show ?thesis using 2 by auto
  next
    case False
    show ?thesis
    proof (cases "i = j")
      case True
      have "i \<notin> fst ` set (fresh known (insert j seen) items)"
        using fresh_ids [of known "insert j seen" items] True by auto
      then have "map_of (rev (fresh known (insert j seen) items)) i = None"
        by (simp add: map_of_eq_None_iff)
      then show ?thesis using False True by (auto simp: map_add_def)
    next
      case ne: False
      then obtain e' where "(i, e') \<in> set items" "map_of (rev (fresh known (insert j seen) items)) i = Some e'"
        using 2 False by auto
      then show ?thesis using False ne by (auto simp: map_add_def)
    qed
  qed
qed simp

lemma contains_iff: "represents rss st \<Longrightarrow> contains_block st i \<longleftrightarrow> latest rss i \<noteq> None"
  by (auto simp: represents_def contains_block_def index_lookup latest_lookup)

text \<open>
  C11.  Stored blocks can be read back, and storing never harms other blocks.  On a well-formed store and
  for any batch that fits, a put that returns \<open>Ok\<close> gives the content addresses of the payloads in
  order; each payload that was not stored before is then returned by \<open>get\<close> (up to payloads of the
  same hash in the batch), every block stored before reads as before, and the store is well formed.
  Without a failing call the put does succeed.
\<close>

theorem put_then_get:
  assumes "represents rss st" and "batch_fits H payloads st"
  shows "(\<forall>ids st'. put_many H f payloads st = (Inr ids, st') \<longrightarrow>
            ids = map (block_id_of H) payloads
            \<and> (\<forall>p\<in>set payloads. contains_block st' (block_id_of H p)
                 \<and> (\<not> contains_block st (block_id_of H p) \<longrightarrow>
                      (\<exists>q\<in>set payloads. block_id_of H q = block_id_of H p
                         \<and> get_block H st' (block_id_of H p) = Inr q)))
            \<and> (\<forall>i. contains_block st i \<longrightarrow> get_block H st' i = get_block H st i)
            \<and> (\<exists>rss'. represents rss' st'))
       \<and> (\<exists>ids st'. put_many H NoFault payloads st = (Inr ids, st'))"
proof (intro conjI allI impI)
  show "\<exists>ids st'. put_many H NoFault payloads st = (Inr ids, st')"
    using put_many_inner_succeeds [OF assms, of False] unfolding put_many_def by (metis prod.collapse)
  fix ids st'
  assume put: "put_many H f payloads st = (Inr ids, st')"
  define items where "items = map (\<lambda>p. (block_id_of H p, p)) payloads"
  obtain rss' where new: "represents rss' st'" "ids = map fst items"
    "concat rss' = concat rss @ fresh (present H rss False) {} items"
    using put_many_inner_effect [OF assms put [unfolded put_many_def]] by (auto simp: items_def)
  then show "ids = map (block_id_of H) payloads"
    by (simp add: items_def comp_def)
  show "\<exists>rss'. represents rss' st'" using new(1) by blast
  note reads = get_refines [OF assms(1)] get_refines [OF new(1)]
    contains_iff [OF assms(1)] contains_iff [OF new(1)]
  have kept: "latest rss' i = latest rss i" if "latest rss i \<noteq> None" for i
  proof -
    have "i \<notin> fst ` set (fresh (present H rss False) {} items)"
      using fresh_ids [of "present H rss False" "{}" items] that by (auto simp: present_def)
    then show ?thesis using that latest_append [OF _ new(3)] by auto
  qed
  then show "get_block H st' i = get_block H st i" if "contains_block st i" for i
    using that by (simp add: reads abs_get_def)
  show "\<forall>p\<in>set payloads. contains_block st' (block_id_of H p)
      \<and> (\<not> contains_block st (block_id_of H p) \<longrightarrow>
           (\<exists>q\<in>set payloads. block_id_of H q = block_id_of H p \<and> get_block H st' (block_id_of H p) = Inr q))"
  proof
    fix p assume p: "p \<in> set payloads"
    show "contains_block st' (block_id_of H p)
      \<and> (\<not> contains_block st (block_id_of H p) \<longrightarrow>
           (\<exists>q\<in>set payloads. block_id_of H q = block_id_of H p \<and> get_block H st' (block_id_of H p) = Inr q))"
    proof (cases "contains_block st (block_id_of H p)")
      case True
      then show ?thesis using kept by (simp add: reads)
    next
      case False
      have "(block_id_of H p, p) \<in> set items" using p by (simp add: items_def)
      then obtain q where q: "(block_id_of H p, q) \<in> set items"
        "map_of (rev (fresh (present H rss False) {} items)) (block_id_of H p) = Some q"
        using fresh_found [of "block_id_of H p" p items "present H rss False" "{}"] False
        by (auto simp: present_def reads)
      then have "latest rss' (block_id_of H p) = Some q" "q \<in> set payloads" "block_id_of H q = block_id_of H p"
        by (auto simp: latest_def new(3) map_add_def items_def)
      then show ?thesis
        by (auto simp: reads abs_get_def verify_def)
    qed
  qed
qed

end
