(* ===== verification/Block_Store_Properties.thy ===== *)
theory Block_Store_Properties
  imports Block_Store_Refinement "HOL-Library.Multiset"
begin

text \<open>
  Failure, repair, reopening and the integrity check of the block store, over the refinement of the
  previous theory.
\<close>

section \<open>Failed writes\<close>

text \<open>
  C16.  A failed write fails closed.  Whichever call of a put fails, and whatever part of the batch reached
  the file, every block reads exactly as before, no new block becomes visible, and from then on
  every put is refused until the store is reopened.
\<close>

theorem failed_put_fails_closed:
  assumes "represents rss st" and "batch_fits H payloads st"
    and "put_many H f payloads st = (Inl e, st')"
  shows "get_block H st' i = get_block H st i \<and> contains_block st' i = contains_block st i
       \<and> put_many H f' later st' =
           (Inl (Failure (Io ''append failed previously; restart storage before further writes'')), st')"
proof -
  have eff: "st_write_failed st'" "st_index st' = st_index st"
    "list_all2 file_holds (take (length rss) (st_files st')) rss"
    using put_many_inner_effect [OF assms(1,2) assms(3) [unfolded put_many_def]] by auto
  have "get_block H st' i = abs_get H rss i"
    using eff(2,3) assms(1) by (intro get_prefix) (simp_all add: represents_def)
  then show ?thesis
    using get_refines [OF assms(1)] eff(1,2)
    by (simp add: contains_block_def put_many_def put_many_inner_def)
qed

section \<open>Repair\<close>

lemma repair_effect:
  assumes "represents rss st" and "batch_fits H [data] st" and ok: "verify H i data"
    and run: "repair_block H f i data st = (Inr j, st')"
  shows "j = i" and "\<exists>d. get_block H st' i = Inr d \<and> verify H i d"
    and "k \<noteq> i \<Longrightarrow> get_block H st' k = get_block H st k" and "\<exists>rss'. represents rss' st'"
proof -
  have id: "block_id_of H data = i" using ok by (simp add: verify_def)
  obtain ids where inner: "put_many_inner H f True [data] st = (Inr ids, st')" "j = hd ids"
    using run ok by (cases "put_many_inner H f True [data] st")
      (auto simp: repair_block_def map_sum_def split: sum.splits)
  have eff: "ids = [i]" "\<exists>rss'. represents rss' st'
      \<and> concat rss' = concat rss @ fresh (present H rss True) {} [(i, data)]"
    using put_many_inner_effect [OF assms(1,2) inner(1)] by (auto simp: id)
  then obtain rss' where new: "represents rss' st'"
    "concat rss' = concat rss @ fresh (present H rss True) {} [(i, data)]" by blast
  note reads = get_refines [OF assms(1)] get_refines [OF new(1)]
  show "j = i" using inner(2) eff(1) by simp
  show "\<exists>rss'. represents rss' st'" using new(1) by blast
  show "\<exists>d. get_block H st' i = Inr d \<and> verify H i d"
  proof (cases "present H rss True i")
    case True
    then obtain d where d: "abs_get H rss i = Inr d" by (auto simp: present_def)
    moreover have "latest rss' = latest rss" using new(2) True by (simp add: latest_def)
    ultimately show ?thesis
      by (auto simp: reads abs_get_def split: option.splits if_splits)
  next
    case False
    then have "latest rss' i = Some data" using new(2) by (simp add: latest_def)
    then show ?thesis using ok by (simp add: reads abs_get_def)
  qed
  show "get_block H st' k = get_block H st k" if "k \<noteq> i"
    using new(2) that by (simp add: reads abs_get_def latest_def map_add_def)
qed

text \<open>
  C22.  Repair restores a block.  With bytes of the right hash, a repair that returns \<open>Ok\<close> makes the block
  readable with bytes of that hash, even when its indexed record was damaged, and no other block
  changes; with other bytes it changes nothing.
\<close>

theorem repair_restores:
  assumes "represents rss st" and "batch_fits H [data] st"
  shows "(verify H i data \<longrightarrow> (\<forall>j st'. repair_block H f i data st = (Inr j, st') \<longrightarrow>
            j = i \<and> (\<exists>d. get_block H st' i = Inr d \<and> verify H i d)
            \<and> (\<forall>k. k \<noteq> i \<longrightarrow> get_block H st' k = get_block H st k)
            \<and> (\<exists>rss'. represents rss' st')))
       \<and> (\<not> verify H i data \<longrightarrow> repair_block H f i data st = (Inl (Failure (Corrupt i)), st))"
  using repair_effect [OF assms] by (simp add: repair_block_def)

section \<open>Reopening\<close>

fun numbered :: "nat \<Rightarrow> bytes list \<Rightarrow> (u32 \<times> bytes) list" where
  "numbered k [] = []"
| "numbered k (data # fs) = (of_nat k, data) # numbered (Suc k) fs"

lemma numbered_keys: "map fst (numbered k fs) = map of_nat [k..<k + length fs]"
proof (induction k fs rule: numbered.induct)
  case (2 k data fs)
  have "[k..<k + length (data # fs)] = k # [Suc k..<Suc k + length fs]"
    by (simp add: upt_conv_Cons del: upt_Suc)
  with 2 show ?case by (simp del: upt_Suc)
qed simp

lemma numbered_files: "map snd (numbered k fs) = fs"
  by (induction k fs rule: numbered.induct) simp_all

text \<open>Every file ends where its records end.\<close>

definition clean_ends :: "bytes \<Rightarrow> (block_id \<times> bytes) list \<Rightarrow> bool" where
  "clean_ends data rs \<longleftrightarrow> file_holds data rs \<and> scan_ends data (length (segment_bytes rs))"

lemma open_segments_represents:
  assumes "list_all2 clean_ends fs rss"
  shows "open_segments (numbered k fs) idx t =
    Some (Inr (fold (\<lambda>(i, l). fmupd i l) (map (\<lambda>(i, l, _). (i, l)) (placed_from k rss)) idx,
               if rss = [] then t else of_nat (length (segment_bytes (last rss)))))"
  using assms
proof (induction fs rss arbitrary: k idx t rule: list_all2_induct)
  case (Cons data fs rs rss)
  obtain rest where data: "data = segment_bytes rs @ rest" "length (segment_bytes rs @ rest) < 2 ^ 62"
    "scan_ends (segment_bytes rs @ rest) (length (segment_bytes rs))"
    using Cons.hyps(1) by (auto simp: clean_ends_def file_holds_def)
  have "scan data (of_nat k) = Some (Inr (locations (of_nat k) 0 rs, of_nat (length (segment_bytes rs))))"
    using scan_from_records [OF data(2), of "[]" rs rest "of_nat k" "[]"] data(1,3)
    by (simp add: scan_def)
  then show ?case
    using Cons.IH [of "Suc k"] by (simp add: locations_placed)
qed simp

lemma sorted_numbered:
  assumes "k + length fs < 2 ^ 32"
  shows "sorted (map fst (numbered k fs))" and "inj_on fst (set (numbered k fs))"
proof -
  have small: "unat (of_nat n :: u32) = n" if "n < k + length fs" for n
    using that assms by (simp add: unat_of_nat)
  have "sorted (map (of_nat :: nat \<Rightarrow> u32) [k..<k + length fs])"
    unfolding sorted_map by (rule sorted_wrt_mono_rel [OF _ sorted_wrt_upt])
      (auto simp: word_le_nat_alt small)
  then show "sorted (map fst (numbered k fs))" by (simp add: numbered_keys)
  have "inj_on (of_nat :: nat \<Rightarrow> u32) {k..<k + length fs}"
    by (rule inj_onI) (metis atLeastLessThan_iff small)
  then have "distinct (map fst (numbered k fs))"
    by (simp add: numbered_keys distinct_map)
  then show "inj_on fst (set (numbered k fs))" by (simp add: distinct_map)
qed

text \<open>
  C21.  Reopening after a clean stop rebuilds the store.  Whatever order the directory lists the segment
  files in, opening them returns a store with the same index, the same files and the same append
  position; only the roll size is the default again.
\<close>

theorem reopen_rebuilds:
  assumes "represents rss st" and "list_all2 clean_ends (st_files st) rss"
    and "mset listing = mset (numbered 0 (st_files st))"
  shows "open_with listing = Some (Inr (st\<lparr>st_roll_bytes := DEFAULT_SEGMENT_ROLL_BYTES\<rparr>))"
proof -
  have rep: "rss \<noteq> []" "length rss < 2 ^ 32" "st_index st = index_of rss"
    "st_tail st = of_nat (length (segment_bytes (last rss)))" "\<not> st_write_failed st"
    using assms(1) by (simp_all add: represents_def)
  have len: "length (st_files st) = length rss"
    using list_all2_lengthD [OF assms(2)] .
  note srt = sorted_numbered [of 0 "st_files st"]
  have sort: "sort_key fst listing = numbered 0 (st_files st)"
    using srt len rep(2) assms(3)
    by (intro sort_key_inj_key_eq) (auto dest: mset_eq_setD)
  have "numbered 0 (st_files st) \<noteq> []"
    using len rep(1) by (cases "st_files st") auto
  then show ?thesis
    using open_segments_represents [OF assms(2), of 0 fmempty 0] rep
    by (cases st) (simp add: open_with_def sort numbered_files index_of_def)
qed

section \<open>Torn records\<close>

lemma clean_ends_exact: "length (segment_bytes rs) < 2 ^ 62 \<Longrightarrow> clean_ends (segment_bytes rs) rs"
  by (simp add: clean_ends_def file_holds_def scan_ends_def)

lemma open_one_segment:
  assumes "length (segment_bytes rs) < 2 ^ 62"
  shows "open_with [(0, segment_bytes rs)] = Some (Inr
    \<lparr>st_index = index_of [rs], st_files = [segment_bytes rs], st_tail = of_nat (length (segment_bytes rs)),
     st_roll_bytes = DEFAULT_SEGMENT_ROLL_BYTES, st_write_failed = False\<rparr>)"
  using open_segments_represents [of "[segment_bytes rs]" "[rs]" 0 fmempty 0] clean_ends_exact [OF assms]
  by (simp add: open_with_def index_of_def)

text \<open>
  A torn write can block a payload for good.  A crash may leave the header of a record on disk with a
  payload that is not the one its id names.  Opening such a file indexes the record; a later put
  of the payload is then acknowledged without being written, and reading the block reports it corrupt.
\<close>

theorem torn_record_blocks_put:
  assumes "H [1, 2, 3] \<noteq> H [0, 0, 0]"
  shows "\<exists>st. open_with [(0, header_bytes (block_id_of H [1, 2, 3]) 3 @ replicate 4032 0)] = Some (Inr st)
    \<and> put H NoFault [1, 2, 3] st = (Inr (block_id_of H [1, 2, 3]), st)
    \<and> get_block H st (block_id_of H [1, 2, 3]) = Inl (Failure (Corrupt (block_id_of H [1, 2, 3])))"
proof -
  let ?i = "block_id_of H [1, 2, 3]"
  define rs where "rs = [(?i, [0, 0, 0 :: u8])]"
  have len: "length (segment_bytes rs) = 4096"
    by (simp add: rs_def length_segment_bytes_one padded_def)
  have bytes: "segment_bytes rs = header_bytes ?i 3 @ replicate 4032 0"
  proof -
    have "[0, 0, 0] @ replicate 4029 (0 :: u8) = replicate 4032 0"
      using replicate_add [of 3 4029 "0 :: u8"] by (simp add: numeral_3_eq_3)
    then show ?thesis
      by (simp add: rs_def segment_bytes_def encode_record_layout padded_def)
  qed
  define st where "st = \<lparr>st_index = index_of [rs], st_files = [segment_bytes rs], st_tail = 4096,
     st_roll_bytes = DEFAULT_SEGMENT_ROLL_BYTES, st_write_failed = False\<rparr>"
  have opened: "open_with [(0, segment_bytes rs)] = Some (Inr st)"
    using open_one_segment [of rs] len by (simp add: st_def)
  have rep: "represents [rs] st"
    using len by (simp add: represents_def st_def file_holds_def)
  have known: "latest [rs] ?i = Some [0, 0, 0]" by (simp add: latest_def rs_def)
  then have "get_block H st ?i = Inl (Failure (Corrupt ?i))"
    using get_refines [OF rep, of H ?i] assms by (simp add: abs_get_def verify_def block_id_of_def)
  moreover have "put H NoFault [1, 2, 3] st = (Inr ?i, st)"
    using contains_iff [OF rep, of ?i] known
    by (simp add: put_def put_many_def put_many_inner_def put_step_def block_present_def contains_block_def
        flush_active_def flush_pending_def st_def)
  ultimately show ?thesis
    using opened bytes by auto
qed

section \<open>Witnesses\<close>

text \<open>A toy hash that separates the payloads used below.\<close>

definition sum_hash :: "bytes \<Rightarrow> bytes32" where
  "sum_hash bs = fill32 (sum_list bs)"

theorem torn_record_blocks_put_witness:
  "\<exists>st. open_with [(0, header_bytes (block_id_of sum_hash [1, 2, 3]) 3 @ replicate 4032 0)] = Some (Inr st)
    \<and> get_block sum_hash st (block_id_of sum_hash [1, 2, 3])
        = Inl (Failure (Corrupt (block_id_of sum_hash [1, 2, 3])))"
  using torn_record_blocks_put [of sum_hash] by (auto simp: sum_hash_def)

definition empty_store :: block_store where
  "empty_store = \<lparr>st_index = fmempty, st_files = [[]], st_tail = 0,
     st_roll_bytes = DEFAULT_SEGMENT_ROLL_BYTES, st_write_failed = False\<rparr>"

lemma empty_store_ok: "represents [[]] empty_store" "batch_fits sum_hash [[1, 2, 3]] empty_store"
  by (simp_all add: represents_def empty_store_def index_of_def file_holds_def batch_fits_def
      length_segment_bytes_one padded_def)

lemma empty_store_contains [simp]: "\<not> contains_block empty_store i"
  by (simp add: contains_block_def empty_store_def)

theorem put_then_get_witness:
  "get_block sum_hash (snd (put_many sum_hash NoFault [[1, 2, 3]] empty_store)) (block_id_of sum_hash [1, 2, 3])
     = Inr [1, 2, 3]"
proof -
  note t = put_then_get [OF empty_store_ok, of NoFault]
  then obtain ids st' where "put_many sum_hash NoFault [[1, 2, 3]] empty_store = (Inr ids, st')" by blast
  with t show ?thesis by fastforce
qed

theorem failed_put_fails_closed_witness:
  "get_block sum_hash (snd (put_many sum_hash (FaultAt 0 70) [[1, 2, 3]] empty_store)) (block_id_of sum_hash [1, 2, 3])
     = Inl (Failure (BlockNotFound (block_id_of sum_hash [1, 2, 3])))"
proof -
  have "put_many sum_hash (FaultAt 0 70) [[1, 2, 3]] empty_store
      = (Inl (Failure (Io ''write'')), snd (put_many sum_hash (FaultAt 0 70) [[1, 2, 3]] empty_store))"
    by (simp add: put_many_def put_many_inner_def put_step_def block_present_def stage_record_def
        flush_active_def flush_pending_def empty_store_def)
  from failed_put_fails_closed [OF empty_store_ok this, of "block_id_of sum_hash [1, 2, 3]" NoFault "[]"]
  show ?thesis by (simp add: get_block_def empty_store_def)
qed

definition damaged_store :: block_store where
  "damaged_store =
     \<lparr>st_index = index_of [[(BlockId (fill32 6), [9])]],
      st_files = [segment_bytes [(BlockId (fill32 6), [9])]], st_tail = 4096,
      st_roll_bytes = DEFAULT_SEGMENT_ROLL_BYTES, st_write_failed = False\<rparr>"

lemma damaged_store_ok:
  "represents [[(BlockId (fill32 6), [9])]] damaged_store" "batch_fits sum_hash [[1, 2, 3]] damaged_store"
  by (simp_all add: represents_def damaged_store_def file_holds_def batch_fits_def
      length_segment_bytes_one padded_def)

theorem repair_restores_witness:
  "\<exists>d. get_block sum_hash (snd (repair_block sum_hash NoFault (BlockId (fill32 6)) [1, 2, 3] damaged_store))
     (BlockId (fill32 6)) = Inr d \<and> verify sum_hash (BlockId (fill32 6)) d"
proof -
  let ?run = "repair_block sum_hash NoFault (BlockId (fill32 6)) [1, 2, 3] damaged_store"
  have ok: "verify sum_hash (BlockId (fill32 6)) [1, 2, 3]"
    by (simp add: verify_def block_id_of_def sum_hash_def)
  obtain ids where "fst (put_many_inner sum_hash NoFault True [[1, 2, 3]] damaged_store) = Inr ids"
    using put_many_inner_succeeds [OF damaged_store_ok] by blast
  then have "?run = (Inr (hd ids), snd ?run)"
    using ok by (simp add: repair_block_def prod_eq_iff)
  with repair_restores [OF damaged_store_ok, of "BlockId (fill32 6)" NoFault] ok show ?thesis
    by blast
qed

theorem reopen_rebuilds_witness:
  "open_with [(0, segment_bytes [(BlockId (fill32 6), [9])])] = Some (Inr damaged_store)"
proof -
  have "list_all2 clean_ends (st_files damaged_store) [[(BlockId (fill32 6), [9])]]"
    by (simp add: damaged_store_def clean_ends_exact length_segment_bytes_one padded_def)
  from reopen_rebuilds [OF damaged_store_ok(1) this, of "[(0, segment_bytes [(BlockId (fill32 6), [9])])]"]
  show ?thesis by (simp add: damaged_store_def)
qed

end
