(* ===== verification/Compaction.thy ===== *)
theory Compaction
  imports Block_Store_Properties
begin

text \<open>
  Compaction of sealed segments: live blocks keep their contents, dead ones disappear, whatever call
  fails.  The iteration order of the index (a hash map) is an argument; \<open>lists_map\<close> says that it lists
  every entry once.
\<close>

definition lists_map :: "(('k, 'v) fmap \<Rightarrow> ('k \<times> 'v) list) \<Rightarrow> bool" where
  "lists_map iter \<longleftrightarrow>
     (\<forall>m. set (iter m) = {(k, v). fmlookup m k = Some v} \<and> distinct (map fst (iter m)))"

text \<open>Sizes at which no offset of a rewritten segment can overflow: less than \<open>2\<^sup>3\<^sup>0\<close> blocks of less than 2 GiB.\<close>

definition compactable :: "block_store \<Rightarrow> bool" where
  "compactable st \<longleftrightarrow>
     length (st_files st) < 2 ^ 32 \<and> fmsize (st_index st) < 2 ^ 30
     \<and> (\<forall>i l. fmlookup (st_index st) i = Some l \<longrightarrow> unat (loc_len l) < 2 ^ 31 - 8192)"

section \<open>Copying\<close>

lemma read_at_length: "read_at data off n = Inr d \<Longrightarrow> length d = n"
  by (auto simp: read_at_def slice_def split: if_splits)

lemma segment_bytes_snoc: "segment_bytes (rs @ [(i, d)]) = segment_bytes rs @ encode_record i d"
  by (simp add: segment_bytes_def)

lemma write_at_end:
  assumes "length data < 2 ^ 62"
  shows "write_at (of_nat (length data)) bs data = data @ bs"
  using assms by (simp add: write_at_def unat_of_nat_u64)

text \<open>The copy holds the kept records with the payloads read from the old file.\<close>

lemma copy_live_effect:
  assumes "copy_live H seg old keep (of_nat (length (segment_bytes rs))) (segment_bytes rs)
      (map (\<lambda>(i, l, _). (i, l)) (placed seg 0 rs)) = Inr (tmp, locs, off)"
    and "\<And>i l. (i, l) \<in> set keep \<Longrightarrow> unat (loc_len l) < 2 ^ 31 - 8192"
    and "length (segment_bytes rs) + length keep * 2 ^ 31 < 2 ^ 62"
  shows "\<exists>new. map fst new = map fst keep \<and> tmp = segment_bytes (rs @ new) \<and> length tmp < 2 ^ 62
    \<and> locs = map (\<lambda>(i, l, _). (i, l)) (placed seg 0 (rs @ new))
    \<and> list_all2 (\<lambda>(i, l) (_, d). read_at old (loc_offset l + HEADER_LEN) (unat (loc_len l)) = Inr d
         \<and> verify H i d) keep new"
  using assms
proof (induction keep arbitrary: rs)
  case Nil
  then show ?case by (intro exI [of _ "[]"]) simp
next
  case (Cons x keep)
  obtain i l where x: "x = (i, l)" by fastforce
  obtain d where d: "read_at old (loc_offset l + HEADER_LEN) (unat (loc_len l)) = Inr d" "verify H i d"
    using Cons.prems(1) by (auto simp: x split: sum.splits if_splits)
  have len: "length d = unat (loc_len l)" "length d < 2 ^ 31 - 8192"
    using read_at_length [OF d(1)] Cons.prems(2) [of i l] by (simp_all add: x)
  have rec: "length (encode_record i d) < 2 ^ 31"
    using length_encode_record [of d i] padded_bounds(2) [of "length d"] len(2) by simp
  let ?rs = "rs @ [(i, d)]"
  have small: "length (segment_bytes rs) < 2 ^ 62" using Cons.prems(3) by simp
  have locs: "map (\<lambda>(i, l, _). (i, l)) (placed seg 0 ?rs) =
      map (\<lambda>(i, l, _). (i, l)) (placed seg 0 rs)
      @ [(i, \<lparr>loc_segment = seg, loc_offset = of_nat (length (segment_bytes rs)), loc_len = loc_len l\<rparr>)]"
    using small padded_sum [of rs] by (simp add: placed_append len(1))
  have "copy_live H seg old keep (of_nat (length (segment_bytes ?rs))) (segment_bytes ?rs)
      (map (\<lambda>(i, l, _). (i, l)) (placed seg 0 ?rs)) = Inr (tmp, locs, off)"
    using Cons.prems(1) d unfolding locs
    by (simp add: x write_at_end [OF small] segment_bytes_snoc Let_def)
  moreover have "length (segment_bytes ?rs) + length keep * 2 ^ 31 < 2 ^ 62"
    using Cons.prems(3) rec by (simp add: segment_bytes_snoc)
  ultimately obtain new where new: "map fst new = map fst keep" "tmp = segment_bytes (?rs @ new)"
    "length tmp < 2 ^ 62" "locs = map (\<lambda>(i, l, _). (i, l)) (placed seg 0 (?rs @ new))"
    "list_all2 (\<lambda>(i, l) (_, d). read_at old (loc_offset l + HEADER_LEN) (unat (loc_len l)) = Inr d
         \<and> verify H i d) keep new"
    using Cons.IH [of ?rs] Cons.prems(2) by auto
  then show ?case
    using d by (intro exI [of _ "(i, d) # new"]) (simp add: x)
qed

section \<open>One segment\<close>

lemma fold_fmdrop_lookup:
  "fmlookup (fold (\<lambda>(i, _). fmdrop i) xs m) j = (if j \<in> fst ` set xs then None else fmlookup m j)"
  by (induction xs arbitrary: m) (auto split: prod.splits)

lemma placed_ids: "map fst (map (\<lambda>(i, l, _). (i, l)) (placed seg off rs)) = map fst rs"
  by (induction seg off rs rule: placed.induct) simp_all

lemma placed_len: "(i, l, d) \<in> set (placed seg off rs) \<Longrightarrow> loc_len l = of_nat (length d)"
  by (induction seg off rs rule: placed.induct) auto

lemma map_of_placed_some:
  assumes "(i, d) \<in> set rs" and "distinct (map fst rs)"
  shows "\<exists>l. map_of (rev (map (\<lambda>(i, l, _). (i, l)) (placed seg off rs))) i = Some l
    \<and> (i, l, d) \<in> set (placed seg off rs)"
proof -
  have "(i, d) \<in> set (map (\<lambda>(i, _, d). (i, d)) (placed seg off rs))"
    using assms(1) by (simp only: placed_records)
  then obtain l where l: "(i, l, d) \<in> set (placed seg off rs)" by auto
  have "distinct (map fst (rev (map (\<lambda>(i, l, _). (i, l)) (placed seg off rs))))"
    using assms(2) placed_ids [of seg off rs] by (simp flip: rev_map)
  moreover have "(i, l) \<in> set (rev (map (\<lambda>(i, l, _). (i, l)) (placed seg off rs)))"
    using l by force
  ultimately show ?thesis using l by (auto intro: map_of_is_SomeI)
qed

lemma map_of_placed_none:
  assumes "i \<notin> fst ` set rs"
  shows "map_of (rev (map (\<lambda>(i, l, _). (i, l)) (placed seg off rs))) i = None"
proof -
  have "i \<notin> set (map fst (map (\<lambda>(i, l, _). (i, l)) (placed seg off rs)))"
    using assms unfolding placed_ids by simp
  then show ?thesis by (simp add: map_of_eq_None_iff image_image)
qed

definition swapped :: "nat \<Rightarrow> bytes \<Rightarrow> (block_id \<times> location) list \<Rightarrow> (block_id \<times> location) list \<Rightarrow> block_store \<Rightarrow> block_store" where
  "swapped k tmp locs dead st = st\<lparr>st_files := (st_files st)[k := tmp],
     st_index := fold (\<lambda>(i, l). fmupd i l) locs (fold (\<lambda>(i, _). fmdrop i) dead (st_index st))\<rparr>"

text \<open>
  Rewriting the segments \<open>S\<close>: their dead blocks are gone, every other block reads as before and stays in
  its segment, and no block appears.
\<close>

definition compacted :: "(bytes \<Rightarrow> bytes32) \<Rightarrow> (block_id \<Rightarrow> bool) \<Rightarrow> u32 set \<Rightarrow> block_store \<Rightarrow> block_store \<Rightarrow> bool" where
  "compacted H live S st st' \<longleftrightarrow>
     length (st_files st') = length (st_files st)
     \<and> (\<forall>i l. fmlookup (st_index st) i = Some l \<longrightarrow>
          (if loc_segment l \<in> S \<and> \<not> live i then fmlookup (st_index st') i = None
           else get_block H st' i = get_block H st i
             \<and> (\<exists>l'. fmlookup (st_index st') i = Some l' \<and> loc_segment l' = loc_segment l \<and> loc_len l' = loc_len l)))
     \<and> (\<forall>i. fmlookup (st_index st) i = None \<longrightarrow> fmlookup (st_index st') i = None)"

lemma compactedD:
  assumes "compacted H live S st st'" and "fmlookup (st_index st) i = Some l"
  shows "loc_segment l \<in> S \<Longrightarrow> \<not> live i \<Longrightarrow> fmlookup (st_index st') i = None"
    and "loc_segment l \<notin> S \<or> live i \<Longrightarrow> get_block H st' i = get_block H st i
      \<and> (\<exists>l'. fmlookup (st_index st') i = Some l' \<and> loc_segment l' = loc_segment l \<and> loc_len l' = loc_len l)"
  using assms unfolding compacted_def by (smt (verit))+

lemma compacted_older:
  assumes "compacted H live S st st'" and "fmlookup (st_index st') i = Some l'"
  obtains l where "fmlookup (st_index st) i = Some l"
proof -
  have "fmlookup (st_index st) i = None \<Longrightarrow> fmlookup (st_index st') i = None"
    using assms(1) unfolding compacted_def by blast
  then show thesis using assms(2) that by fastforce
qed

lemma compacted_refl: "compacted H live {} st st"
  by (simp add: compacted_def)

lemma compacted_trans:
  assumes "compacted H live S st st1" and "compacted H live S' st1 st2"
  shows "compacted H live (S \<union> S') st st2"
  unfolding compacted_def
proof (intro conjI allI impI)
  show "length (st_files st2) = length (st_files st)"
    using assms by (simp add: compacted_def)
next
  fix i l assume l: "fmlookup (st_index st) i = Some l"
  show "if loc_segment l \<in> S \<union> S' \<and> \<not> live i then fmlookup (st_index st2) i = None
        else get_block H st2 i = get_block H st i
          \<and> (\<exists>l'. fmlookup (st_index st2) i = Some l' \<and> loc_segment l' = loc_segment l \<and> loc_len l' = loc_len l)"
  proof (cases "loc_segment l \<in> S \<and> \<not> live i")
    case True
    then have "fmlookup (st_index st1) i = None" using assms(1) l by (simp add: compacted_def)
    then have "fmlookup (st_index st2) i = None" using assms(2) by (simp add: compacted_def)
    then show ?thesis using True by simp
  next
    case False
    then obtain l1 where l1: "fmlookup (st_index st1) i = Some l1" "loc_segment l1 = loc_segment l"
      "loc_len l1 = loc_len l" "get_block H st1 i = get_block H st i"
      using compactedD(2) [OF assms(1) l] by blast
    show ?thesis
      using compactedD [OF assms(2) l1(1)] False l1(2-4) by auto
  qed
next
  fix i assume "fmlookup (st_index st) i = None"
  then show "fmlookup (st_index st2) i = None"
    using assms by (simp add: compacted_def)
qed

lemma get_blockI:
  assumes "fmlookup (st_index st) i = Some l" and "unat (loc_segment l) < length (st_files st)"
    and "read_at (st_files st ! unat (loc_segment l)) (loc_offset l + HEADER_LEN) (unat (loc_len l)) = Inr d"
    and "verify H i d"
  shows "get_block H st i = Inr d"
  using assms by (simp add: get_block_def)

lemma swap_compacted:
  assumes iter: "set es = {(i, l). fmlookup (st_index st) i = Some l \<and> loc_segment l = of_nat k}"
      "distinct (map fst es)"
    and k: "k < length (st_files st)" "length (st_files st) < 2 ^ 32"
    and new: "map fst new = map fst (filter (\<lambda>(i, _). live i) es)" "length (segment_bytes new) < 2 ^ 62"
      "list_all2 (\<lambda>(i, l) (_, d). read_at (st_files st ! k) (loc_offset l + HEADER_LEN) (unat (loc_len l)) = Inr d
         \<and> verify H i d) (filter (\<lambda>(i, _). live i) es) new"
  shows "compacted H live {of_nat k} st (swapped k (segment_bytes new)
      (map (\<lambda>(i, l, _). (i, l)) (placed (of_nat k) 0 new)) (filter (\<lambda>(i, _). \<not> live i) es) st)"
    (is "compacted H live _ st ?st")
proof -
  let ?keep = "filter (\<lambda>(i, _). live i) es"
  have k32: "unat (of_nat k :: u32) = k" using k by (simp add: unat_of_nat)
  have distinct: "distinct (map fst new)" unfolding new(1) by (rule distinct_map_filter) (rule iter(2))
  have ids: "fst ` set new = {i. live i \<and> (\<exists>l. fmlookup (st_index st) i = Some l \<and> loc_segment l = of_nat k)}"
  proof -
    have "fst ` set new = fst ` set ?keep" using arg_cong [OF new(1), of set] by simp
    also have "\<dots> = {i. live i \<and> (\<exists>l. (i, l) \<in> set es)}" by force
    finally show ?thesis unfolding iter(1) by simp
  qed
  have other: "fmlookup (st_index ?st) i =
      (if \<exists>l. \<not> live i \<and> fmlookup (st_index st) i = Some l \<and> loc_segment l = of_nat k then None
       else fmlookup (st_index st) i)" if "i \<notin> fst ` set new" for i
  proof -
    have dead: "i \<in> fst ` set (filter (\<lambda>(i, _). \<not> live i) es) \<longleftrightarrow> \<not> live i \<and> (\<exists>l. (i, l) \<in> set es)"
      by force
    show ?thesis
      using map_of_placed_none [OF that, of "of_nat k" 0]
      by (simp add: swapped_def fold_fmupd_map_of fold_fmdrop_lookup dead del: set_filter) (auto simp: iter(1))
  qed
  have kept: "get_block H ?st i = get_block H st i
      \<and> (\<exists>l'. fmlookup (st_index ?st) i = Some l' \<and> loc_segment l' = of_nat k \<and> loc_len l' = loc_len l)"
    if live: "live i" and l: "fmlookup (st_index st) i = Some l" "loc_segment l = of_nat k" for i l
  proof -
    have "(i, l) \<in> set ?keep" using iter(1) l live by auto
    then obtain n where n: "n < length ?keep" "?keep ! n = (i, l)" by (metis in_set_conv_nth)
    have "length new = length ?keep" "fst (new ! n) = i"
      using new(1) n by (metis length_map, metis fst_conv length_map nth_map)
    then obtain d where d: "(i, d) \<in> set new"
      "read_at (st_files st ! k) (loc_offset l + HEADER_LEN) (unat (loc_len l)) = Inr d" "verify H i d"
      using list_all2_nthD [OF new(3) n(1)] n
      by (auto simp: split_def) (metis nth_mem prod.collapse)
    obtain l' where l': "map_of (rev (map (\<lambda>(i, l, _). (i, l)) (placed (of_nat k) 0 new))) i = Some l'"
      "(i, l', d) \<in> set (placed (of_nat k) 0 new)"
      using map_of_placed_some [OF d(1) distinct] by blast
    have at: "loc_segment l' = of_nat k"
      "read_at (segment_bytes new) (loc_offset l' + HEADER_LEN) (unat (loc_len l')) = Inr d"
      using read_placed [OF new(2), of "[]" new "[]" i l' d "of_nat k"] l'(2) by simp_all
    have look: "fmlookup (st_index ?st) i = Some l'"
      using l'(1) by (simp add: swapped_def fold_fmupd_map_of)
    have "get_block H ?st i = Inr d"
      using at k k32 d(3) by (intro get_blockI [OF look]) (simp_all add: swapped_def)
    moreover have "get_block H st i = Inr d"
      using l k k32 d by (intro get_blockI [OF l(1)]) simp_all
    moreover have "loc_len l' = loc_len l"
      using placed_len [OF l'(2)] read_at_length [OF d(2)] by simp
    ultimately show ?thesis using look at(1) by auto
  qed
  have same: "get_block H ?st i = get_block H st i"
    if "fmlookup (st_index ?st) i = fmlookup (st_index st) i"
      "\<And>l. fmlookup (st_index st) i = Some l \<Longrightarrow> loc_segment l \<noteq> of_nat k" for i
  proof -
    have "(st_files st)[k := bs] ! unat (loc_segment l) = st_files st ! unat (loc_segment l)"
      if "loc_segment l \<noteq> of_nat k" for l :: location and bs
    proof -
      have "unat (loc_segment l) \<noteq> k" using that by auto
      then show ?thesis by simp
    qed
    then show ?thesis
      using that by (auto simp: get_block_def swapped_def split: option.splits)
  qed
  have files: "length (st_files ?st) = length (st_files st)" by (simp add: swapped_def)
  have outside: "fmlookup (st_index ?st) i = fmlookup (st_index st) i"
    if "\<And>l. fmlookup (st_index st) i = Some l \<Longrightarrow> loc_segment l \<noteq> of_nat k" for i
  proof -
    have "i \<notin> fst ` set new" using that unfolding ids by blast
    then show ?thesis using other that by auto
  qed
  show ?thesis
    unfolding compacted_def
  proof (intro conjI allI impI files)
    fix i l assume l: "fmlookup (st_index st) i = Some l"
    show "if loc_segment l \<in> {of_nat k} \<and> \<not> live i then fmlookup (st_index ?st) i = None
      else get_block H ?st i = get_block H st i
        \<and> (\<exists>l'. fmlookup (st_index ?st) i = Some l' \<and> loc_segment l' = loc_segment l \<and> loc_len l' = loc_len l)"
    proof (cases "loc_segment l = of_nat k")
      case True
      then show ?thesis using kept [OF _ l True] other [of i] l ids by simp
    next
      case False
      then show ?thesis using same [of i] outside [of i] l by simp
    qed
  next
    fix i assume "fmlookup (st_index st) i = None"
    then show "fmlookup (st_index ?st) i = None" using outside [of i] by simp
  qed
qed

lemma fmsize_iter:
  assumes "set (iter m) = {(k, v). fmlookup m k = Some v}" and "distinct (map fst (iter m))"
  shows "length (iter m) = fmsize m"
proof -
  have "fset (fmdom m) = set (map fst (iter m))"
    using assms(1) by (force simp: fmlookup_dom_iff)
  then show ?thesis
    using distinct_card [OF assms(2)] by (simp add: fmsize_def fcard.rep_eq)
qed

lemma compact_segment_effect:
  assumes iter: "lists_map iter" and st: "compactable st" and k: "k < length (st_files st)"
    and run: "compact_segment H iter live k f st cs = ((err, f'), st', cs')"
  shows "compacted H live {of_nat k} st st' \<or> err \<noteq> None \<and> st' = st"
proof -
  define es where "es = filter (\<lambda>(_, l). loc_segment l = of_nat k) (iter (st_index st))"
  let ?keep = "filter (\<lambda>(i, _). live i) es" and ?dead = "filter (\<lambda>(i, _). \<not> live i) es"
  have all: "set (iter (st_index st)) = {(i, l). fmlookup (st_index st) i = Some l}"
    "distinct (map fst (iter (st_index st)))"
    using iter by (simp_all add: lists_map_def)
  have es: "set es = {(i, l). fmlookup (st_index st) i = Some l \<and> loc_segment l = of_nat k}" "distinct (map fst es)"
    using all by (auto simp: es_def distinct_map_filter)
  show ?thesis
  proof (cases "?dead = []")
    case True
    then have "st' = st" using run by (simp add: compact_segment_def es_def)
    moreover have "live i" if "fmlookup (st_index st) i = Some l" "loc_segment l = of_nat k" for i l
      using True es(1) that by (auto simp: filter_empty_conv)
    ultimately show ?thesis by (auto simp: compacted_def)
  next
    case False
    show ?thesis
    proof (cases "copy_live H (of_nat k) (st_files st ! k) ?keep 0 [] []")
      case (Inl e)
      then show ?thesis using run False by (auto simp: compact_segment_def es_def)
    next
      case (Inr r)
      obtain tmp locs off where r: "r = (tmp, locs, off)" by (cases r)
      have "length es \<le> fmsize (st_index st)"
        unfolding es_def fmsize_iter [of iter, OF all, symmetric] by (rule length_filter_le)
      then have room: "length ?keep * 2 ^ 31 < 2 ^ 62"
        using st length_filter_le [of "\<lambda>(i, _). live i" es] by (simp add: compactable_def del: length_filter_le)
      have small: "unat (loc_len l) < 2 ^ 31 - 8192" if "(i, l) \<in> set ?keep" for i l
        using that es(1) st by (auto simp: compactable_def)
      have copied: "copy_live H (of_nat k) (st_files st ! k) ?keep (of_nat (length (segment_bytes []))) (segment_bytes [])
          (map (\<lambda>(i, l, _). (i, l)) (placed (of_nat k) 0 [])) = Inr (tmp, locs, off)"
        using Inr r by simp
      have "\<exists>new. map fst new = map fst ?keep \<and> tmp = segment_bytes ([] @ new) \<and> length tmp < 2 ^ 62
        \<and> locs = map (\<lambda>(i, l, _). (i, l)) (placed (of_nat k) 0 ([] @ new))
        \<and> list_all2 (\<lambda>(i, l) (_, d). read_at (st_files st ! k) (loc_offset l + HEADER_LEN) (unat (loc_len l)) = Inr d
             \<and> verify H i d) ?keep new"
        by (rule copy_live_effect [OF copied]) (use small room in auto)
      then obtain new where new: "map fst new = map fst ?keep" "tmp = segment_bytes new" "length tmp < 2 ^ 62"
        "locs = map (\<lambda>(i, l, _). (i, l)) (placed (of_nat k) 0 new)"
        "list_all2 (\<lambda>(i, l) (_, d). read_at (st_files st ! k) (loc_offset l + HEADER_LEN) (unat (loc_len l)) = Inr d
           \<and> verify H i d) ?keep new"
        by (simp only: append_Nil) blast
      have "st' = swapped k tmp locs ?dead st \<or> err \<noteq> None \<and> st' = st"
        using run False Inr r by (auto simp: compact_segment_def es_def swapped_def Let_def split: if_splits)
      moreover have "compacted H live {of_nat k} st (swapped k tmp locs ?dead st)"
        unfolding new(2,4) using swap_compacted [OF es k _ new(1) _ new(5)] st new(2,3) by (simp add: compactable_def)
      ultimately show ?thesis by blast
    qed
  qed
qed

lemma compacted_compactable:
  assumes "compacted H live S st st'" and "compactable st"
  shows "compactable st'"
proof -
  have older: "\<exists>l. fmlookup (st_index st) i = Some l \<and> loc_len l' = loc_len l"
    if new: "fmlookup (st_index st') i = Some l'" for i l'
  proof -
    obtain l where l: "fmlookup (st_index st) i = Some l"
      by (rule compacted_older [OF assms(1) new])
    then show ?thesis using compactedD [OF assms(1) l] new by auto
  qed
  then have "fmdom (st_index st') |\<subseteq>| fmdom (st_index st)"
    by (metis fmdomE fmdomI fsubsetI)
  then have "fmsize (st_index st') \<le> fmsize (st_index st)"
    by (simp add: fmsize_def fcard_mono)
  then show ?thesis
    using assms older unfolding compactable_def compacted_def by fastforce
qed

lemma compact_from_effect:
  assumes "lists_map iter" and "compactable st" and "\<forall>k\<in>set ks. k < length (st_files st)"
    and "compact_from H iter live ks f st cs = (r, st')"
  shows "\<exists>S. compacted H live S st st' \<and> S \<subseteq> of_nat ` set ks \<and> (\<forall>cs'. r = Inr cs' \<longrightarrow> S = of_nat ` set ks)"
  using assms(2-4)
proof (induction ks arbitrary: f st cs)
  case Nil
  then show ?case using compacted_refl by fastforce
next
  case (Cons k ks)
  obtain err f1 st1 cs1 where seg: "compact_segment H iter live k f st cs = ((err, f1), st1, cs1)"
    by (metis prod.exhaust)
  have step: "compacted H live {of_nat k} st st1 \<or> err \<noteq> None \<and> st1 = st"
    using compact_segment_effect [OF assms(1) Cons.prems(1) _ seg] Cons.prems(2) by simp
  show ?case
  proof (cases err)
    case None
    then have k: "compacted H live {of_nat k} st st1" using step by simp
    have "\<exists>S. compacted H live S st1 st' \<and> S \<subseteq> of_nat ` set ks \<and> (\<forall>cs'. r = Inr cs' \<longrightarrow> S = of_nat ` set ks)"
    proof (rule Cons.IH)
      show "compactable st1" by (rule compacted_compactable [OF k Cons.prems(1)])
      have "length (st_files st1) = length (st_files st)" using k by (simp add: compacted_def)
      then show "\<forall>k\<in>set ks. k < length (st_files st1)" using Cons.prems(2) by simp
      show "compact_from H iter live ks f1 st1 cs1 = (r, st')" using Cons.prems(3) seg None by simp
    qed
    then obtain S where S: "compacted H live S st1 st' \<and> S \<subseteq> of_nat ` set ks
      \<and> (\<forall>cs'. r = Inr cs' \<longrightarrow> S = of_nat ` set ks)" ..
    show ?thesis
    proof (intro exI conjI allI impI)
      show "compacted H live ({of_nat k} \<union> S) st st'" using compacted_trans [OF k] S by simp
      show "{of_nat k} \<union> S \<subseteq> of_nat ` set (k # ks)" using S by auto
      show "{of_nat k} \<union> S = of_nat ` set (k # ks)" if "r = Inr cs'" for cs' using S that by simp
    qed
  next
    case (Some e)
    then have "st' = st1" and "r = Inl e" using Cons.prems(3) seg by simp_all
    from step show ?thesis
    proof
      assume "compacted H live {of_nat k} st st1"
      with \<open>st' = st1\<close> \<open>r = Inl e\<close> show ?thesis by (intro exI [of _ "{of_nat k}"]) simp
    next
      assume "err \<noteq> None \<and> st1 = st"
      with \<open>st' = st1\<close> \<open>r = Inl e\<close> show ?thesis
        using compacted_refl [of H live st] by (intro exI [of _ "{}"]) simp
    qed
  qed
qed

section \<open>Property\<close>

text \<open>
  C23.  Compaction never loses a live block.  Whatever call fails, and in whatever order the index is
  iterated, every block that is live or lies in the active segment reads exactly as before, no block
  appears, and a dead block reads as before or is gone.  Once compaction returned \<open>Ok\<close>, every dead block
  of a sealed segment is gone.
\<close>

theorem compact_keeps_live:
  assumes "lists_map iter" and "compactable st" and "compact H iter live f st = (r, st')"
    and "fmlookup (st_index st) i = Some l"
  shows "(live i \<or> length (st_files st) \<le> unat (loc_segment l) + 1 \<longrightarrow> get_block H st' i = get_block H st i)
       \<and> (\<forall>j. contains_block st' j \<longrightarrow> contains_block st j \<and> get_block H st' j = get_block H st j)
       \<and> ((\<exists>cs. r = Inr cs) \<and> \<not> live i \<and> unat (loc_segment l) + 1 < length (st_files st)
            \<longrightarrow> \<not> contains_block st' i)"
proof -
  let ?sealed = "[0..<length (st_files st) - 1]"
  obtain S where S: "compacted H live S st st'" "S \<subseteq> of_nat ` set ?sealed"
    "\<forall>cs. r = Inr cs \<longrightarrow> S = of_nat ` set ?sealed"
    using compact_from_effect [OF assms(1,2) _ assms(3) [unfolded compact_def]] by fastforce
  have sealed: "w \<in> of_nat ` set ?sealed \<longleftrightarrow> unat w + 1 < length (st_files st)" for w :: u32
  proof
    assume "w \<in> of_nat ` set ?sealed"
    then obtain k where "w = of_nat k" "k < length (st_files st) - 1" by auto
    then show "unat w + 1 < length (st_files st)"
      using assms(2) by (simp add: compactable_def unat_of_nat)
  next
    assume "unat w + 1 < length (st_files st)"
    then show "w \<in> of_nat ` set ?sealed"
      by (intro image_eqI [of _ _ "unat w"]) simp_all
  qed
  have stays: "contains_block st j \<and> get_block H st' j = get_block H st j" if new: "contains_block st' j" for j
  proof -
    obtain l where l: "fmlookup (st_index st) j = Some l"
      using compacted_older [OF S(1)] new by (auto simp: contains_block_def)
    then show ?thesis
      using compactedD [OF S(1) l] new unfolding contains_block_def by blast
  qed
  show ?thesis
    using compactedD [OF S(1) assms(4)] S(2,3) sealed [of "loc_segment l"] stays
    by (auto simp: contains_block_def)
qed

text \<open>A sealed segment with a live and a dead block, and an empty active segment.\<close>

definition sealed_segments :: segments where
  "sealed_segments = [[(BlockId (fill32 9), [9]), (BlockId (fill32 8), [8])], []]"

definition sealed_store :: block_store where
  "sealed_store = \<lparr>st_index = index_of sealed_segments, st_files = map segment_bytes sealed_segments, st_tail = 0,
     st_roll_bytes = DEFAULT_SEGMENT_ROLL_BYTES, st_write_failed = False\<rparr>"

lemma lists_btree_entries: "lists_map btree_entries"
  by (simp add: lists_map_def set_btree_entries sorted_btree_entries)

lemma sealed_store_ok: "represents sealed_segments sealed_store" "compactable sealed_store"
  "fmlookup (st_index sealed_store) (BlockId (fill32 9)) = Some \<lparr>loc_segment = 0, loc_offset = 0, loc_len = 1\<rparr>"
proof -
  have idx: "st_index sealed_store =
    fmupd (BlockId (fill32 8)) \<lparr>loc_segment = 0, loc_offset = 4096, loc_len = 1\<rparr>
      (fmupd (BlockId (fill32 9)) \<lparr>loc_segment = 0, loc_offset = 0, loc_len = 1\<rparr> fmempty)"
    by (simp add: sealed_store_def sealed_segments_def index_of_def padded_def)
  have len: "length (segment_bytes [(BlockId (fill32 9), [9]), (BlockId (fill32 8), [8])]) = 8192"
    by (simp add: segment_bytes_def length_encode_record padded_def)
  show "represents sealed_segments sealed_store"
    using len by (simp add: represents_def sealed_store_def sealed_segments_def file_holds_def)
  show "fmlookup (st_index sealed_store) (BlockId (fill32 9)) = Some \<lparr>loc_segment = 0, loc_offset = 0, loc_len = 1\<rparr>"
    by (simp add: idx)
  have "fmsize (st_index sealed_store) \<le> 2"
    unfolding idx by (simp add: fmsize_def fcard_finsert_if)
  then show "compactable sealed_store"
    unfolding compactable_def by (auto simp: idx) (simp add: sealed_store_def sealed_segments_def)
qed

lemma sealed_store_get: "get_block sum_hash sealed_store (BlockId (fill32 9)) = Inr [9]"
  unfolding get_refines [OF sealed_store_ok(1)]
  by (simp add: abs_get_def latest_def sealed_segments_def verify_def block_id_of_def sum_hash_def)

theorem compact_keeps_live_witness:
  "get_block sum_hash (snd (compact sum_hash btree_entries (\<lambda>i. i = BlockId (fill32 9)) NoFault sealed_store))
     (BlockId (fill32 9)) = Inr [9]"
  using compact_keeps_live [OF lists_btree_entries sealed_store_ok(2) prod.collapse [symmetric] sealed_store_ok(3)]
    sealed_store_get by simp

end
