(* ===== verification/Tiered.thy ===== *)
theory Tiered
  imports Compaction
begin

text \<open>
  \<^verbatim>\<open>kalpak-storage/src/tiered.rs\<close>: the warm cache and the pinned blocks over the durable block store.

  The warm cache is the library \<^verbatim>\<open>moka\<close>: its \<^verbatim>\<open>insert\<close> is the argument \<open>ins\<close>, which may drop the new
  entry or others (\<open>lossy\<close>).  A hash map is iterated in the order its argument gives.  Every operation is
  one function on the state.
\<close>

section \<open>State\<close>

record tiered_store =
  quarantined :: "block_id fset"
  cold :: block_store
  warm :: "(block_id, bytes) fmap"
  warm_budget :: u64
  pinned :: "(block_id, bytes) fmap"
  pinned_bytes :: u64
  pinned_budget :: u64
  hits :: u64
  misses :: u64

type_synonym cache_insert = "block_id \<Rightarrow> bytes \<Rightarrow> (block_id, bytes) fmap \<Rightarrow> (block_id, bytes) fmap"

definition lossy :: "cache_insert \<Rightarrow> bool" where
  "lossy ins \<longleftrightarrow> (\<forall>i p m j q. fmlookup (ins i p m) j = Some q \<longrightarrow> fmlookup (fmupd i p m) j = Some q)"

definition tiered_new :: "block_store \<Rightarrow> u64 \<Rightarrow> tiered_store" where
  "tiered_new st budget =
     \<lparr>quarantined = {||}, cold = st, warm = fmempty, warm_budget = budget, pinned = fmempty,
      pinned_bytes = 0, pinned_budget = budget div 4, hits = 0, misses = 0\<rparr>"

section \<open>Operations\<close>

definition warm_insert :: "cache_insert \<Rightarrow> block_id \<Rightarrow> bytes \<Rightarrow> tiered_store \<Rightarrow> tiered_store" where
  "warm_insert ins i p t =
     (if of_nat (length p) \<le> warm_budget t then t\<lparr>warm := ins i p (warm t)\<rparr> else t)"

definition tiered_get ::
  "(bytes \<Rightarrow> bytes32) \<Rightarrow> cache_insert \<Rightarrow> block_id \<Rightarrow> tiered_store \<Rightarrow> (store_error + bytes) \<times> tiered_store" where
  "tiered_get H ins i t =
     (if i |\<in>| quarantined t then (Inl (Failure (Corrupt i)), t)
      else case fmlookup (pinned t) i of
        Some p \<Rightarrow> (Inr p, t\<lparr>hits := hits t + 1\<rparr>)
      | None \<Rightarrow>
          (case fmlookup (warm t) i of
             Some p \<Rightarrow> (Inr p, t\<lparr>hits := hits t + 1\<rparr>)
           | None \<Rightarrow>
               let t = t\<lparr>misses := misses t + 1\<rparr> in
               (case get_block H (cold t) i of
                  Inl e \<Rightarrow> (Inl e, t)
                | Inr p \<Rightarrow> (Inr p, warm_insert ins i p t))))"

definition pin ::
  "(bytes \<Rightarrow> bytes32) \<Rightarrow> cache_insert \<Rightarrow> block_id \<Rightarrow> tiered_store \<Rightarrow> (store_error + bool) \<times> tiered_store" where
  "pin H ins i t =
     (if contains_key (pinned t) i then (Inr True, t)
      else case tiered_get H ins i t of
        (Inl e, t) \<Rightarrow> (Inl e, t)
      | (Inr p, t) \<Rightarrow>
          if contains_key (pinned t) i then (Inr True, t)
          else if pinned_budget t < pinned_bytes t + of_nat (length p) then (Inr False, t)
          else (Inr True, t\<lparr>pinned := fmupd i p (pinned t),
                            pinned_bytes := pinned_bytes t + of_nat (length p)\<rparr>))"

definition tiered_put ::
  "(bytes \<Rightarrow> bytes32) \<Rightarrow> cache_insert \<Rightarrow> fault \<Rightarrow> bytes \<Rightarrow> tiered_store \<Rightarrow> (store_error + block_id) \<times> tiered_store" where
  "tiered_put H ins f p t =
     (case put H f p (cold t) of
        (Inl e, st) \<Rightarrow> (Inl e, t\<lparr>cold := st\<rparr>)
      | (Inr i, st) \<Rightarrow> (Inr i, warm_insert ins i p (t\<lparr>cold := st\<rparr>)))"

definition tiered_put_many ::
  "(bytes \<Rightarrow> bytes32) \<Rightarrow> cache_insert \<Rightarrow> fault \<Rightarrow> bytes list \<Rightarrow> tiered_store
     \<Rightarrow> (store_error + block_id list) \<times> tiered_store" where
  "tiered_put_many H ins f ps t =
     (case put_many H f ps (cold t) of
        (Inl e, st) \<Rightarrow> (Inl e, t\<lparr>cold := st\<rparr>)
      | (Inr is, st) \<Rightarrow> (Inr is, fold (\<lambda>(i, p). warm_insert ins i p) (zip is ps) (t\<lparr>cold := st\<rparr>)))"

definition tiered_contains :: "tiered_store \<Rightarrow> block_id \<Rightarrow> bool" where
  "tiered_contains t i \<longleftrightarrow> i |\<notin>| quarantined t \<and> contains_block (cold t) i"

text \<open>Dropping a pinned block gives its bytes back to the budget.\<close>

definition unpin :: "block_id \<Rightarrow> tiered_store \<Rightarrow> tiered_store" where
  "unpin i t =
     (case fmlookup (pinned t) i of
        None \<Rightarrow> t
      | Some p \<Rightarrow> t\<lparr>pinned := fmdrop i (pinned t), pinned_bytes := pinned_bytes t - of_nat (length p)\<rparr>)"

definition verify_cold ::
  "(bytes \<Rightarrow> bytes32) \<Rightarrow> block_id \<Rightarrow> tiered_store \<Rightarrow> (store_error + unit) \<times> tiered_store" where
  "verify_cold H i t =
     (case get_block H (cold t) i of
        Inr _ \<Rightarrow> (Inr (), t\<lparr>quarantined := quarantined t |-| {|i|}\<rparr>)
      | Inl Panic \<Rightarrow> (Inl Panic, t)
      | Inl (Failure (BlockNotFound j)) \<Rightarrow> (Inl (Failure (BlockNotFound j)), t)
      | Inl (Failure e) \<Rightarrow>
          (Inl (Failure e),
           unpin i (t\<lparr>quarantined := finsert i (quarantined t), warm := fmdrop i (warm t)\<rparr>)))"

definition tiered_repair ::
  "(bytes \<Rightarrow> bytes32) \<Rightarrow> cache_insert \<Rightarrow> fault \<Rightarrow> block_id \<Rightarrow> bytes \<Rightarrow> tiered_store
     \<Rightarrow> (store_error + block_id) \<times> tiered_store" where
  "tiered_repair H ins f i p t =
     (case repair_block H f i p (cold t) of
        (Inl e, st) \<Rightarrow> (Inl e, t\<lparr>cold := st\<rparr>)
      | (Inr _, st) \<Rightarrow>
          (Inr i, warm_insert ins i p (t\<lparr>cold := st, quarantined := quarantined t |-| {|i|}\<rparr>)))"

definition tiered_compact ::
  "(bytes \<Rightarrow> bytes32) \<Rightarrow> ((block_id, location) fmap \<Rightarrow> (block_id \<times> location) list)
     \<Rightarrow> ((block_id, bytes) fmap \<Rightarrow> (block_id \<times> bytes) list) \<Rightarrow> (block_id \<Rightarrow> bool) \<Rightarrow> fault \<Rightarrow> tiered_store
     \<Rightarrow> (error + compact_stats) \<times> tiered_store" where
  "tiered_compact H iter cached live f t =
     (case compact H iter live f (cold t) of
        (Inl e, st) \<Rightarrow> (Inl e, t\<lparr>cold := st\<rparr>)
      | (Inr cs, st) \<Rightarrow>
          let t = t\<lparr>cold := st\<rparr> in
          if blocks_dropped cs = 0 then (Inr cs, t)
          else
            let dead = filter (\<lambda>i. \<not> contains_block st i) (map fst (cached (pinned t)));
                t = fold unpin dead t;
                dead = filter (\<lambda>i. \<not> contains_block st i) (map fst (cached (warm t)))
            in (Inr cs, t\<lparr>warm := fold fmdrop dead (warm t)\<rparr>))"

record tier_stats =
  ts_warm_blocks :: nat
  ts_warm_bytes :: nat
  ts_warm_budget :: u64
  ts_pinned_blocks :: nat
  ts_pinned_bytes :: u64
  ts_pinned_budget :: u64
  ts_hits :: u64
  ts_misses :: u64

text \<open>The weight of a warm entry is its length, at most \<^verbatim>\<open>u32::MAX\<close>.\<close>

definition weigher :: "bytes \<Rightarrow> nat" where
  "weigher p = min (length p) (2 ^ 32 - 1)"

definition tier_stats_of :: "tiered_store \<Rightarrow> tier_stats" where
  "tier_stats_of t =
     \<lparr>ts_warm_blocks = fmsize (warm t), ts_warm_bytes = fmsum weigher (warm t),
      ts_warm_budget = warm_budget t, ts_pinned_blocks = fmsize (pinned t),
      ts_pinned_bytes = pinned_bytes t, ts_pinned_budget = pinned_budget t,
      ts_hits = hits t, ts_misses = misses t\<rparr>"

section \<open>What the cold store keeps\<close>

lemma flush_active_staged: "ps_staged (snd (flush_active ps)) = ps_staged ps"
  by (simp add: flush_active_def split: prod.splits)

lemma roll_segment_staged: "ps_staged (snd (roll_segment ps)) = ps_staged ps"
  using flush_active_staged [of ps] by (auto simp: roll_segment_def split: prod.splits)

lemma put_step_covers:
  assumes "put_step H st rep (i, d) ps = (None, ps')"
  shows "(i \<in> fst ` set (ps_staged ps') \<or> contains_key (st_index st) i)
    \<and> fst ` set (ps_staged ps) \<subseteq> fst ` set (ps_staged ps')"
proof -
  have "contains_key (st_index st) i" if "block_present H st rep i ps = Some True"
    using that by (auto simp: block_present_def get_block_def split: if_splits option.splits sum.splits store_error.splits)
  then show ?thesis
    using assms roll_segment_staged [of ps]
    by (auto simp: put_step_def stage_record_def split: option.splits if_splits prod.splits)
qed

lemma put_loop_covers:
  assumes "put_loop H st rep items ps = (None, ps')"
  shows "fst ` set (ps_staged ps) \<subseteq> fst ` set (ps_staged ps')
    \<and> (\<forall>i\<in>fst ` set items. i \<in> fst ` set (ps_staged ps') \<or> contains_key (st_index st) i)"
  using assms
proof (induction items arbitrary: ps)
  case Nil
  then show ?case
    using flush_active_staged [of ps] by (auto split: prod.splits option.splits if_splits)
next
  case (Cons x items)
  obtain i d where x: "x = (i, d)" by fastforce
  obtain ps1 where step: "put_step H st rep (i, d) ps = (None, ps1)" "put_loop H st rep items ps1 = (None, ps')"
    using Cons.prems by (auto simp: x split: prod.splits option.splits)
  show ?case
    using put_step_covers [OF step(1)] Cons.IH [OF step(2)] by (auto simp: x)
qed

lemma fold_fmupd_dom:
  "contains_key (fold (\<lambda>(i, l). fmupd i l) xs m) i \<longleftrightarrow> i \<in> fst ` set xs \<or> contains_key m i"
  by (induction xs arbitrary: m) (auto split: prod.splits)

lemma put_many_inner_cases:
  assumes "put_many_inner H f rep ps st = (r, st')"
  obtains (failed) e where "r = Inl e" "st_index st' = st_index st"
    | (stored) ps' :: put_state where "r = Inr (map (block_id_of H) ps)"
      "st_index st' = fold (\<lambda>(i, l). fmupd i l) (ps_staged ps') (st_index st)"
      "\<forall>p\<in>set ps. block_id_of H p \<in> fst ` set (ps_staged ps') \<or> contains_key (st_index st) (block_id_of H p)"
proof -
  let ?items = "map (\<lambda>p. (block_id_of H p, p)) ps"
  show thesis
  proof (cases "st_write_failed st")
    case True
    with assms failed show thesis by (auto simp: put_many_inner_def)
  next
    case False
    obtain err ps' where loop: "put_loop H st rep ?items \<lparr>ps_files = st_files st, ps_tail = st_tail st,
        ps_staged = [], ps_pending = [], ps_rolled = False, ps_fault = f\<rparr> = (err, ps')"
      by fastforce
    show thesis
    proof (cases err)
      case None
      with put_loop_covers [of H st rep ?items] loop
      have cover: "\<forall>p\<in>set ps. block_id_of H p \<in> fst ` set (ps_staged ps') \<or> contains_key (st_index st) (block_id_of H p)"
        by fastforce
      have "r = Inr (map (block_id_of H) ps)"
        "st_index st' = fold (\<lambda>(i, l). fmupd i l) (ps_staged ps') (st_index st)"
        using assms False loop None by (auto simp: put_many_inner_def comp_def)
      then show thesis by (rule stored [OF _ _ cover])
    next
      case (Some e)
      with assms False loop failed show thesis by (auto simp: put_many_inner_def)
    qed
  qed
qed

lemma put_many_inner_keeps:
  assumes "put_many_inner H f rep ps st = (r, st')"
  shows "contains_block st i \<Longrightarrow> contains_block st' i"
    and "r = Inr ids \<Longrightarrow> ids = map (block_id_of H) ps \<and> (\<forall>i\<in>set ids. contains_block st' i)"
proof -
  show "contains_block st' i" if "contains_block st i"
    using assms
  proof (cases rule: put_many_inner_cases)
    case failed
    then show ?thesis using that by (simp add: contains_block_def)
  next
    case (stored ps')
    then show ?thesis using that fold_fmupd_dom unfolding contains_block_def by metis
  qed
  show "ids = map (block_id_of H) ps \<and> (\<forall>i\<in>set ids. contains_block st' i)" if "r = Inr ids"
    using assms
  proof (cases rule: put_many_inner_cases)
    case failed
    then show ?thesis using that by simp
  next
    case (stored ps')
    then have "contains_block st' (block_id_of H p)" if "p \<in> set ps" for p
      using that fold_fmupd_dom unfolding contains_block_def by metis
    then show ?thesis using stored(1) that by auto
  qed
qed

lemma put_keeps:
  assumes "put H f p st = (r, st')"
  shows "contains_block st i \<Longrightarrow> contains_block st' i"
    and "r = Inr j \<Longrightarrow> j = block_id_of H p \<and> contains_block st' j"
proof -
  obtain r1 where run: "put_many_inner H f False [p] st = (r1, st')" "r = map_sum id hd r1"
    using assms by (auto simp: put_def put_many_def prod_eq_iff)
  show "contains_block st i \<Longrightarrow> contains_block st' i" by (rule put_many_inner_keeps(1) [OF run(1)])
  show "j = block_id_of H p \<and> contains_block st' j" if ok: "r = Inr j"
  proof -
    obtain ids where ids: "r1 = Inr ids" "j = hd ids" using run(2) ok by (cases r1) auto
    show ?thesis using put_many_inner_keeps(2) [OF run(1) ids(1)] ids(2) by simp
  qed
qed

lemma repair_keeps:
  assumes "repair_block H f i p st = (r, st')"
  shows "contains_block st k \<Longrightarrow> contains_block st' k"
    and "r = Inr j \<Longrightarrow> verify H i p \<and> contains_block st' i"
proof -
  show "contains_block st' k" if "contains_block st k"
  proof (cases "verify H i p")
    case True
    then obtain r1 where "put_many_inner H f True [p] st = (r1, st')"
      using assms by (auto simp: repair_block_def prod_eq_iff)
    then show ?thesis using put_many_inner_keeps(1) that by blast
  qed (use assms that in \<open>simp add: repair_block_def\<close>)
  show "verify H i p \<and> contains_block st' i" if finished: "r = Inr j"
  proof -
    have ok: "verify H i p" using assms finished by (auto simp: repair_block_def split: if_splits)
    then obtain ids where "put_many_inner H f True [p] st = (Inr ids, st')"
      using assms finished by (cases "fst (put_many_inner H f True [p] st)")
        (auto simp: repair_block_def prod_eq_iff)
    from put_many_inner_keeps(2) [OF this refl] ok show ?thesis by (auto simp: verify_def)
  qed
qed

text \<open>A compaction that dropped nothing changed nothing.\<close>

lemma compact_from_drops:
  assumes "compact_from H iter live ks f st cs = (Inr cs', st')"
  shows "blocks_dropped cs \<le> blocks_dropped cs' \<and> (blocks_dropped cs' = blocks_dropped cs \<longrightarrow> st' = st)"
  using assms
proof (induction ks arbitrary: f st cs)
  case (Cons k ks)
  obtain f1 st1 cs1 where seg: "compact_segment H iter live k f st cs = ((None, f1), st1, cs1)"
    and rest: "compact_from H iter live ks f1 st1 cs1 = (Inr cs', st')"
    using Cons.prems by (auto split: prod.splits option.splits)
  have "st1 = st \<and> cs1 = cs \<or> blocks_dropped cs < blocks_dropped cs1"
    using seg by (auto simp: compact_segment_def Let_def split: if_splits sum.splits prod.splits)
  with Cons.IH [OF rest] show ?case by auto
qed simp

section \<open>Invariant\<close>

text \<open>
  Cached bytes have the hash they are cached under, and the pinned bytes are counted exactly.  An
  allocation has at most \<^verbatim>\<open>isize::MAX\<close> bytes, and so has a file.
\<close>

definition genuine :: "(bytes \<Rightarrow> bytes32) \<Rightarrow> (block_id, bytes) fmap \<Rightarrow> bool" where
  "genuine H m \<longleftrightarrow> (\<forall>i p. fmlookup m i = Some p \<longrightarrow> verify H i p \<and> length p < 2 ^ 63)"

definition tier_ok :: "(bytes \<Rightarrow> bytes32) \<Rightarrow> tiered_store \<Rightarrow> bool" where
  "tier_ok H t \<longleftrightarrow>
     genuine H (warm t) \<and> genuine H (pinned t) \<and> unat (pinned_bytes t) = fmsum length (pinned t)
     \<and> pinned_bytes t \<le> pinned_budget t \<and> pinned_budget t = warm_budget t div 4"

text \<open>Nothing is cached that the cold store does not hold.\<close>

definition backed :: "tiered_store \<Rightarrow> bool" where
  "backed t \<longleftrightarrow> (\<forall>i. contains_key (warm t) i \<or> contains_key (pinned t) i \<longrightarrow> contains_block (cold t) i)"

definition files_fit :: "block_store \<Rightarrow> bool" where
  "files_fit st \<longleftrightarrow> (\<forall>data\<in>set (st_files st). length data < 2 ^ 63)"

lemma get_block_verified:
  assumes "get_block H st i = Inr p"
  shows "verify H i p" and "contains_block st i" and "files_fit st \<Longrightarrow> length p < 2 ^ 63"
proof -
  from assms obtain l where l: "fmlookup (st_index st) i = Some l" "unat (loc_segment l) < length (st_files st)"
    "read_at (st_files st ! unat (loc_segment l)) (loc_offset l + HEADER_LEN) (unat (loc_len l)) = Inr p"
    "verify H i p"
    by (auto simp: get_block_def split: option.splits if_splits sum.splits)
  then show "verify H i p" and "contains_block st i" by (simp_all add: contains_block_def)
  assume "files_fit st"
  then have "length (st_files st ! unat (loc_segment l)) < 2 ^ 63"
    using l(2) by (simp add: files_fit_def)
  moreover have "length p \<le> length (st_files st ! unat (loc_segment l))"
    using l(3) by (auto simp: read_at_def slice_def split: if_splits)
  ultimately show "length p < 2 ^ 63" by simp
qed

lemma fmsum_fmdrop:
  assumes "fmlookup m k = Some v"
  shows "fmsum f (fmdrop k m) + f v = fmsum f m"
proof -
  have "fmupd k v (fmdrop k m) = m" using assms by (auto intro!: fmap_ext)
  then show ?thesis using fmsum_fmupd_new [of "fmdrop k m" k f v] by simp
qed

lemma lossyD:
  assumes "lossy ins" and "fmlookup (ins i p m) j = Some q"
  shows "if j = i then q = p else fmlookup m j = Some q"
proof -
  have "fmlookup (fmupd i p m) j = Some q" using assms unfolding lossy_def by blast
  then show ?thesis by (auto split: if_splits)
qed

lemma warm_insert_ok:
  assumes "lossy ins" and "tier_ok H t" and "verify H i p" and "length p < 2 ^ 63"
  shows "tier_ok H (warm_insert ins i p t)"
proof -
  have "genuine H (ins i p (warm t))"
    unfolding genuine_def
  proof (intro allI impI)
    fix j q assume "fmlookup (ins i p (warm t)) j = Some q"
    from lossyD [OF assms(1) this] show "verify H j q \<and> length q < 2 ^ 63"
      using assms(2-4) by (auto simp: tier_ok_def genuine_def split: if_splits)
  qed
  then show ?thesis using assms(2) by (auto simp: tier_ok_def warm_insert_def)
qed

lemma warm_insert_fields [simp]:
  "cold (warm_insert ins i p t) = cold t" "pinned (warm_insert ins i p t) = pinned t"
  "quarantined (warm_insert ins i p t) = quarantined t"
  "pinned_bytes (warm_insert ins i p t) = pinned_bytes t" "pinned_budget (warm_insert ins i p t) = pinned_budget t"
  by (simp_all add: warm_insert_def)

lemma warm_insert_keys:
  assumes "lossy ins" and "contains_key (warm (warm_insert ins i p t)) j"
  shows "j = i \<or> contains_key (warm t) j"
proof (cases "of_nat (length p) \<le> warm_budget t")
  case True
  then obtain q where "fmlookup (ins i p (warm t)) j = Some q" using assms(2) by (auto simp: warm_insert_def)
  from lossyD [OF assms(1) this] show ?thesis by (auto split: if_splits)
qed (use assms(2) in \<open>simp add: warm_insert_def\<close>)

lemma warm_insert_backed:
  assumes "lossy ins" and "backed t" and "contains_block (cold t) i"
  shows "backed (warm_insert ins i p t)"
  using assms warm_insert_keys [OF assms(1)] unfolding backed_def by (metis warm_insert_fields(1,2))

lemma tiered_get_cases:
  assumes "tiered_get H ins i t = (r, t')"
  obtains (refused) e where "r = Inl e" "t' = t \<or> t' = t\<lparr>misses := misses t + 1\<rparr>"
    | (hit) p where "r = Inr p" "t' = t\<lparr>hits := hits t + 1\<rparr>" "i |\<notin>| quarantined t"
        "fmlookup (pinned t) i = Some p \<or> fmlookup (warm t) i = Some p"
    | (miss) p where "r = Inr p" "t' = warm_insert ins i p (t\<lparr>misses := misses t + 1\<rparr>)" "i |\<notin>| quarantined t"
        "get_block H (cold t) i = Inr p"
proof (cases "i |\<in>| quarantined t \<or> contains_key (pinned t) i \<or> contains_key (warm t) i")
  case True
  then consider "i |\<in>| quarantined t"
    | p where "i |\<notin>| quarantined t" "fmlookup (pinned t) i = Some p"
    | p where "i |\<notin>| quarantined t" "fmlookup (pinned t) i = None" "fmlookup (warm t) i = Some p"
    by (cases "fmlookup (pinned t) i") auto
  then show thesis
    by cases (use assms refused hit in \<open>auto simp: tiered_get_def\<close>)
next
  case False
  then have run: "tiered_get H ins i t = (case get_block H (cold t) i of
      Inl e \<Rightarrow> (Inl e, t\<lparr>misses := misses t + 1\<rparr>)
    | Inr p \<Rightarrow> (Inr p, warm_insert ins i p (t\<lparr>misses := misses t + 1\<rparr>)))"
    by (simp add: tiered_get_def Let_def)
  show thesis
  proof (cases "get_block H (cold t) i")
    case (Inl e)
    then show thesis using run assms by (intro refused) auto
  next
    case (Inr p)
    then show thesis using run assms False by (intro miss) auto
  qed
qed

lemma tier_ok_counters [simp]:
  "tier_ok H (t\<lparr>misses := m\<rparr>) = tier_ok H t" "tier_ok H (t\<lparr>hits := h\<rparr>) = tier_ok H t"
  "backed (t\<lparr>misses := m\<rparr>) = backed t" "backed (t\<lparr>hits := h\<rparr>) = backed t"
  by (simp_all add: tier_ok_def backed_def)

lemma tiered_get_ok:
  assumes "lossy ins" and "tier_ok H t" and "files_fit (cold t)" and "tiered_get H ins i t = (r, t')"
  shows "tier_ok H t'" and "backed t \<Longrightarrow> backed t'"
    and "r = Inr p \<Longrightarrow> verify H i p \<and> length p < 2 ^ 63 \<and> i |\<notin>| quarantined t"
    and "cold t' = cold t \<and> quarantined t' = quarantined t \<and> pinned t' = pinned t
      \<and> pinned_bytes t' = pinned_bytes t \<and> pinned_budget t' = pinned_budget t"
    and "backed t \<Longrightarrow> r = Inr p \<Longrightarrow> contains_block (cold t) i"
proof -
  have gen: "verify H i p \<and> length p < 2 ^ 63"
    if "fmlookup (pinned t) i = Some p \<or> fmlookup (warm t) i = Some p" for p
    using assms(2) that by (auto simp: tier_ok_def genuine_def)
  have read: "verify H i p \<and> length p < 2 ^ 63 \<and> contains_block (cold t) i" if "get_block H (cold t) i = Inr p" for p
    using get_block_verified [OF that] assms(3) by simp
  show "tier_ok H t'"
    using assms(4) by (cases rule: tiered_get_cases) (use assms(1,2) read in \<open>auto intro: warm_insert_ok\<close>)
  show "backed t \<Longrightarrow> backed t'"
    using assms(4) by (cases rule: tiered_get_cases) (use assms(1) read in \<open>auto intro: warm_insert_backed\<close>)
  show "r = Inr p \<Longrightarrow> verify H i p \<and> length p < 2 ^ 63 \<and> i |\<notin>| quarantined t"
    using assms(4) by (cases rule: tiered_get_cases) (use gen read in auto)
  show "cold t' = cold t \<and> quarantined t' = quarantined t \<and> pinned t' = pinned t
      \<and> pinned_bytes t' = pinned_bytes t \<and> pinned_budget t' = pinned_budget t"
    using assms(4) by (cases rule: tiered_get_cases) auto
  show "backed t \<Longrightarrow> r = Inr p \<Longrightarrow> contains_block (cold t) i"
    using assms(4) by (cases rule: tiered_get_cases) (use read in \<open>auto simp: backed_def\<close>)
qed

lemma pin_ok:
  assumes "lossy ins" and "tier_ok H t" and "files_fit (cold t)" and "pin H ins i t = (r, t')"
  shows "tier_ok H t' \<and> (backed t \<longrightarrow> backed t')"
proof -
  obtain g t1 where get: "tiered_get H ins i t = (g, t1)" by fastforce
  note ok = tiered_get_ok [OF assms(1-3) get]
  consider (pinned) "t' = t" | (other) "t' = t1"
    | (pins) p where "g = Inr p" "\<not> contains_key (pinned t1) i"
        "pinned_bytes t1 + of_nat (length p) \<le> pinned_budget t1"
        "t' = t1\<lparr>pinned := fmupd i p (pinned t1), pinned_bytes := pinned_bytes t1 + of_nat (length p)\<rparr>"
    using assms(4) get by (auto simp: pin_def not_less split: if_splits sum.splits)
  then show ?thesis
  proof cases
    case (pins p)
    have p: "verify H i p" "length p < 2 ^ 63" using ok(3) [OF pins(1)] by simp_all
    have t1: "genuine H (warm t1)" "genuine H (pinned t1)" "unat (pinned_bytes t1) = fmsum length (pinned t1)"
      "pinned_bytes t1 \<le> pinned_budget t1" "pinned_budget t1 = warm_budget t1 div 4"
      using ok(1) by (auto simp: tier_ok_def)
    have "unat (pinned_bytes t1) < 2 ^ 62"
    proof -
      have "unat (pinned_bytes t1) \<le> unat (warm_budget t1) div 4"
        using t1(4,5) by (simp add: word_le_nat_alt unat_div)
      also have "\<dots> < 2 ^ 62" using unat_lt [of "warm_budget t1"] by simp
      finally show ?thesis .
    qed
    then have "unat (pinned_bytes t1 + of_nat (length p)) = fmsum length (pinned t1) + length p"
      using p(2) t1(3) unat_of_nat_u64 [of "length p"] unat_add_fits [of "pinned_bytes t1" "of_nat (length p)"]
      by simp
    moreover have "fmsum length (fmupd i p (pinned t1)) = length p + fmsum length (pinned t1)"
      using fmsum_fmupd_new [of "pinned t1" i] pins(2) by simp
    moreover have "backed t'" if "backed t"
      using ok(2,5) [OF that] pins(1,4) ok(4) by (auto simp: backed_def split: if_splits)
    ultimately show ?thesis
      using t1 p pins(3,4) by (auto simp: tier_ok_def genuine_def add.commute)
  qed (use ok assms(2) in auto)
qed

lemma unpin_ok:
  assumes "tier_ok H t"
  shows "tier_ok H (unpin i t)"
proof (cases "fmlookup (pinned t) i")
  case (Some p)
  note drop = fmsum_fmdrop [OF Some, of length]
  have le: "length p \<le> unat (pinned_bytes t)" using assms drop by (auto simp: tier_ok_def)
  then have len: "unat (of_nat (length p) :: u64) = length p"
    using unat_lt [of "pinned_bytes t"] by (intro unat_of_nat_u64) simp
  have sub: "unat (pinned_bytes t - of_nat (length p)) = unat (pinned_bytes t) - length p"
    using le len by (simp add: unat_sub word_le_nat_alt)
  then have "pinned_bytes t - of_nat (length p) \<le> pinned_bytes t" by (simp add: word_le_nat_alt)
  then show ?thesis
    using assms Some sub drop by (auto simp: tier_ok_def unpin_def genuine_def split: if_splits)
qed (use assms in \<open>simp add: unpin_def\<close>)

lemma unpin_fields [simp]:
  "cold (unpin i t) = cold t" "warm (unpin i t) = warm t" "quarantined (unpin i t) = quarantined t"
  "fmlookup (pinned (unpin i t)) j = (if i = j then None else fmlookup (pinned t) j)"
  by (auto simp: unpin_def split: option.splits)

lemma fold_unpin:
  "cold (fold unpin is t) = cold t" "warm (fold unpin is t) = warm t"
  "fmlookup (pinned (fold unpin is t)) j = (if j \<in> set is then None else fmlookup (pinned t) j)"
  "tier_ok H t \<Longrightarrow> tier_ok H (fold unpin is t)"
  by (induction "is" arbitrary: t) (auto simp: unpin_ok)

lemma fold_fmdrop: "fmlookup (fold fmdrop is m) j = (if j \<in> set is then None else fmlookup m j)"
  by (induction "is" arbitrary: m) auto

lemma tier_ok_cold [simp]:
  "tier_ok H (t\<lparr>cold := st\<rparr>) = tier_ok H t" "tier_ok H (t\<lparr>quarantined := q\<rparr>) = tier_ok H t"
  "backed (t\<lparr>quarantined := q\<rparr>) = backed t"
  by (simp_all add: tier_ok_def backed_def)

lemma backed_mono:
  assumes "backed t" and "\<And>i. contains_block (cold t) i \<Longrightarrow> contains_block st i"
  shows "backed (t\<lparr>cold := st\<rparr>)"
  using assms by (simp add: backed_def)

lemma warm_fold_ok:
  assumes "lossy ins" and "tier_ok H t" and "\<forall>(i, p)\<in>set xs. verify H i p \<and> length p < 2 ^ 63"
  shows "tier_ok H (fold (\<lambda>(i, p). warm_insert ins i p) xs t)"
    and "backed t \<Longrightarrow> \<forall>(i, _)\<in>set xs. contains_block (cold t) i
      \<Longrightarrow> backed (fold (\<lambda>(i, p). warm_insert ins i p) xs t)"
proof -
  show "tier_ok H (fold (\<lambda>(i, p). warm_insert ins i p) xs t)"
    using assms(2,3) by (induction xs arbitrary: t) (auto simp: warm_insert_ok [OF assms(1)])
  show "backed t \<Longrightarrow> \<forall>(i, _)\<in>set xs. contains_block (cold t) i
      \<Longrightarrow> backed (fold (\<lambda>(i, p). warm_insert ins i p) xs t)"
    by (induction xs arbitrary: t) (auto simp: warm_insert_backed [OF assms(1)])
qed

section \<open>Reachable stores\<close>

text \<open>
  The stores reached from an opened one by any sequence of operations, whichever of their calls fail.
  The flag says that no compaction has failed yet.
\<close>

inductive tier_reach :: "(bytes \<Rightarrow> bytes32) \<Rightarrow> cache_insert \<Rightarrow> tiered_store \<Rightarrow> bool \<Rightarrow> bool"
  for H ins where
  new: "tier_reach H ins (tiered_new st budget) True"
| get: "tier_reach H ins t c \<Longrightarrow> files_fit (cold t) \<Longrightarrow> tiered_get H ins i t = (r, t') \<Longrightarrow> tier_reach H ins t' c"
| pin: "tier_reach H ins t c \<Longrightarrow> files_fit (cold t) \<Longrightarrow> pin H ins i t = (b, t') \<Longrightarrow> tier_reach H ins t' c"
| put: "tier_reach H ins t c \<Longrightarrow> length p < 2 ^ 63 \<Longrightarrow> tiered_put H ins f p t = (q, t') \<Longrightarrow> tier_reach H ins t' c"
| put_many: "tier_reach H ins t c \<Longrightarrow> \<forall>p\<in>set ps. length p < 2 ^ 63 \<Longrightarrow>
    tiered_put_many H ins f ps t = (qs, t') \<Longrightarrow> tier_reach H ins t' c"
| verify: "tier_reach H ins t c \<Longrightarrow> verify_cold H i t = (u, t') \<Longrightarrow> tier_reach H ins t' c"
| repair: "tier_reach H ins t c \<Longrightarrow> length p < 2 ^ 63 \<Longrightarrow> tiered_repair H ins f i p t = (q, t') \<Longrightarrow> tier_reach H ins t' c"
| compact: "tier_reach H ins t c \<Longrightarrow> lists_map iter \<Longrightarrow> lists_map cached \<Longrightarrow>
    tiered_compact H iter cached live f t = (s, t') \<Longrightarrow> tier_reach H ins t' (c \<and> \<not> isl s)"

lemma put_ok:
  assumes "lossy ins" and "tier_ok H t" and "length p < 2 ^ 63" and "tiered_put H ins f p t = (r, t')"
  shows "tier_ok H t' \<and> (backed t \<longrightarrow> backed t')"
proof -
  obtain q st where run: "put H f p (cold t) = (q, st)" by fastforce
  note keeps = put_keeps [OF run]
  have mono: "backed (t\<lparr>cold := st\<rparr>)" if "backed t" using backed_mono [OF that] keeps(1) by blast
  show ?thesis
  proof (cases q)
    case (Inl e)
    then show ?thesis using assms(2,4) run mono by (auto simp: tiered_put_def)
  next
    case (Inr i)
    then have t': "t' = warm_insert ins i p (t\<lparr>cold := st\<rparr>)" "verify H i p" "contains_block st i"
      using assms(4) run keeps(2) [OF Inr] by (auto simp: tiered_put_def verify_def)
    then show ?thesis
      using warm_insert_ok [OF assms(1) _ t'(2) assms(3)] warm_insert_backed [OF assms(1) mono] assms(2) by simp
  qed
qed

lemma put_many_ok:
  assumes "lossy ins" and "tier_ok H t" and "\<forall>p\<in>set ps. length p < 2 ^ 63" and "tiered_put_many H ins f ps t = (r, t')"
  shows "tier_ok H t' \<and> (backed t \<longrightarrow> backed t')"
proof -
  obtain q st where run: "put_many H f ps (cold t) = (q, st)" by fastforce
  note keeps = put_many_inner_keeps [OF run [unfolded put_many_def]]
  have mono: "backed (t\<lparr>cold := st\<rparr>)" if "backed t" using backed_mono [OF that] keeps(1) by blast
  show ?thesis
  proof (cases q)
    case (Inl e)
    then show ?thesis using assms(2,4) run mono by (auto simp: tiered_put_many_def)
  next
    case (Inr ids)
    let ?xs = "zip (map (block_id_of H) ps) ps"
    have t': "t' = fold (\<lambda>(i, p). warm_insert ins i p) ?xs (t\<lparr>cold := st\<rparr>)"
      "\<forall>i\<in>set (map (block_id_of H) ps). contains_block st i"
      using assms(4) run keeps(2) [OF Inr] Inr by (auto simp: tiered_put_many_def)
    have "\<forall>(i, p)\<in>set ?xs. verify H i p \<and> length p < 2 ^ 63"
      using assms(3) by (simp add: verify_def zip_map1 zip_same_conv_map)
    moreover have "\<forall>(i, _)\<in>set ?xs. contains_block (cold (t\<lparr>cold := st\<rparr>)) i"
      using t'(2) by (simp add: zip_map1 zip_same_conv_map)
    ultimately show ?thesis
      unfolding t'(1) using warm_fold_ok [OF assms(1), of H "t\<lparr>cold := st\<rparr>" ?xs] assms(2) mono by simp
  qed
qed

lemma repair_ok:
  assumes "lossy ins" and "tier_ok H t" and "length p < 2 ^ 63" and "tiered_repair H ins f i p t = (r, t')"
  shows "tier_ok H t' \<and> (backed t \<longrightarrow> backed t')"
proof -
  obtain q st where run: "repair_block H f i p (cold t) = (q, st)" by fastforce
  note keeps = repair_keeps [OF run]
  have mono: "backed (t\<lparr>cold := st\<rparr>)" if "backed t" using backed_mono [OF that] keeps(1) by blast
  then have mono': "backed (t\<lparr>cold := st, quarantined := qs\<rparr>)" if "backed t" for qs
    using that by simp
  show ?thesis
  proof (cases q)
    case (Inl e)
    then show ?thesis using assms(2,4) run mono by (auto simp: tiered_repair_def)
  next
    case (Inr j)
    then show ?thesis
      using assms(2-4) run keeps(2) [OF Inr] warm_insert_ok [OF assms(1)] warm_insert_backed [OF assms(1) mono']
      by (auto simp: tiered_repair_def)
  qed
qed

lemma verify_cold_ok:
  assumes "tier_ok H t" and "verify_cold H i t = (r, t')"
  shows "tier_ok H t' \<and> (backed t \<longrightarrow> backed t') \<and> cold t' = cold t"
proof -
  let ?t = "t\<lparr>quarantined := finsert i (quarantined t), warm := fmdrop i (warm t)\<rparr>"
  have "tier_ok H ?t" using assms(1) by (auto simp: tier_ok_def genuine_def split: if_splits)
  then have "tier_ok H (unpin i ?t)" by (rule unpin_ok)
  moreover have "t' = t \<or> (\<exists>q. t' = t\<lparr>quarantined := q\<rparr>) \<or> t' = unpin i ?t"
    using assms(2) by (auto simp: verify_cold_def split: sum.splits store_error.splits error.splits)
  moreover have "backed (unpin i ?t)" if "backed t" using that by (auto simp: backed_def split: if_splits)
  ultimately show ?thesis using assms(1) by auto
qed

lemma compact_ok:
  assumes "tier_ok H t" and "lists_map iter" and "lists_map cached" and "tiered_compact H iter cached live f t = (r, t')"
  shows "tier_ok H t' \<and> (\<not> isl r \<longrightarrow> backed t \<longrightarrow> backed t')"
proof -
  obtain q st where run: "compact H iter live f (cold t) = (q, st)" by fastforce
  show ?thesis
  proof (cases q)
    case (Inl e)
    then show ?thesis using assms(1,4) run by (auto simp: tiered_compact_def)
  next
    case (Inr cs)
    let ?t = "t\<lparr>cold := st\<rparr>"
    have dropped: "st = cold t" if "blocks_dropped cs = 0"
      using compact_from_drops [of H iter live _ f "cold t" _ cs st] run Inr that by (simp add: compact_def)
    define t1 where "t1 = fold unpin (filter (\<lambda>i. \<not> contains_block st i) (map fst (cached (pinned ?t)))) ?t"
    define dead where "dead = filter (\<lambda>i. \<not> contains_block st i) (map fst (cached (warm t1)))"
    have all: "set (map fst (cached m)) = {i. contains_key m i}" for m
      using assms(3) by (force simp: lists_map_def)
    have t1: "tier_ok H t1" "cold t1 = st" "warm t1 = warm t"
      unfolding t1_def using assms(1) by (simp_all add: fold_unpin)
    have pins: "contains_block st i" if "contains_key (pinned t1) i" for i
      using that all [of "pinned t"] unfolding t1_def by (auto simp: fold_unpin split: if_splits)
    have "contains_block st i" if "contains_key (fold fmdrop dead (warm t1)) i" for i
      using that all [of "warm t1"] unfolding dead_def by (auto simp: fold_fmdrop split: if_splits)
    then have swept: "backed (t1\<lparr>warm := fold fmdrop dead (warm t1)\<rparr>)"
      using pins t1(2) by (auto simp: backed_def)
    have ok: "tier_ok H (t1\<lparr>warm := fold fmdrop dead (warm t1)\<rparr>)"
      using t1(1) by (auto simp: tier_ok_def genuine_def fold_fmdrop split: if_splits)
    have "t' = (if blocks_dropped cs = 0 then ?t else t1\<lparr>warm := fold fmdrop dead (warm t1)\<rparr>)"
      using assms(4) run Inr by (simp add: tiered_compact_def t1_def dead_def Let_def split: if_splits)
    then show ?thesis using ok swept assms(1) dropped by (auto split: if_splits)
  qed
qed

lemma tier_reach_ok:
  assumes "tier_reach H ins t c" and "lossy ins"
  shows "tier_ok H t \<and> (c \<longrightarrow> backed t)"
  using assms(1)
proof induction
  case (new st budget)
  then show ?case by (simp add: tier_ok_def backed_def tiered_new_def genuine_def)
next
  case (get t c i r t')
  then show ?case using tiered_get_ok(1,2) [OF assms(2)] by blast
next
  case (pin t c i b t')
  then show ?case using pin_ok [OF assms(2)] by blast
next
  case (put t c p f q t')
  then show ?case using put_ok [OF assms(2)] by blast
next
  case (put_many t c ps f qs t')
  then show ?case using put_many_ok [OF assms(2)] by blast
next
  case (verify t c i u t')
  then show ?case using verify_cold_ok by blast
next
  case (repair t c p f i q t')
  then show ?case using repair_ok [OF assms(2)] by blast
next
  case (compact t c iter cached live f s t')
  then show ?case using compact_ok by blast
qed

text \<open>
  The operations that leave the service state of a block \<open>i\<close> alone: all of them, except a repair and a
  verification of \<open>i\<close> itself that succeed.
\<close>

inductive not_restored :: "(bytes \<Rightarrow> bytes32) \<Rightarrow> cache_insert \<Rightarrow> block_id \<Rightarrow> tiered_store \<Rightarrow> tiered_store \<Rightarrow> bool"
  for H ins i t where
  still: "not_restored H ins i t t"
| get: "not_restored H ins i t u \<Longrightarrow> tiered_get H ins j u = (r, u') \<Longrightarrow> not_restored H ins i t u'"
| pin: "not_restored H ins i t u \<Longrightarrow> pin H ins j u = (b, u') \<Longrightarrow> not_restored H ins i t u'"
| put: "not_restored H ins i t u \<Longrightarrow> tiered_put H ins f p u = (q, u') \<Longrightarrow> not_restored H ins i t u'"
| put_many: "not_restored H ins i t u \<Longrightarrow> tiered_put_many H ins f ps u = (qs, u') \<Longrightarrow> not_restored H ins i t u'"
| verify: "not_restored H ins i t u \<Longrightarrow> verify_cold H j u = (v, u') \<Longrightarrow> j \<noteq> i \<or> isl v
    \<Longrightarrow> not_restored H ins i t u'"
| repair: "not_restored H ins i t u \<Longrightarrow> tiered_repair H ins f j p u = (q, u') \<Longrightarrow> j \<noteq> i \<or> isl q
    \<Longrightarrow> not_restored H ins i t u'"
| compact: "not_restored H ins i t u \<Longrightarrow> tiered_compact H iter cached live f u = (s, u')
    \<Longrightarrow> not_restored H ins i t u'"

lemma fold_warm_quarantined [simp]:
  "quarantined (fold (\<lambda>(i, p). warm_insert ins i p) xs t) = quarantined t"
  by (induction xs arbitrary: t) auto

lemma fold_unpin_quarantined [simp]: "quarantined (fold unpin xs t) = quarantined t"
  by (induction xs arbitrary: t) auto

lemma get_quarantined: "tiered_get H ins j t = (r, t') \<Longrightarrow> quarantined t' = quarantined t"
  by (erule tiered_get_cases) auto

lemma pin_quarantined: "pin H ins j t = (b, t') \<Longrightarrow> quarantined t' = quarantined t"
  using get_quarantined by (fastforce simp: pin_def split: if_splits prod.splits sum.splits)

lemma stays_quarantined:
  assumes "not_restored H ins i t u" and "i |\<in>| quarantined t"
  shows "i |\<in>| quarantined u"
  using assms
proof (induction rule: not_restored.induct)
  case (get u j r u')
  then show ?case using get_quarantined by metis
next
  case (pin u j b u')
  then show ?case using pin_quarantined by metis
next
  case (put u f p q u')
  then show ?case by (auto simp: tiered_put_def split: prod.splits sum.splits)
next
  case (put_many u f ps qs u')
  then show ?case by (auto simp: tiered_put_many_def split: prod.splits sum.splits)
next
  case (verify u j v u')
  then show ?case by (auto simp: verify_cold_def split: sum.splits store_error.splits error.splits)
next
  case (repair u f j p q u')
  then show ?case by (auto simp: tiered_repair_def split: prod.splits sum.splits)
next
  case (compact u iter cached live f s u')
  then show ?case by (auto simp: tiered_compact_def Let_def split: prod.splits sum.splits if_splits)
qed

section \<open>Properties\<close>

text \<open>
  C28.  The warm tier never serves wrong bytes and keeps its budget.  In every store reached by any
  operations with any failing calls: bytes that \<open>get\<close> returns have the hash asked for, and the block is
  not quarantined; the pinned blocks together stay within a quarter of the warm budget and their
  64-bit counter is exact; and as long as no compaction has failed, every cached or pinned block is
  also in the cold store.
\<close>

theorem warm_tier_sound:
  assumes "lossy ins" and "tier_reach H ins t c" and "files_fit (cold t)"
  shows "(fst (tiered_get H ins i t) = Inr p \<longrightarrow> verify H i p \<and> i |\<notin>| quarantined t)
       \<and> unat (pinned_bytes t) = fmsum length (pinned t)
       \<and> fmsum length (pinned t) \<le> unat (warm_budget t) div 4
       \<and> (c \<and> (contains_key (warm t) i \<or> contains_key (pinned t) i) \<longrightarrow> contains_block (cold t) i)"
proof -
  have ok: "tier_ok H t" "c \<longrightarrow> backed t" using tier_reach_ok [OF assms(2,1)] by simp_all
  then have "fmsum length (pinned t) \<le> unat (warm_budget t) div 4"
    by (auto simp: tier_ok_def word_le_nat_alt unat_div)
  moreover have "verify H i p \<and> i |\<notin>| quarantined t" if "fst (tiered_get H ins i t) = Inr p"
    using tiered_get_ok(3) [OF assms(1) ok(1) assms(3) prod.collapse [symmetric] that] by blast
  ultimately show ?thesis using ok by (auto simp: tier_ok_def backed_def)
qed

text \<open>
  C30.  Damage behind a good cached copy is found and contained.  When the cold record of a block is
  unreadable or has the wrong hash, \<open>verify_cold\<close> takes the block out of service: it is dropped from the
  warm tier and from the pinned tier, whose byte counter stays exact.  After whatever operations follow,
  as long as they include no repair and no verification of that block that succeeds, \<open>get\<close> reports it
  corrupt and \<open>contains\<close> denies it.  A repair that returns \<open>Ok\<close> puts it back in service with bytes of the
  right hash.
\<close>

theorem damaged_blocks_quarantined:
  assumes "lossy ins" and "tier_ok H t" and "represents rss (cold t)" and "batch_fits H [p] (cold t)"
    and "length p < 2 ^ 63" and "get_block H (cold t) i = Inl (Failure e)" and "\<forall>j. e \<noteq> BlockNotFound j"
    and "verify_cold H i t = (r, t1)"
  shows "r = Inl (Failure e)
       \<and> fmlookup (warm t1) i = None \<and> fmlookup (pinned t1) i = None
       \<and> unat (pinned_bytes t1) = fmsum length (pinned t1)
       \<and> (not_restored H ins i t1 u \<longrightarrow>
            fst (tiered_get H ins i u) = Inl (Failure (Corrupt i)) \<and> \<not> tiered_contains u i)
       \<and> (tiered_repair H ins f i p t1 = (Inr j, t2) \<longrightarrow>
            tiered_contains t2 i \<and> (\<exists>q. fst (tiered_get H ins i t2) = Inr q \<and> verify H i q))"
proof (intro conjI impI)
  have t1: "i |\<in>| quarantined t1" "fmlookup (pinned t1) i = None" "fmlookup (warm t1) i = None" "cold t1 = cold t"
    and r: "r = Inl (Failure e)"
    using assms(6-8) by (cases e; auto simp: verify_cold_def)+
  show "r = Inl (Failure e)" by (rule r)
  show "fmlookup (warm t1) i = None" "fmlookup (pinned t1) i = None" by (rule t1)+
  show "unat (pinned_bytes t1) = fmsum length (pinned t1)"
    using verify_cold_ok [OF assms(2,8)] by (simp add: tier_ok_def)
  show "fst (tiered_get H ins i u) = Inl (Failure (Corrupt i))" "\<not> tiered_contains u i" if "not_restored H ins i t1 u"
    using stays_quarantined [OF that t1(1)] by (simp_all add: tiered_get_def tiered_contains_def)
  assume run: "tiered_repair H ins f i p t1 = (Inr j, t2)"
  then obtain k st where cold: "repair_block H f i p (cold t) = (Inr k, st)"
    and t2: "t2 = warm_insert ins i p (t1\<lparr>cold := st, quarantined := quarantined t1 |-| {|i|}\<rparr>)"
    using t1(4) by (auto simp: tiered_repair_def split: prod.splits sum.splits)
  have ok: "verify H i p" "contains_block st i" using repair_keeps(2) [OF cold refl] by simp_all
  obtain d where d: "get_block H st i = Inr d" "verify H i d"
    using repair_effect(2) [OF assms(3,4) ok(1) cold] by blast
  show "tiered_contains t2 i" using ok(2) by (simp add: tiered_contains_def t2)
  have warm: "fmlookup (warm t2) i = None \<or> fmlookup (warm t2) i = Some p"
    using lossyD [OF assms(1), of i p "warm t1" i] t1(3)
    by (cases "fmlookup (ins i p (warm t1)) i") (auto simp: t2 warm_insert_def)
  have "fst (tiered_get H ins i t2) = (case fmlookup (warm t2) i of Some q \<Rightarrow> Inr q | None \<Rightarrow> Inr d)"
    using t1(2) d(1) by (simp add: tiered_get_def t2 Let_def split: option.splits)
  then show "\<exists>q. fst (tiered_get H ins i t2) = Inr q \<and> verify H i q"
    using warm ok(1) d(2) by auto
qed

section \<open>Witnesses\<close>

lemma lossy_fmupd: "lossy fmupd"
  by (simp add: lossy_def)

definition pinned_example :: tiered_store where
  "pinned_example = snd (pin sum_hash fmupd (BlockId (fill32 9)) (tiered_new sealed_store 100))"

lemma sealed_files_fit: "files_fit sealed_store"
  by (simp add: files_fit_def sealed_store_def sealed_segments_def segment_bytes_def length_encode_record padded_def)

lemma pinned_example_pins: "fmlookup (pinned pinned_example) (BlockId (fill32 9)) = Some [9]"
    "quarantined pinned_example = {||}" "cold pinned_example = sealed_store" "warm_budget pinned_example = 100"
  using sealed_store_get
  by (simp_all add: pinned_example_def pin_def tiered_get_def tiered_new_def warm_insert_def Let_def)

theorem warm_tier_sound_witness:
  "fst (tiered_get sum_hash fmupd (BlockId (fill32 9)) pinned_example) = Inr [9]
   \<and> verify sum_hash (BlockId (fill32 9)) [9] \<and> fmsum length (pinned pinned_example) \<le> 25
   \<and> contains_block (cold pinned_example) (BlockId (fill32 9))"
proof -
  have "tier_reach sum_hash fmupd pinned_example True"
    unfolding pinned_example_def
    by (rule tier_reach.pin [OF tier_reach.new _ prod.collapse [symmetric]])
      (simp add: tiered_new_def sealed_files_fit)
  from warm_tier_sound [OF lossy_fmupd this, of "BlockId (fill32 9)" "[9]"]
  show ?thesis
    using pinned_example_pins sealed_files_fit by (simp add: tiered_get_def)
qed

theorem damaged_blocks_quarantined_witness:
  "\<exists>t2 j q. tiered_repair sum_hash fmupd NoFault (BlockId (fill32 6)) [1, 2, 3]
      (snd (verify_cold sum_hash (BlockId (fill32 6)) (tiered_new damaged_store 100))) = (Inr j, t2)
    \<and> fst (tiered_get sum_hash fmupd (BlockId (fill32 6)) t2) = Inr q \<and> verify sum_hash (BlockId (fill32 6)) q
    \<and> fst (tiered_get sum_hash fmupd (BlockId (fill32 6)) (snd (tiered_put sum_hash fmupd NoFault [1, 2, 3]
        (snd (verify_cold sum_hash (BlockId (fill32 6)) (tiered_new damaged_store 100))))))
      = Inl (Failure (Corrupt (BlockId (fill32 6))))"
proof -
  let ?i = "BlockId (fill32 6)" and ?t = "tiered_new damaged_store 100"
  let ?t1 = "snd (verify_cold sum_hash ?i ?t)"
  have ok: "tier_ok sum_hash ?t" by (simp add: tier_ok_def tiered_new_def genuine_def)
  have cold: "cold ?t = damaged_store" by (simp add: tiered_new_def)
  have bad: "get_block sum_hash damaged_store ?i = Inl (Failure (Corrupt ?i))"
    unfolding get_refines [OF damaged_store_ok(1)]
    by (simp add: abs_get_def latest_def verify_def block_id_of_def sum_hash_def)
  obtain ids where "fst (put_many_inner sum_hash NoFault True [[1, 2, 3]] damaged_store) = Inr ids"
    using put_many_inner_succeeds [OF damaged_store_ok] by blast
  moreover have "verify sum_hash ?i [1, 2, 3]" by (simp add: verify_def block_id_of_def sum_hash_def)
  moreover have "cold ?t1 = damaged_store"
    using bad by (simp add: verify_cold_def tiered_new_def)
  ultimately have run: "tiered_repair sum_hash fmupd NoFault ?i [1, 2, 3] ?t1
      = (Inr ?i, snd (tiered_repair sum_hash fmupd NoFault ?i [1, 2, 3] ?t1))"
    by (simp add: tiered_repair_def repair_block_def split_def map_prod_def)
  note claim = damaged_blocks_quarantined [OF lossy_fmupd ok, unfolded cold, OF damaged_store_ok _ bad _ prod.collapse [symmetric]]
  have "not_restored sum_hash fmupd ?i ?t1 (snd (tiered_put sum_hash fmupd NoFault [1, 2, 3] ?t1))"
    by (rule not_restored.put [OF not_restored.still prod.collapse [symmetric]])
  with claim have "fst (tiered_get sum_hash fmupd ?i (snd (tiered_put sum_hash fmupd NoFault [1, 2, 3] ?t1)))
      = Inl (Failure (Corrupt ?i))"
    by simp
  with claim run show ?thesis by fastforce
qed

end
