(* ===== verification/Request_Handlers.thy ===== *)
theory Request_Handlers
  imports Signing Control_Properties Tiered
begin

text \<open>
  The handlers of the metadata routes: \<^verbatim>\<open>kalpakdb/src/leases.rs\<close>, and of \<^verbatim>\<open>kalpakdb/src/server.rs\<close> the
  error conversions, the signature checks, forwarding to the leader, registration, binding and lookup.

  A request is the typed value that \<^verbatim>\<open>axum\<close> extracts from the body, as a \<open>signed_write\<close> with its
  signature; the same value is the body of a forwarded request.  Consensus is the argument
  \<open>client_write\<close> of the control plane.  The network is the argument \<open>post\<close>: what the leader answers to a
  path and a body.  A background task runs where it is spawned.
\<close>

section \<open>Errors\<close>

text \<open>The message of a converted error is its \<^verbatim>\<open>Display\<close> text; the model keeps the error itself.\<close>

datatype api_message = Text string | CoreMessage error | ControlMessage control_error

datatype api_error = ApiError nat api_message

definition api_of_error :: "error \<Rightarrow> api_error" where
  "api_of_error e =
     ApiError (case e of BlockNotFound _ \<Rightarrow> 404 | InvalidId _ \<Rightarrow> 400 | _ \<Rightarrow> 500) (CoreMessage e)"

definition api_of_control :: "control_error \<Rightarrow> api_error" where
  "api_of_control e =
     ApiError (case e of NotLeader _ \<Rightarrow> 503 | RejectedError _ \<Rightarrow> 409 | _ \<Rightarrow> 500) (ControlMessage e)"

section \<open>Environment\<close>

datatype 'v http_result = NoResponse string | BadBody string | Answer nat 'v

datatype 'v reply =
    Reserved block_id
  | LeaseBound block_id
  | Cancelled block_id
  | Renewed u64 u64
  | AgentRegistered agent_id
  | PrefixBound
  | ChainBound nat
  | Relayed 'v

record ('vk, 'v) api_env =
  hex_decode :: "string \<Rightarrow> bytes option"
  vk_from_bytes :: "bytes32 \<Rightarrow> 'vk option"
  vk_verify :: "'vk \<Rightarrow> bytes \<Rightarrow> bytes \<Rightarrow> bool"
  submit :: client_write
  post :: "string \<Rightarrow> string \<Rightarrow> signed_write \<times> string option \<Rightarrow> 'v http_result"
  error_field :: "'v \<Rightarrow> string option"
  require_signatures :: bool

section \<open>Checks and forwarding\<close>

definition verify_lease ::
  "('vk, 'v) api_env \<Rightarrow> agent_id \<Rightarrow> bytes \<Rightarrow> string \<Rightarrow> api_error + unit" where
  "verify_lease env a msg sig =
     (case signature_from_hex (hex_decode env) sig of
        Inl _ \<Rightarrow> Inl (ApiError 401 (Text ''malformed lease signature''))
      | Inr raw \<Rightarrow>
          (case agent_verify (vk_from_bytes env) (vk_verify env) a msg raw of
             Inl _ \<Rightarrow> Inl (ApiError 401 (Text ''invalid lease signature''))
           | Inr _ \<Rightarrow> Inr ()))"

definition verify_signature ::
  "('vk, 'v) api_env \<Rightarrow> agent_id \<Rightarrow> bytes \<Rightarrow> string option \<Rightarrow> api_error + unit" where
  "verify_signature env a msg sig =
     (if \<not> require_signatures env then Inr ()
      else case sig of
        None \<Rightarrow> Inl (ApiError 401 (Text (''this node requires signed writes: missing '' @ [CHR 0x27] @ ''signature'' @ [CHR 0x27])))
      | Some text \<Rightarrow>
          (case signature_from_hex (hex_decode env) text of
             Inl _ \<Rightarrow> Inl (ApiError 401 (Text ''malformed signature''))
           | Inr raw \<Rightarrow>
               (case agent_verify (vk_from_bytes env) (vk_verify env) a msg raw of
                  Inl _ \<Rightarrow> Inl (ApiError 401 (Text ''signature does not verify against the agent's public key''))
                | Inr _ \<Rightarrow> Inr ())))"

definition is_success :: "nat \<Rightarrow> bool" where
  "is_success status \<longleftrightarrow> 200 \<le> status \<and> status < 300"

definition forward_to_leader ::
  "('vk, 'v) api_env \<Rightarrow> control_error \<Rightarrow> string \<Rightarrow> signed_write \<times> string option \<Rightarrow> api_error + 'v reply" where
  "forward_to_leader env err path body =
     (case err of
        NotLeader (Some addr) \<Rightarrow>
          (case post env addr path body of
             NoResponse e \<Rightarrow> Inl (ApiError 502 (Text (''leader forward: '' @ e)))
           | BadBody e \<Rightarrow> Inl (ApiError 502 (Text (''leader response: '' @ e)))
           | Answer status v \<Rightarrow>
               if is_success status then Inr (Relayed v)
               else Inl (ApiError status (Text
                      (case error_field env v of Some m \<Rightarrow> m | None \<Rightarrow> ''forwarded write failed''))))
      | _ \<Rightarrow> Inl (api_of_control err))"

text \<open>The last step of every handler: the reply of an accepted write, or the leader's answer.\<close>

definition respond ::
  "('vk, 'v) api_env \<Rightarrow> string \<Rightarrow> signed_write \<times> string option \<Rightarrow> (control_error + 'a) \<times> metadata_state
     \<Rightarrow> ('a \<Rightarrow> 'v reply) \<Rightarrow> (api_error + 'v reply) \<times> metadata_state" where
  "respond env path body result f =
     (case result of
        (Inr x, s) \<Rightarrow> (Inr (f x), s)
      | (Inl e, s) \<Rightarrow> (forward_to_leader env e path body, s))"

section \<open>Lease routes\<close>

definition lease_begin ::
  "('vk, 'v) api_env \<Rightarrow> block_id \<Rightarrow> agent_id \<Rightarrow> block_id list \<Rightarrow> string \<Rightarrow> metadata_state
     \<Rightarrow> (api_error + 'v reply) \<times> metadata_state" where
  "lease_begin env lease a bs sig s =
     (if bs = [] \<or> MAX_LEASE_BLOCKS < length bs
      then (Inl (ApiError 400 (Text ''lease requires 1..256 block hashes'')), s)
      else case verify_lease env a (lease_begin_message a lease bs) sig of
        Inl e \<Rightarrow> (Inl e, s)
      | Inr _ \<Rightarrow>
          respond env ''/v1/leases/begin'' (Lease_Begin a lease bs, Some sig)
            (begin_upload_lease (submit env) lease a bs s) (\<lambda>_. Reserved lease))"

definition lease_commit ::
  "('vk, 'v) api_env \<Rightarrow> tiered_store \<Rightarrow> block_id \<Rightarrow> agent_id \<Rightarrow> chain_binding \<Rightarrow> u64 \<Rightarrow> string \<Rightarrow> metadata_state
     \<Rightarrow> (api_error + 'v reply) \<times> metadata_state" where
  "lease_commit env t lease a b expected sig s =
     (if cb_blocks b = [] \<or> MAX_LEASE_BLOCKS < length (cb_blocks b)
      then (Inl (ApiError 400 (Text ''lease requires 1..256 block hashes'')), s)
      else case verify_lease env a
                  (lease_commit_message a lease (cb_key b) (cb_blocks b) (cb_parent b) expected) sig of
        Inl e \<Rightarrow> (Inl e, s)
      | Inr _ \<Rightarrow>
          if list_ex (\<lambda>i. \<not> tiered_contains t i) (cb_blocks b)
          then (Inl (ApiError 422 (Text ''upload leased blocks to the committing leader first'')), s)
          else
            respond env ''/v1/leases/commit''
              (Lease_Commit a lease (cb_key b) (cb_blocks b) (cb_parent b) expected, Some sig)
              (commit_upload_lease (submit env) lease a b expected s) (\<lambda>_. LeaseBound lease))"

definition lease_cancel ::
  "('vk, 'v) api_env \<Rightarrow> block_id \<Rightarrow> agent_id \<Rightarrow> string \<Rightarrow> metadata_state
     \<Rightarrow> (api_error + 'v reply) \<times> metadata_state" where
  "lease_cancel env lease a sig s =
     (case verify_lease env a (lease_cancel_message a lease) sig of
        Inl e \<Rightarrow> (Inl e, s)
      | Inr _ \<Rightarrow>
          respond env ''/v1/leases/cancel'' (Lease_Cancel a lease, Some sig)
            (cancel_upload_lease (submit env) lease a s) (\<lambda>_. Cancelled lease))"

definition lease_renew ::
  "('vk, 'v) api_env \<Rightarrow> block_id \<Rightarrow> agent_id \<Rightarrow> u64 \<Rightarrow> u64 \<Rightarrow> string \<Rightarrow> metadata_state
     \<Rightarrow> (api_error + 'v reply) \<times> metadata_state" where
  "lease_renew env lease a expected ttl sig s =
     (case verify_lease env a (lease_renew_message a lease expected ttl) sig of
        Inl e \<Rightarrow> (Inl e, s)
      | Inr _ \<Rightarrow>
          respond env ''/v1/leases/renew'' (Lease_Renew a lease expected ttl, Some sig)
            (renew_upload_lease (submit env) lease a expected ttl s)
            (\<lambda>d. Renewed (generation d) (deadline_tick d)))"

section \<open>Agents and bindings\<close>

definition register_route ::
  "('vk, 'v) api_env \<Rightarrow> agent_id \<Rightarrow> string \<Rightarrow> string option \<Rightarrow> metadata_state
     \<Rightarrow> (api_error + 'v reply) \<times> metadata_state" where
  "register_route env a name sig s =
     (case verify_signature env a (register_message a name) sig of
        Inl e \<Rightarrow> (Inl e, s)
      | Inr _ \<Rightarrow>
          respond env ''/v1/agents'' (Register a name, sig) (register_agent (submit env) a name s)
            (\<lambda>_. AgentRegistered a))"

definition pin_shared_blocks ::
  "(bytes \<Rightarrow> bytes32) \<Rightarrow> cache_insert \<Rightarrow> metadata_state \<Rightarrow> block_id list \<Rightarrow> tiered_store \<Rightarrow> tiered_store" where
  "pin_shared_blocks H ins s bs t =
     fold (\<lambda>i t. if 2 \<le> block_ref_count s i then snd (pin H ins i t) else t) bs t"

text \<open>\<open>internal\<close> says that the request carries the header of node-to-node requests.\<close>

definition missing_block :: "tiered_store \<Rightarrow> block_id list \<Rightarrow> block_id option" where
  "missing_block t bs = find (\<lambda>i. \<not> tiered_contains t i) bs"

definition not_stored :: "(bytes \<Rightarrow> string) \<Rightarrow> block_id \<Rightarrow> api_error" where
  "not_stored hex i =
     ApiError 422 (Text (''block '' @ block_id_to_string hex i @ '' is not stored; upload blocks before binding''))"

definition bind_route ::
  "('vk, 'v) api_env \<Rightarrow> (bytes \<Rightarrow> string) \<Rightarrow> (bytes \<Rightarrow> bytes32) \<Rightarrow> cache_insert \<Rightarrow> bool \<Rightarrow> agent_id \<Rightarrow> cache_key
     \<Rightarrow> block_id list \<Rightarrow> cache_key option \<Rightarrow> string option \<Rightarrow> metadata_state \<Rightarrow> tiered_store
     \<Rightarrow> (api_error + 'v reply) \<times> metadata_state \<times> tiered_store" where
  "bind_route env hex H ins internal a k bs parent sig s t =
     (case verify_signature env a (bind_message a k bs parent) sig of
        Inl e \<Rightarrow> (Inl e, s, t)
      | Inr _ \<Rightarrow>
          (case (if internal then None else missing_block t bs) of
             Some i \<Rightarrow> (Inl (not_stored hex i), s, t)
           | None \<Rightarrow>
               (case bind_prefix (submit env) a k bs parent s of
                  (Inr _, s') \<Rightarrow> (Inr PrefixBound, s', pin_shared_blocks H ins s' bs t)
                | (Inl e, s') \<Rightarrow>
                    (forward_to_leader env e ''/v1/manifest/bind'' (Bind a k bs parent, sig), s', t))))"

definition link_of :: "chain_binding \<Rightarrow> cache_key \<times> block_id list \<times> cache_key option" where
  "link_of b = (cb_key b, cb_blocks b, cb_parent b)"

definition chain_route ::
  "('vk, 'v) api_env \<Rightarrow> (bytes \<Rightarrow> string) \<Rightarrow> (bytes \<Rightarrow> bytes32) \<Rightarrow> cache_insert \<Rightarrow> bool \<Rightarrow> agent_id
     \<Rightarrow> chain_binding list \<Rightarrow> string option \<Rightarrow> metadata_state \<Rightarrow> tiered_store
     \<Rightarrow> (api_error + 'v reply) \<times> metadata_state \<times> tiered_store" where
  "chain_route env hex H ins internal a cbs sig s t =
     (let links = map link_of cbs; blocks = concat (map cb_blocks cbs) in
      case verify_signature env a (chain_message a links) sig of
        Inl e \<Rightarrow> (Inl e, s, t)
      | Inr _ \<Rightarrow>
          (case (if internal then None else missing_block t blocks) of
             Some i \<Rightarrow> (Inl (not_stored hex i), s, t)
           | None \<Rightarrow>
               (case bind_chain (submit env) a cbs s of
                  (Inr _, s') \<Rightarrow>
                    (Inr (ChainBound (length cbs)), s', pin_shared_blocks H ins s' blocks t)
                | (Inl e, s') \<Rightarrow>
                    (forward_to_leader env e ''/v1/manifest/bind-chain'' (Chain a links, sig), s', t))))"

definition make_key ::
  "(bytes \<Rightarrow> bytes32) \<Rightarrow> model_fingerprint \<Rightarrow> u32 list \<Rightarrow> cache_key option \<Rightarrow> cache_key" where
  "make_key H fp tokens parent =
     (case parent of Some p \<Rightarrow> cache_key_extend H p tokens | None \<Rightarrow> cache_key_root H fp tokens)"

section \<open>Lookup\<close>

text \<open>The loop over the chain: the deepest key so far, until a key has no binding.\<close>

fun lookup_chain ::
  "(cache_key \<Rightarrow> string) \<Rightarrow> metadata_state \<Rightarrow> nat \<Rightarrow> (nat \<times> block_id list) option \<Rightarrow> cache_key list
     \<Rightarrow> (nat \<times> block_id list) option" where
  "lookup_chain bk s i best [] = best"
| "lookup_chain bk s i best (k # ks) =
     (case lookup_binding bk s k of
        Some r \<Rightarrow> lookup_chain bk s (Suc i) (Some (i, binding_blocks r)) ks
      | None \<Rightarrow> best)"

definition lookup_route ::
  "(cache_key \<Rightarrow> string) \<Rightarrow> (bytes \<Rightarrow> string) \<Rightarrow> (bytes \<Rightarrow> bytes32) \<Rightarrow> cache_insert \<Rightarrow> cache_key list \<Rightarrow> metadata_state
     \<Rightarrow> tiered_store \<Rightarrow> (nat option \<times> string list) \<times> tiered_store" where
  "lookup_route bk hex H ins chain s t =
     (case lookup_chain bk s 0 None chain of
        Some (i, blocks) \<Rightarrow>
          ((Some i, map (block_id_to_string hex) blocks),
           fold (\<lambda>j t. snd (tiered_get H ins j t)) (blocks @ child_blocks bk s (chain ! i)) t)
      | None \<Rightarrow> ((None, []), t))"

section \<open>Routing\<close>

text \<open>
  A write by its route.  The body of a lease route must contain a signature; without one the extractor
  answers 422.
\<close>

definition with_signature ::
  "string option \<Rightarrow> (string \<Rightarrow> (api_error + 'v reply) \<times> metadata_state) \<Rightarrow> metadata_state
     \<Rightarrow> (api_error + 'v reply) \<times> metadata_state" where
  "with_signature sig f s =
     (case sig of
        None \<Rightarrow> (Inl (ApiError 422 (Text ''missing field `signature`'')), s)
      | Some x \<Rightarrow> f x)"

definition chain_bindings :: "(cache_key \<times> block_id list \<times> cache_key option) list \<Rightarrow> chain_binding list" where
  "chain_bindings links = map (\<lambda>(k, bs, p). \<lparr>cb_key = k, cb_blocks = bs, cb_parent = p\<rparr>) links"

fun handle_write ::
  "('vk, 'v) api_env \<Rightarrow> (bytes \<Rightarrow> string) \<Rightarrow> (bytes \<Rightarrow> bytes32) \<Rightarrow> cache_insert \<Rightarrow> bool \<Rightarrow> signed_write \<Rightarrow> string option
     \<Rightarrow> metadata_state \<Rightarrow> tiered_store \<Rightarrow> (api_error + 'v reply) \<times> metadata_state \<times> tiered_store" where
  "handle_write env hex H ins internal (Register a name) sig s t =
     (let (r, s') = register_route env a name sig s in (r, s', t))"
| "handle_write env hex H ins internal (Bind a k bs parent) sig s t =
     bind_route env hex H ins internal a k bs parent sig s t"
| "handle_write env hex H ins internal (Chain a links) sig s t =
     chain_route env hex H ins internal a (chain_bindings links) sig s t"
| "handle_write env hex H ins internal (Lease_Begin a lease bs) sig s t =
     (let (r, s') = with_signature sig (\<lambda>x. lease_begin env lease a bs x s) s in (r, s', t))"
| "handle_write env hex H ins internal (Lease_Cancel a lease) sig s t =
     (let (r, s') = with_signature sig (\<lambda>x. lease_cancel env lease a x s) s in (r, s', t))"
| "handle_write env hex H ins internal (Lease_Renew a lease g ttl) sig s t =
     (let (r, s') = with_signature sig (\<lambda>x. lease_renew env lease a g ttl x s) s in (r, s', t))"
| "handle_write env hex H ins internal (Lease_Commit a lease k bs p expected) sig s t =
     (let (r, s') = with_signature sig
        (\<lambda>x. lease_commit env t lease a \<lparr>cb_key = k, cb_blocks = bs, cb_parent = p\<rparr> expected x s) s in (r, s', t))"

section \<open>Reads\<close>

definition strip_bearer :: "string \<Rightarrow> string option" where
  "strip_bearer v = (if take 7 v = ''Bearer '' then Some (drop 7 v) else None)"

text \<open>\<open>header\<close> is the \<^verbatim>\<open>Authorization\<close> header when it is readable text.\<close>

definition check_read_token :: "string option \<Rightarrow> string option \<Rightarrow> string option \<Rightarrow> api_error + unit" where
  "check_read_token read_token header query_token =
     (case read_token of
        None \<Rightarrow> Inr ()
      | Some expected \<Rightarrow>
          let presented = (case Option.bind header strip_bearer of Some v \<Rightarrow> Some v | None \<Rightarrow> query_token) in
          if presented = Some expected then Inr ()
          else Inl (ApiError 401 (Text ''this node requires a read token: Authorization: Bearer <token>'')))"

definition readyz :: "raft_metrics \<Rightarrow> nat \<times> string" where
  "readyz m = (if current_leader m \<noteq> None then (200, ''ready'') else (503, ''no leader''))"

definition list_agents ::
  "((agent_id, agent_record) fmap \<Rightarrow> (agent_id \<times> agent_record) list)
     \<Rightarrow> ((string, binding_record) fmap \<Rightarrow> (string \<times> binding_record) list) \<Rightarrow> string option \<Rightarrow> string option \<Rightarrow> metadata_state
     \<Rightarrow> api_error + (agent_id \<times> agent_record \<times> nat) list" where
  "list_agents agent_iter binding_iter read_token header s =
     (case check_read_token read_token header None of
        Inl e \<Rightarrow> Inl e
      | Inr _ \<Rightarrow>
          Inr (map (\<lambda>(a, r). (a, r, length (bindings_of binding_iter s a))) (agents_list agent_iter s)))"

section \<open>Signatures\<close>

definition authentic :: "('vk, 'v) api_env \<Rightarrow> agent_id \<Rightarrow> bytes \<Rightarrow> string \<Rightarrow> bool" where
  "authentic env a msg x \<longleftrightarrow>
     (\<exists>raw. signature_from_hex (hex_decode env) x = Inr raw
        \<and> agent_verify (vk_from_bytes env) (vk_verify env) a msg raw = Inr ())"

fun is_lease :: "signed_write \<Rightarrow> bool" where
  "is_lease (Register _ _) = False"
| "is_lease (Bind _ _ _ _) = False"
| "is_lease (Chain _ _) = False"
| "is_lease _ = True"

lemma verify_lease_iff: "verify_lease env a msg x = Inr () \<longleftrightarrow> authentic env a msg x"
  by (auto simp: verify_lease_def authentic_def split: sum.splits)

lemma verify_signature_iff:
  "verify_signature env a msg sig = Inr () \<longleftrightarrow>
     \<not> require_signatures env \<or> (\<exists>x. sig = Some x \<and> authentic env a msg x)"
  by (auto simp: verify_signature_def authentic_def split: sum.splits option.splits)

lemma links_of_bindings:
  "map link_of (chain_bindings links) = links"
  by (induction links) (auto simp: link_of_def chain_bindings_def)

lemmas lease_route_defs = lease_begin_def lease_commit_def lease_cancel_def lease_renew_def
lemmas open_route_defs = register_route_def bind_route_def chain_route_def

text \<open>What a route does before its signature is checked, it does without touching any state.\<close>

lemma unsigned_refused:
  assumes "handle_write env hex H ins internal w sig s t = (r, s', t')"
    and "\<nexists>x. sig = Some x \<and> authentic env (signer w) (message_of w) x"
    and "is_lease w \<or> require_signatures env"
  shows "isl r \<and> s' = s \<and> t' = t"
proof (cases "is_lease w")
  case True
  show ?thesis
  proof (cases sig)
    case None
    then show ?thesis using assms(1) True by (cases w) (auto simp: with_signature_def)
  next
    case (Some x)
    then have no: "verify_lease env (signer w) (message_of w) x \<noteq> Inr ()"
      using assms(2) by (simp add: verify_lease_iff)
    then obtain e where "verify_lease env (signer w) (message_of w) x = Inl e"
      by (cases "verify_lease env (signer w) (message_of w) x") auto
    then show ?thesis
      using assms(1) True Some by (cases w) (auto simp: with_signature_def lease_route_defs split: if_splits)
  qed
next
  case False
  then have "verify_signature env (signer w) (message_of w) sig \<noteq> Inr ()"
    using assms(2,3) by (simp add: verify_signature_iff)
  then obtain e where "verify_signature env (signer w) (message_of w) sig = Inl e"
    by (cases "verify_signature env (signer w) (message_of w) sig") auto
  then show ?thesis
    using assms(1) False by (cases w) (auto simp: open_route_defs links_of_bindings Let_def)
qed

text \<open>
  C18.  Only signed writes have an effect.  On the seven signed metadata routes (registering an agent,
  binding a prefix or a chain, and beginning, committing, cancelling and renewing a lease), lease routes
  always and the others where the node requires signatures, and also for a request another node has
  forwarded: a request that changes the replicated state or the local store, or that is answered with
  success, carries a signature that verifies under the key of the agent it names, over the canonical
  message of exactly that request.  The routes that take no signature (block uploads, replica
  requirements, membership) are not covered.
\<close>

theorem only_signed_writes:
  assumes "handle_write env hex H ins internal w sig s t = (r, s', t')" and "is_lease w \<or> require_signatures env"
    and "\<not> isl r \<or> s' \<noteq> s \<or> t' \<noteq> t"
  shows "\<exists>x. sig = Some x \<and> authentic env (signer w) (message_of w) x"
  using unsigned_refused [OF assms(1) _ assms(2)] assms(3) by blast

section \<open>Forwarding\<close>

fun request_of :: "signed_write \<Rightarrow> request" where
  "request_of (Register a name) = RegisterAgent a name"
| "request_of (Bind a k bs p) = BindPrefix a k bs p"
| "request_of (Chain a links) = BindChain a (chain_bindings links)"
| "request_of (Lease_Begin a l bs) = BeginUploadLease l a bs"
| "request_of (Lease_Cancel a l) = CancelUploadLease l a"
| "request_of (Lease_Renew a l g ttl) = RenewUploadLease l a g ttl"
| "request_of (Lease_Commit a l k bs p r) = CommitUploadLease l a \<lparr>cb_key = k, cb_blocks = bs, cb_parent = p\<rparr> r"

fun route :: "signed_write \<Rightarrow> string" where
  "route (Register _ _) = ''/v1/agents''"
| "route (Bind _ _ _ _) = ''/v1/manifest/bind''"
| "route (Chain _ _) = ''/v1/manifest/bind-chain''"
| "route (Lease_Begin _ _ _) = ''/v1/leases/begin''"
| "route (Lease_Cancel _ _) = ''/v1/leases/cancel''"
| "route (Lease_Renew _ _ _ _) = ''/v1/leases/renew''"
| "route (Lease_Commit _ _ _ _ _ _) = ''/v1/leases/commit''"

text \<open>The checks a node makes besides the signature.\<close>

fun admissible :: "bool \<Rightarrow> tiered_store \<Rightarrow> signed_write \<Rightarrow> bool" where
  "admissible internal t (Bind _ _ bs _) = (internal \<or> list_all (tiered_contains t) bs)"
| "admissible internal t (Chain _ links) =
     (internal \<or> list_all (\<lambda>(_, bs, _). list_all (tiered_contains t) bs) links)"
| "admissible internal t (Lease_Begin _ _ bs) = (bs \<noteq> [] \<and> length bs \<le> MAX_LEASE_BLOCKS)"
| "admissible internal t (Lease_Commit _ _ _ bs _ _) =
     (bs \<noteq> [] \<and> length bs \<le> MAX_LEASE_BLOCKS \<and> list_all (tiered_contains t) bs)"
| "admissible internal t _ = True"

definition accepted_signature :: "('vk, 'v) api_env \<Rightarrow> signed_write \<Rightarrow> string option \<Rightarrow> bool" where
  "accepted_signature env w sig \<longleftrightarrow>
     (\<exists>x. sig = Some x \<and> authentic env (signer w) (message_of w) x) \<or> \<not> is_lease w \<and> \<not> require_signatures env"

definition relayed :: "('vk, 'v) api_env \<Rightarrow> 'v http_result \<Rightarrow> api_error + 'v reply" where
  "relayed env answer =
     (case answer of
        NoResponse e \<Rightarrow> Inl (ApiError 502 (Text (''leader forward: '' @ e)))
      | BadBody e \<Rightarrow> Inl (ApiError 502 (Text (''leader response: '' @ e)))
      | Answer status v \<Rightarrow>
          if is_success status then Inr (Relayed v)
          else Inl (ApiError status (Text
                 (case error_field env v of Some m \<Rightarrow> m | None \<Rightarrow> ''forwarded write failed''))))"

lemma stored_none_missing: "list_all (tiered_contains t) bs \<Longrightarrow> missing_block t bs = None"
  by (auto simp: missing_block_def find_None_iff list_all_iff)

lemma stored_links:
  "list_all (\<lambda>(_, bs, _). list_all (tiered_contains t) bs) links \<Longrightarrow>
     missing_block t (concat (map cb_blocks (chain_bindings links))) = None"
  by (rule stored_none_missing, induction links) (auto simp: chain_bindings_def)

lemmas control_call_defs = register_agent_def begin_upload_lease_def commit_upload_lease_def cancel_upload_lease_def
  renew_upload_lease_def bind_prefix_def bind_chain_def on_response_def raft_write_def

text \<open>
  A follower passes a write on unchanged.  When consensus names another leader, a request that
  passes the local checks is posted to that leader on the same route with the same fields and the same
  signature, so the leader checks the same signed message; its answer is relayed with its status, and
  nothing is bound or pinned locally.
\<close>

lemma follower_relays:
  assumes "accepted_signature env w sig" and "admissible internal t w"
    and "submit env (request_of w) s = (Inl (ForwardToLeader (Some addr)), s')"
  shows "handle_write env hex H ins internal w sig s t = (relayed env (post env addr (route w) (w, sig)), s', t)"
proof (cases "is_lease w")
  case True
  then obtain x where sig: "sig = Some x" "verify_lease env (signer w) (message_of w) x = Inr ()"
    using assms(1) by (auto simp: accepted_signature_def verify_lease_iff)
  then show ?thesis
    using assms(2,3) True
    by (cases w) (auto simp: with_signature_def lease_route_defs respond_def control_call_defs forward_to_leader_def
        relayed_def list_all_iff list_ex_iff)
next
  case False
  then have "verify_signature env (signer w) (message_of w) sig = Inr ()"
    using assms(1) by (auto simp: accepted_signature_def verify_signature_iff)
  then show ?thesis
    using assms(2,3) False
    by (cases w) (auto simp: open_route_defs links_of_bindings Let_def respond_def control_call_defs forward_to_leader_def
        relayed_def stored_none_missing stored_links)
qed

section \<open>The longest bound prefix\<close>

lemma lookup_chain_longest:
  "lookup_chain bk s i best ks =
     (let n = length (takeWhile (\<lambda>k. lookup_binding bk s k \<noteq> None) ks) in
      if n = 0 then best else Some (i + n - 1, binding_blocks (the (lookup_binding bk s (ks ! (n - 1))))))"
proof (induction bk s i best ks rule: lookup_chain.induct)
  case (2 bk s i best k ks)
  then show ?case by (auto simp: Let_def nth_Cons' split: option.splits)
qed simp

lemma warming_keeps_cold: "cold (fold (\<lambda>j t. snd (tiered_get H ins j t)) is t) = cold t"
proof (induction "is" arbitrary: t)
  case (Cons i "is")
  have "cold (snd (tiered_get H ins i t)) = cold t"
    by (auto simp: tiered_get_def Let_def warm_insert_def split: option.splits sum.splits)
  then show ?case using Cons by simp
qed simp

text \<open>
  C38.  A lookup finds the longest bound prefix.  The reported depth is that of the last key before the
  first one without a binding, the blocks are those of its binding in order, and there is no hit exactly
  when the first key has no binding.  Warming the tiers changes nothing on disk.
\<close>

theorem lookup_finds_longest:
  assumes "lookup_route bk hex H ins chain s t = ((depth, texts), t')"
  shows "(case depth of
            None \<Rightarrow> texts = [] \<and> (chain = [] \<or> lookup_binding bk s (chain ! 0) = None)
          | Some i \<Rightarrow> i < length chain \<and> (\<forall>j\<le>i. lookup_binding bk s (chain ! j) \<noteq> None)
              \<and> (Suc i < length chain \<longrightarrow> lookup_binding bk s (chain ! Suc i) = None)
              \<and> texts = map (block_id_to_string hex) (binding_blocks (the (lookup_binding bk s (chain ! i)))))
       \<and> cold t' = cold t"
proof -
  let ?bound = "\<lambda>k. lookup_binding bk s k \<noteq> None"
  define n where "n = length (takeWhile ?bound chain)"
  have le: "n \<le> length chain" unfolding n_def by (rule length_takeWhile_le)
  have all: "?bound (chain ! j)" if "j < n" for j
    using that takeWhile_nth [of j ?bound chain] nth_mem [of j "takeWhile ?bound chain"] set_takeWhileD
    unfolding n_def by metis
  have stop: "\<not> ?bound (chain ! n)" if "n < length chain"
    using that nth_length_takeWhile [of ?bound chain] unfolding n_def by simp
  have found: "lookup_chain bk s 0 None chain =
      (if n = 0 then None else Some (n - 1, binding_blocks (the (lookup_binding bk s (chain ! (n - 1))))))"
    by (simp add: lookup_chain_longest n_def Let_def)
  show ?thesis
  proof (cases "n = 0")
    case True
    then show ?thesis using assms found stop by (cases chain) (auto simp: lookup_route_def)
  next
    case False
    then have "depth = Some (n - 1)" "cold t' = cold t"
      "texts = map (block_id_to_string hex) (binding_blocks (the (lookup_binding bk s (chain ! (n - 1)))))"
      using assms found warming_keeps_cold by (auto simp: lookup_route_def)
    moreover have "n - 1 < length chain" "\<forall>j\<le>n - 1. ?bound (chain ! j)"
      "Suc (n - 1) < length chain \<longrightarrow> \<not> ?bound (chain ! Suc (n - 1))"
      using False le all stop by auto
    ultimately show ?thesis by simp
  qed
qed

section \<open>Concrete requests\<close>

text \<open>A signature scheme for concrete inputs: the key twice, whatever the message.\<close>

definition example_signature :: "agent_id \<Rightarrow> string" where
  "example_signature a = simple_hex_encode (as_bytes (agent_bytes a) @ as_bytes (agent_bytes a))"

definition example_env :: "(bytes32, nat) api_env" where
  "example_env =
     \<lparr>hex_decode = simple_hex_decode, vk_from_bytes = Some,
      vk_verify = (\<lambda>k msg sig. sig = as_bytes k @ as_bytes k), submit = direct_write (\<lambda>_. []),
      post = (\<lambda>_ _ _. Answer 200 7), error_field = (\<lambda>_. None), require_signatures = True\<rparr>"

definition follower_env :: "(bytes32, nat) api_env" where
  "follower_env = example_env\<lparr>submit := (\<lambda>_ s. (Inl (ForwardToLeader (Some ''leader'')), s))\<rparr>"

definition example_tiers :: tiered_store where
  "example_tiers = tiered_new empty_store 0"

lemma example_authentic:
  "authentic example_env a msg (example_signature a)" "authentic follower_env a msg (example_signature a)"
  by (auto simp: authentic_def example_env_def follower_env_def example_signature_def signature_from_hex_def
      simple_hex_roundtrip agent_verify_def)

theorem only_signed_writes_witness:
  "\<exists>x. Some (example_signature the_agent) = Some x
     \<and> authentic example_env the_agent (lease_cancel_message the_agent lease_one) x"
proof -
  let ?w = "Lease_Cancel the_agent lease_one"
  have "verify_lease example_env the_agent (lease_cancel_message the_agent lease_one) (example_signature the_agent) = Inr ()"
    using example_authentic(1) by (simp add: verify_lease_iff)
  moreover have "cancel_upload_lease (submit example_env) lease_one the_agent leased = (Inr (), snd after_cancel)"
    using after_cancel_run by (simp add: example_env_def call_defs)
  ultimately have "handle_write example_env simple_hex_encode length_hash fmupd False ?w (Some (example_signature the_agent)) leased
      example_tiers = (Inr (Cancelled lease_one), snd after_cancel, example_tiers)"
    by (simp add: with_signature_def lease_cancel_def respond_def)
  from only_signed_writes [OF this] show ?thesis by simp
qed

lemma follower_relays_witness:
  "handle_write follower_env simple_hex_encode length_hash fmupd False (Lease_Cancel the_agent lease_one)
     (Some (example_signature the_agent)) leased example_tiers = (Inr (Relayed 7), leased, example_tiers)"
proof -
  let ?w = "Lease_Cancel the_agent lease_one"
  have "accepted_signature follower_env ?w (Some (example_signature the_agent))"
    using example_authentic(2) by (simp add: accepted_signature_def)
  moreover have "submit follower_env (request_of ?w) leased = (Inl (ForwardToLeader (Some ''leader'')), leased)"
    by (simp add: follower_env_def)
  ultimately show ?thesis
    using follower_relays [of follower_env ?w "Some (example_signature the_agent)" False example_tiers leased "''leader''" leased]
    by (simp add: relayed_def follower_env_def example_env_def is_success_def)
qed

definition bound_state :: metadata_state where
  "bound_state = default_state\<lparr>bindings := fmap_of_list
     [([], \<lparr>binding_agent = the_agent, binding_blocks = [the_block]\<rparr>)]\<rparr>"

theorem lookup_finds_longest_witness:
  "\<exists>t'. lookup_route (\<lambda>_. []) simple_hex_encode length_hash fmupd [cb_key the_binding] bound_state example_tiers
      = ((Some 0, [block_id_to_string simple_hex_encode the_block]), t') \<and> cold t' = cold example_tiers"
proof -
  obtain t' where run: "lookup_route (\<lambda>_. []) simple_hex_encode length_hash fmupd [cb_key the_binding] bound_state example_tiers
      = ((Some 0, [block_id_to_string simple_hex_encode the_block]), t')"
    by (simp add: lookup_route_def lookup_binding_def bound_state_def)
  with lookup_finds_longest [OF run] show ?thesis by blast
qed

end
