(* ===== verification/Retention.thy ===== *)
theory Retention
  imports Log_Recovery Kalpak_Core
begin

text \<open>
  \<^verbatim>\<open>kalpakdb/src/retention.rs\<close>: the journal of upload guards, over the file system of \<open>Durability\<close>, and the
  local exclusion of writes and release checks.  The hash is an argument, and so is the order in which
  a hash set is iterated (\<open>order\<close>, for which \<open>lists_set\<close> says that it lists every element once).
\<close>

section \<open>State\<close>

record retention =
  rt_file :: nat
  rt_ids :: "(block_id, u64) fmap"
  rt_sequence :: u64
  rt_bytes :: u64
  rt_failed :: bool
  rt_active :: "(block_id, nat) fmap"
  rt_release_checks :: "block_id fset"

definition HEADER :: nat where "HEADER = 56"
definition MAX_BATCH :: nat where "MAX_BATCH = 4096"
definition MAX_IDS :: nat where "MAX_IDS = 1048576"
definition MAX_BYTES :: u64 where "MAX_BYTES = 128 * 1024 * 1024"
definition RETENTION_NAME :: string where "RETENTION_NAME = ''upload-retention.log''"
definition GC_REASON :: string where
  "GC_REASON = ''compaction blocked: upload retention requires a coordinated GC watermark''"

lemmas retention_consts = HEADER_def MAX_BATCH_def MAX_IDS_def MAX_BYTES_def

definition lists_set :: "('a fset \<Rightarrow> 'a list) \<Rightarrow> bool" where
  "lists_set order \<longleftrightarrow> (\<forall>S. set (order S) = fset S \<and> distinct (order S))"

section \<open>Opening\<close>

definition UL01 :: bytes where "UL01 = str_bytes ''KLPKUL01''"
definition UL02 :: bytes where "UL02 = str_bytes ''KLPKUL02''"

text \<open>\<^verbatim>\<open>as_chunks::<32>().0\<close>: the complete chunks.\<close>

function chunks32 :: "bytes \<Rightarrow> block_id list" where
  "chunks32 bs = (if length bs < 32 then [] else BlockId (the (try_bytes32 (take 32 bs))) # chunks32 (drop 32 bs))"
  by auto
termination by (relation "measure length") auto

declare chunks32.simps [simp del]

definition header_ok :: "(bytes \<Rightarrow> bytes32) \<Rightarrow> bytes \<Rightarrow> bool" where
  "header_ok H header \<longleftrightarrow>
     (slice 0 8 header = UL01 \<or> slice 0 8 header = UL02) \<and> slice 12 16 header = [0, 0, 0, 0]
     \<and> as_bytes (H (slice 0 24 header)) = slice 24 56 header"

text \<open>
  The body of the loop in \<open>open\<close> on what remains of the file: an error, the end (the file ran out of
  bytes), or the new map, the sequence number and the bytes consumed.
\<close>

definition next_record ::
  "(bytes \<Rightarrow> bytes32) \<Rightarrow> bytes \<Rightarrow> (block_id, u64) fmap \<Rightarrow> u64
     \<Rightarrow> string + ((block_id, u64) fmap \<times> u64 \<times> nat) option" where
  "next_record H data ids sq =
     (if length data < HEADER then Inr None
      else
        let header = take HEADER data in
        if \<not> header_ok H header then Inl ''corrupt upload retention header''
        else
          let count = unat (u32_from_le (slice 8 12 header)); nx = u64_from_le (slice 16 24 header) in
          if \<not> (1 \<le> count \<and> count \<le> MAX_BATCH) \<or> checked_add sq 1 \<noteq> Some nx
          then Inl ''invalid upload retention record''
          else
            let rest = drop HEADER data; size = count * 32 + 32 in
            if length rest < size then Inr None
            else
              let body = take size rest in
              if as_bytes (H (take (count * 32) body)) \<noteq> drop (count * 32) body
              then Inl ''corrupt upload retention payload''
              else
                let ids = fold (\<lambda>i. fmupd i nx) (chunks32 (take (count * 32) body)) ids in
                if MAX_IDS < fmsize ids then Inl ''upload retention capacity exceeded''
                else Inr (Some (ids, nx, HEADER + size)))"

lemma next_record_used:
  assumes "next_record H data ids sq = Inr (Some (ids', nx, used))"
  shows "0 < used" and "used \<le> length data" and "fmsize ids' \<le> MAX_IDS"
  using assms by (auto simp: next_record_def Let_def HEADER_def split: if_splits)

lemma next_record_shorter:
  "next_record H data ids sq = Inr (Some (ids', nx, used)) \<Longrightarrow> length data - used < length data"
  using next_record_used(1,2) [of H data ids sq ids' nx used] by linarith

function read_records ::
  "(bytes \<Rightarrow> bytes32) \<Rightarrow> bytes \<Rightarrow> (block_id, u64) fmap \<Rightarrow> u64 \<Rightarrow> u64
     \<Rightarrow> string + (block_id, u64) fmap \<times> u64 \<times> u64" where
  "read_records H data ids sq n =
     (case next_record H data ids sq of
        Inl e \<Rightarrow> Inl e
      | Inr None \<Rightarrow> Inr (ids, sq, n)
      | Inr (Some (ids, nx, used)) \<Rightarrow> read_records H (drop used data) ids nx (n + of_nat used))"
  by auto
termination
  by (relation "measure (\<lambda>(H, data, ids, sq, n). length data)") (use next_record_shorter in auto)

declare read_records.simps [simp del]

text \<open>The calls that may fail after the file was read: \<^verbatim>\<open>set_len\<close>, \<^verbatim>\<open>sync_all\<close> and syncing the directory.\<close>

definition open_retention ::
  "(bytes \<Rightarrow> bytes32) \<Rightarrow> fault \<Rightarrow> file_system \<Rightarrow> (string + retention) \<times> file_system" where
  "open_retention H fault fs =
     (let (i, opened) = open_append RETENTION_NAME fs in
      if (case fault of FaultAt k _ \<Rightarrow> k = 0 | NoFault \<Rightarrow> False) then (Inl ''open'', fs)
      else if unat MAX_BYTES < length (contents opened i)
      then (Inl ''upload retention journal exceeds capacity'', opened)
      else
        case read_records H (contents opened i) fmempty 0 0 of
          Inl e \<Rightarrow> (Inl e, opened)
        | Inr (ids, sq, n) \<Rightarrow>
            let cut = set_len i (unat n) opened;
                synced = sync_file i cut;
                st = \<lparr>rt_file = i, rt_ids = ids, rt_sequence = sq, rt_bytes = n, rt_failed = False,
                      rt_active = fmempty, rt_release_checks = {||}\<rparr>
            in case fault of
                 NoFault \<Rightarrow> (Inr st, sync_directory synced)
               | FaultAt k _ \<Rightarrow>
                   if k \<le> 1 then (Inl ''set_len'', opened)
                   else if k = 2 then (Inl ''sync'', cut)
                   else if k = 3 then (Inl ''sync directory'', synced)
                   else (Inr st, sync_directory synced))"

section \<open>Guards\<close>

definition retention_record :: "(bytes \<Rightarrow> bytes32) \<Rightarrow> u64 \<Rightarrow> block_id list \<Rightarrow> bytes" where
  "retention_record H nx is =
     (let head = UL02 @ u32_le (of_nat (length is)) @ [0, 0, 0, 0] @ u64_le nx;
          body = concat (map (\<lambda>i. as_bytes (block_bytes i)) is)
      in head @ as_bytes (H head) @ body @ as_bytes (H body))"

datatype retention_error = RetentionIo string | WouldBlock string | InvalidInput string

text \<open>
  \<open>protect\<close>: on success the result is the guard, the set of blocks it holds.  The write may fail after
  some bytes, and the sync may fail.
\<close>

definition protect ::
  "(bytes \<Rightarrow> bytes32) \<Rightarrow> (block_id fset \<Rightarrow> block_id list) \<Rightarrow> fault \<Rightarrow> block_id list \<Rightarrow> retention \<Rightarrow> file_system
     \<Rightarrow> (retention_error + block_id fset) \<times> retention \<times> file_system" where
  "protect H order fault is st fs =
     (if MAX_BATCH < length is then (Inl (RetentionIo ''upload retention batch too large''), st, fs)
      else if rt_failed st
      then (Inl (RetentionIo ''upload retention journal needs restart after I/O failure''), st, fs)
      else
        let requested = fset_of_list is in
        if \<not> fBall requested (\<lambda>i. i |\<notin>| rt_release_checks st)
        then (Inl (WouldBlock ''block reserved by local release check''), st, fs)
        else if requested = {||} then (Inr requested, st, fs)
        else
          let fresh = fcard (ffilter (\<lambda>i. \<not> contains_key (rt_ids st) i) requested) in
          case checked_add (rt_sequence st) 1 of
            None \<Rightarrow> (Inl (RetentionIo ''upload retention sequence exhausted''), st, fs)
          | Some nx \<Rightarrow>
              let size = HEADER + fcard requested * 32 + 32 in
              if MAX_IDS < fmsize (rt_ids st) + fresh \<or> MAX_BYTES < rt_bytes st + of_nat size
              then (Inl (RetentionIo ''upload retention capacity exhausted; safe reclamation is not implemented''), st, fs)
              else
                let data = retention_record H nx (order requested);
                    wrote = write_append (rt_file st) data fs;
                    st' = st\<lparr>rt_sequence := nx, rt_bytes := rt_bytes st + of_nat size,
                      rt_ids := fold (\<lambda>i. fmupd i nx) (order requested) (rt_ids st),
                      rt_active := fold (\<lambda>i m. fmupd i (case fmlookup m i of None \<Rightarrow> 1 | Some k \<Rightarrow> k + 1) m)
                        (order requested) (rt_active st)\<rparr>
                in case fault of
                     NoFault \<Rightarrow> (Inr requested, st', sync_file (rt_file st) wrote)
                   | FaultAt n m \<Rightarrow>
                       if n = 0 then (Inl (RetentionIo ''write''), st\<lparr>rt_failed := True\<rparr>,
                                      write_append (rt_file st) (take m data) fs)
                       else if n = 1 then (Inl (RetentionIo ''sync''), st\<lparr>rt_failed := True\<rparr>, wrote)
                       else (Inr requested, st', sync_file (rt_file st) wrote))"

text \<open>Dropping a guard; a block without a counter panics (\<open>None\<close>).\<close>

fun drop_guard :: "block_id list \<Rightarrow> retention \<Rightarrow> retention option" where
  "drop_guard [] st = Some st"
| "drop_guard (i # is) st =
     (case fmlookup (rt_active st) i of
        None \<Rightarrow> None
      | Some n \<Rightarrow>
          drop_guard is (st\<lparr>rt_active :=
            (if n - 1 = 0 then fmdrop i (rt_active st) else fmupd i (n - 1) (rt_active st))\<rparr>))"

definition try_release_check ::
  "block_id \<Rightarrow> u64 \<Rightarrow> retention \<Rightarrow> (retention_error + block_id) \<times> retention" where
  "try_release_check i expected st =
     (if rt_failed st then (Inl (RetentionIo ''retention journal failed''), st)
      else if expected = 0 \<or> fmlookup (rt_ids st) i \<noteq> Some expected
      then (Inl (InvalidInput ''unknown or stale local generation''), st)
      else if contains_key (rt_active st) i \<or> i |\<in>| rt_release_checks st
      then (Inl (WouldBlock ''block has an active local operation''), st)
      else (Inr i, st\<lparr>rt_release_checks := finsert i (rt_release_checks st)\<rparr>))"

definition drop_release_check :: "block_id \<Rightarrow> retention \<Rightarrow> retention" where
  "drop_release_check i st = st\<lparr>rt_release_checks := rt_release_checks st |-| {|i|}\<rparr>"

section \<open>Reports\<close>

record guard_evidence =
  ge_guarded :: bool
  ge_local_generation :: "u64 option"
  ge_active_local_writes :: nat
  ge_local_release_check :: bool
  ge_journal_sequence :: u64
  ge_write_failed :: bool

definition guard_evidence_of :: "retention \<Rightarrow> block_id \<Rightarrow> guard_evidence" where
  "guard_evidence_of st i =
     \<lparr>ge_guarded = contains_key (rt_ids st) i, ge_local_generation = fmlookup (rt_ids st) i,
      ge_active_local_writes = (case fmlookup (rt_active st) i of None \<Rightarrow> 0 | Some n \<Rightarrow> n),
      ge_local_release_check = i |\<in>| rt_release_checks st, ge_journal_sequence = rt_sequence st,
      ge_write_failed = rt_failed st\<rparr>"

record retention_snapshot =
  rs_guarded_blocks :: nat
  rs_journal_bytes :: u64
  rs_write_failed :: bool

definition retention_snapshot_of :: "retention \<Rightarrow> retention_snapshot" where
  "retention_snapshot_of st =
     \<lparr>rs_guarded_blocks = fmsize (rt_ids st), rs_journal_bytes = rt_bytes st, rs_write_failed = rt_failed st\<rparr>"

definition gc_reason :: string where "gc_reason = GC_REASON"

section \<open>Reading the journal back\<close>

lemma chunks32_concat: "chunks32 (concat (map (\<lambda>i. as_bytes (block_bytes i)) is)) = is"
proof (induction "is")
  case Nil
  then show ?case by (subst chunks32.simps) simp
next
  case (Cons i "is")
  then show ?case by (subst chunks32.simps) simp
qed

lemma length_ids: "length (concat (map (\<lambda>i. as_bytes (block_bytes i)) is)) = length is * 32"
  by (induction "is") simp_all

lemma length_record: "length (retention_record H nx is) = HEADER + length is * 32 + 32"
  by (simp add: retention_record_def length_ids UL02_def HEADER_def Let_def)

text \<open>The fields of a record, whatever follows it.\<close>

lemma record_fields:
  fixes H :: "bytes \<Rightarrow> bytes32" and nx :: u64 and rest :: bytes
  assumes "length is \<le> MAX_BATCH"
  defines "data \<equiv> retention_record H nx is @ rest"
  shows "header_ok H (take HEADER data)" and "unat (u32_from_le (slice 8 12 (take HEADER data))) = length is"
    and "u64_from_le (slice 16 24 (take HEADER data)) = nx"
    and "drop HEADER data = concat (map (\<lambda>i. as_bytes (block_bytes i)) is)
      @ as_bytes (H (concat (map (\<lambda>i. as_bytes (block_bytes i)) is))) @ rest"
proof -
  define head where "head = UL02 @ u32_le (of_nat (length is)) @ [0, 0, 0, 0] @ u64_le nx"
  let ?body = "concat (map (\<lambda>i. as_bytes (block_bytes i)) is)"
  have len: "length UL02 = 8" "length head = 24" by (simp_all add: UL02_def head_def)
  have data: "data = head @ as_bytes (H head) @ ?body @ as_bytes (H ?body) @ rest"
    by (simp add: data_def retention_record_def head_def Let_def)
  have front: "take HEADER data = head @ as_bytes (H head)" by (simp add: data len HEADER_def)
  have fields: "slice 0 8 (head @ x) = UL02" "slice 8 12 (head @ x) = u32_le (of_nat (length is))"
    "slice 12 16 (head @ x) = [0, 0, 0, 0]" "slice 16 24 (head @ x) = u64_le nx" for x
    using len(1) by (simp_all add: slice_def head_def)
  show "header_ok H (take HEADER data)"
    using len(2) unfolding front header_ok_def by (simp add: fields) (simp add: slice_def)
  show "unat (u32_from_le (slice 8 12 (take HEADER data))) = length is"
    using assms(1) unfolding front by (simp add: fields unat_of_nat MAX_BATCH_def)
  show "u64_from_le (slice 16 24 (take HEADER data)) = nx" unfolding front by (simp add: fields)
  show "drop HEADER data = ?body @ as_bytes (H ?body) @ rest" using len(2) by (simp add: data HEADER_def)
qed

lemma next_record_written:
  assumes "1 \<le> length is" "length is \<le> MAX_BATCH" and "checked_add sq 1 = Some nx"
    and "fmsize (fold (\<lambda>i. fmupd i nx) is ids) \<le> MAX_IDS"
  shows "next_record H (retention_record H nx is @ rest) ids sq =
    Inr (Some (fold (\<lambda>i. fmupd i nx) is ids, nx, HEADER + length is * 32 + 32))"
proof -
  have len: "\<not> length (retention_record H nx is @ rest) < HEADER" by (simp add: length_record)
  show ?thesis
    using assms record_fields [OF assms(2), of H nx rest] len
    by (simp add: next_record_def length_ids chunks32_concat Let_def add.assoc)
qed

lemma read_record:
  assumes "1 \<le> length is" "length is \<le> MAX_BATCH" and "checked_add sq 1 = Some nx"
    and "fmsize (fold (\<lambda>i. fmupd i nx) is ids) \<le> MAX_IDS"
  shows "read_records H (retention_record H nx is @ rest) ids sq n =
    read_records H rest (fold (\<lambda>i. fmupd i nx) is ids) nx (n + of_nat (HEADER + length is * 32 + 32))"
  by (subst read_records.simps) (simp add: next_record_written [OF assms] length_record)

lemma read_torn_record:
  assumes "1 \<le> length is" "length is \<le> MAX_BATCH" and "checked_add sq 1 = Some nx"
    and "k < length (retention_record H nx is)"
  shows "read_records H (take k (retention_record H nx is)) ids sq n = Inr (ids, sq, n)"
proof -
  let ?data = "take k (retention_record H nx is)"
  have "next_record H ?data ids sq = Inr None"
  proof (cases "k < HEADER")
    case True
    then have "length ?data < HEADER" by simp
    then show ?thesis unfolding next_record_def by (simp only: if_True)
  next
    case False
    have front: "take HEADER ?data = take HEADER (retention_record H nx is @ [])" using False by (simp add: min_def)
    have "length (drop HEADER ?data) < length is * 32 + 32"
      using assms(4) length_record [of H nx "is"] by (simp add: min_def)
    moreover have "\<not> length ?data < HEADER" using False by (simp add: length_record)
    ultimately show ?thesis
      using record_fields(1-3) [OF assms(2), of H nx "[]"] assms(1-3)
      by (simp add: next_record_def front Let_def del: take_take append_Nil2)
  qed
  then show ?thesis by (subst read_records.simps) simp
qed

text \<open>A record reads the same whatever follows it.\<close>

lemma next_record_local:
  assumes "next_record H data ids sq = Inr (Some (ids', nx, used))"
  shows "next_record H (take used data @ rest) ids sq = Inr (Some (ids', nx, used))"
proof -
  define size where "size = unat (u32_from_le (slice 8 12 (take HEADER data))) * 32 + 32"
  have used: "used = HEADER + size" "HEADER \<le> length data" "size \<le> length (drop HEADER data)"
    using assms by (auto simp: next_record_def size_def Let_def not_less split: if_splits)
  let ?data = "take used data @ rest"
  have same: "take HEADER ?data = take HEADER data" "take size (drop HEADER ?data) = take size (drop HEADER data)"
    using used by (simp_all add: take_add drop_take)
  have len: "\<not> length ?data < HEADER" "\<not> length (drop HEADER ?data) < size" "\<not> length data < HEADER"
      "\<not> length (drop HEADER data) < size"
    using used by simp_all
  show ?thesis
    using assms unfolding next_record_def Let_def same(1) size_def [symmetric] same(2)
    by (simp only: len if_False)
qed

lemma fold_insert_size: "fmsize m \<le> fmsize (fold (\<lambda>i. fmupd i v) xs m)"
  by (induction xs arbitrary: m) (auto intro: order_trans [OF fmsize_le_fmupd])

lemma read_records_prefix:
  assumes "read_records H data ids sq n = Inr (ids', sq', n')"
  shows "\<exists>m\<le>length data. n' = n + of_nat m
    \<and> (\<forall>rest. read_records H (take m data @ rest) ids sq n = read_records H rest ids' sq' n')
    \<and> (fmsize ids \<le> MAX_IDS \<longrightarrow> fmsize ids' \<le> MAX_IDS)"
  using assms
proof (induction H data ids sq n rule: read_records.induct)
  case (1 H data ids sq n)
  consider (stop) "next_record H data ids sq = Inr None"
    | (more) ids1 nx used where "next_record H data ids sq = Inr (Some (ids1, nx, used))"
    using 1(2) by (subst (asm) read_records.simps) (auto split: sum.splits option.splits)
  then show ?case
  proof cases
    case stop
    then have "ids' = ids" "sq' = sq" "n' = n"
      using 1(2) by (subst (asm) read_records.simps, simp)+
    then show ?thesis by (intro exI [of _ 0]) simp
  next
    case (more ids1 nx used)
    note used = next_record_used [OF more]
    have rest: "read_records H (drop used data) ids1 nx (n + of_nat used) = Inr (ids', sq', n')"
      using 1(2) more by (subst (asm) read_records.simps) simp
    obtain m where m: "m \<le> length (drop used data)" "n' = n + of_nat used + of_nat m"
      "\<forall>rest. read_records H (take m (drop used data) @ rest) ids1 nx (n + of_nat used) = read_records H rest ids' sq' n'"
      "fmsize ids1 \<le> MAX_IDS \<longrightarrow> fmsize ids' \<le> MAX_IDS"
      using 1(1) [OF more refl refl refl rest] by blast
    have "read_records H (take (used + m) data @ rest) ids sq n = read_records H rest ids' sq' n'" for rest
    proof -
      have "take (used + m) data @ rest = take used data @ (take m (drop used data) @ rest)"
        by (simp add: take_add)
      then show ?thesis
        using next_record_local [OF more, of "take m (drop used data) @ rest"] m(3) used(2)
        by (subst read_records.simps) simp
    qed
    then show ?thesis
      using m(1,2,4) used(2,3) by (intro exI [of _ "used + m"]) (auto simp: add.assoc)
  qed
qed

section \<open>The journal on disk\<close>

text \<open>The file is durable and reads back to the guards in memory, whatever is appended to it.\<close>

definition journal_ok :: "(bytes \<Rightarrow> bytes32) \<Rightarrow> retention \<Rightarrow> file_system \<Rightarrow> bool" where
  "journal_ok H st fs \<longleftrightarrow>
     fs_ok fs \<and> fmlookup (dir fs) RETENTION_NAME = Some (rt_file st) \<and> fmsize (rt_ids st) \<le> MAX_IDS
     \<and> rt_bytes st \<le> MAX_BYTES
     \<and> (\<exists>data. durable_as fs RETENTION_NAME (Some data) \<and> length data = unat (rt_bytes st)
          \<and> (\<forall>rest. read_records H (data @ rest) fmempty 0 0 =
               read_records H rest (rt_ids st) (rt_sequence st) (rt_bytes st)))"

lemma read_nothing: "read_records H [] ids sq n = Inr (ids, sq, n)"
  by (subst read_records.simps) (simp add: next_record_def HEADER_def)

text \<open>Opening a settled directory whose journal can be read.\<close>

lemma open_journal:
  assumes "fs_ok fs" and "read_file fs RETENTION_NAME = Some data" and "length data \<le> unat MAX_BYTES"
    and "read_records H data fmempty 0 0 = Inr (ids, sq, n)"
  shows "\<exists>st. fst (open_retention H NoFault fs) = Inr st \<and> rt_ids st = ids \<and> rt_sequence st = sq
    \<and> journal_ok H st (snd (open_retention H NoFault fs))"
proof -
  obtain i where i: "fmlookup (dir fs) RETENTION_NAME = Some i" "contents fs i = data"
    using assms(2) by (auto simp: read_file_def)
  then have op: "open_append RETENTION_NAME fs = (i, fs)" by (simp add: open_append_def)
  obtain m where m: "m \<le> length data" "n = of_nat m" "fmsize ids \<le> MAX_IDS"
    "\<forall>rest. read_records H (take m data @ rest) fmempty 0 0 = read_records H rest ids sq n"
    using read_records_prefix [OF assms(4)] by auto
  have n: "unat n = m" "n \<le> MAX_BYTES"
  proof -
    have "m \<le> unat MAX_BYTES" using m(1) assms(3) by simp
    moreover from this show "unat n = m"
      unfolding m(2) using unat_lt [of MAX_BYTES] by (simp add: unat_of_nat)
    ultimately show "n \<le> MAX_BYTES" by (simp add: word_le_nat_alt)
  qed
  define st where "st = \<lparr>rt_file = i, rt_ids = ids, rt_sequence = sq, rt_bytes = n, rt_failed = False,
      rt_active = fmempty, rt_release_checks = {||}\<rparr>"
  define final where "final = sync_directory (sync_file i (set_len i m fs))"
  have run: "open_retention H NoFault fs = (Inr st, final)"
    using assms(3,4) i(2) op n(1) by (simp add: open_retention_def st_def final_def)
  have "durable_as final RETENTION_NAME (Some (take m data))"
    using i m(1) assms(1)
    by (auto simp: final_def durable_as_def sync_directory_def sync_file_def set_len_def fs_ok_def)
  moreover have "fs_ok final"
    using assms(1) by (auto simp: final_def sync_directory_def sync_file_def set_len_def fs_ok_def)
  moreover have "fmlookup (dir final) RETENTION_NAME = Some i"
    using i(1) by (simp add: final_def sync_directory_def sync_file_def set_len_def)
  moreover have "length (take m data) = unat n" using m(1) n(1) by simp
  ultimately have "journal_ok H st final"
    unfolding journal_ok_def using m(3,4) n(2)
    by (simp add: st_def del: length_take) (rule exI [of _ "take m data"], simp)
  then show ?thesis using run by (simp add: st_def)
qed

text \<open>What a protect writes.\<close>

lemma protect_cases:
  assumes "lists_set order" and "protect H order fault is st fs = (r, st', fs')"
  obtains (refused) e where "r = Inl e" "st' = st" "fs' = fs"
    | (empty) "r = Inr {||}" "st' = st" "fs' = fs" "is = []"
    | (failed) e k nx where "r = Inl e" "st' = st\<lparr>rt_failed := True\<rparr>"
        "checked_add (rt_sequence st) 1 = Some nx" "is \<noteq> []" "length is \<le> MAX_BATCH"
        "fmsize (rt_ids st) + fcard (ffilter (\<lambda>i. \<not> contains_key (rt_ids st) i) (fset_of_list is)) \<le> MAX_IDS"
        "rt_bytes st + of_nat (HEADER + fcard (fset_of_list is) * 32 + 32) \<le> MAX_BYTES"
        "fs' = write_append (rt_file st) (take k (retention_record H nx (order (fset_of_list is)))) fs"
    | (protected) nx where "r = Inr (fset_of_list is)" "checked_add (rt_sequence st) 1 = Some nx" "is \<noteq> []"
        "length is \<le> MAX_BATCH" "\<forall>i\<in>set is. i |\<notin>| rt_release_checks st"
        "fmsize (rt_ids st) + fcard (ffilter (\<lambda>i. \<not> contains_key (rt_ids st) i) (fset_of_list is)) \<le> MAX_IDS"
        "rt_bytes st + of_nat (HEADER + fcard (fset_of_list is) * 32 + 32) \<le> MAX_BYTES"
        "st' = st\<lparr>rt_sequence := nx, rt_bytes := rt_bytes st + of_nat (HEADER + fcard (fset_of_list is) * 32 + 32),
           rt_ids := fold (\<lambda>i. fmupd i nx) (order (fset_of_list is)) (rt_ids st),
           rt_active := fold (\<lambda>i m. fmupd i (case fmlookup m i of None \<Rightarrow> 1 | Some k \<Rightarrow> k + 1) m)
             (order (fset_of_list is)) (rt_active st)\<rparr>"
        "fs' = sync_file (rt_file st) (write_append (rt_file st) (retention_record H nx (order (fset_of_list is))) fs)"
proof -
  let ?R = "fset_of_list is" and ?data = "\<lambda>nx. retention_record H nx (order (fset_of_list is))"
  let ?st = "\<lambda>nx. st\<lparr>rt_sequence := nx, rt_bytes := rt_bytes st + of_nat (HEADER + fcard ?R * 32 + 32),
           rt_ids := fold (\<lambda>i. fmupd i nx) (order ?R) (rt_ids st),
           rt_active := fold (\<lambda>i m. fmupd i (case fmlookup m i of None \<Rightarrow> 1 | Some k \<Rightarrow> k + 1) m)
             (order ?R) (rt_active st)\<rparr>"
  show thesis
  proof (cases "MAX_BATCH < length is \<or> rt_failed st \<or> \<not> (\<forall>i\<in>set is. i |\<notin>| rt_release_checks st)")
    case True
    then have "(\<exists>e. r = Inl e) \<and> st' = st \<and> fs' = fs"
      using assms(2) by (auto simp: protect_def Let_def fset_of_list.rep_eq split: if_splits)
    then show thesis using refused by blast
  next
    case False
    have free: "fBall ?R (\<lambda>i. i |\<notin>| rt_release_checks st)" using False by (auto simp: fset_of_list.rep_eq)
    show thesis
    proof (cases "is = []")
      case True
      then show thesis using assms(2) False free empty by (simp add: protect_def)
    next
      case nonempty: False
      then have ne: "?R \<noteq> {||}" by (cases "is") simp_all
      let ?full = "MAX_IDS < fmsize (rt_ids st) + fcard (ffilter (\<lambda>i. \<not> contains_key (rt_ids st) i) ?R)
        \<or> MAX_BYTES < rt_bytes st + of_nat (HEADER + fcard ?R * 32 + 32)"
      show thesis
      proof (cases "checked_add (rt_sequence st) 1")
        case None
        then show thesis using assms(2) False free ne refused by (auto simp: protect_def Let_def)
      next
        case (Some nx)
        have run: "protect H order fault is st fs =
          (if ?full then (Inl (RetentionIo ''upload retention capacity exhausted; safe reclamation is not implemented''), st, fs)
           else case fault of
             NoFault \<Rightarrow> (Inr ?R, ?st nx, sync_file (rt_file st) (write_append (rt_file st) (?data nx) fs))
           | FaultAt n m \<Rightarrow>
               if n = 0 then (Inl (RetentionIo ''write''), st\<lparr>rt_failed := True\<rparr>, write_append (rt_file st) (take m (?data nx)) fs)
               else if n = 1 then (Inl (RetentionIo ''sync''), st\<lparr>rt_failed := True\<rparr>, write_append (rt_file st) (?data nx) fs)
               else (Inr ?R, ?st nx, sync_file (rt_file st) (write_append (rt_file st) (?data nx) fs)))"
        proof -
          have "\<not> MAX_BATCH < length is" "\<not> rt_failed st" using False by simp_all
          moreover have "fBall ?R (\<lambda>i. i |\<notin>| rt_release_checks st) = True" using free by simp
          ultimately show ?thesis
            unfolding protect_def Let_def by (simp only: ne Some option.case if_False not_True_eq_False)
        qed
        show thesis
        proof (cases ?full)
          case True
          then show thesis using assms(2) run refused by auto
        next
          case room: False
          consider "r = Inr ?R" "st' = ?st nx" "fs' = sync_file (rt_file st) (write_append (rt_file st) (?data nx) fs)"
            | e k where "r = Inl e" "st' = st\<lparr>rt_failed := True\<rparr>"
                "fs' = write_append (rt_file st) (take k (?data nx)) fs"
          proof (cases fault)
            case NoFault
            then show thesis using that(1) assms(2) run room by simp
          next
            case (FaultAt n m)
            then show thesis
              using that(1) that(2) [of "RetentionIo ''write''" m] that(2) [of "RetentionIo ''sync''" "length (?data nx)"]
                assms(2) run room by (simp split: if_splits)
          qed
          then show thesis
            using protected [OF _ Some nonempty] failed [OF _ _ Some nonempty] False room by cases auto
        qed
      qed
    qed
  qed
qed

lemma fold_fmupd_same:
  "fmlookup (fold (\<lambda>i. fmupd i v) xs m) j = (if j \<in> set xs then Some v else fmlookup m j)"
  by (induction xs arbitrary: m) auto

lemma guarded_size:
  assumes "set xs = fset S"
  shows "fmsize (fold (\<lambda>i. fmupd i v) xs m) = fmsize m + fcard (ffilter (\<lambda>i. \<not> contains_key m i) S)"
proof -
  let ?new = "ffilter (\<lambda>i. \<not> contains_key m i) S"
  have "fmdom (fold (\<lambda>i. fmupd i v) xs m) = fmdom m |\<union>| ?new"
    using assms by (auto simp: fmlookup_dom_iff fold_fmupd_same fset_eq_iff split: if_splits)
  moreover have "fcard (fmdom m |\<union>| ?new) = fcard (fmdom m) + fcard ?new"
    unfolding fcard.rep_eq union_fset by (rule card_Un_disjoint) (auto simp: fmlookup_dom_iff)
  ultimately show ?thesis by (simp add: fmsize_def)
qed

lemma reopen_torn:
  assumes "lists_set order" and "checked_add (rt_sequence st) 1 = Some nx" "is \<noteq> []" "length is \<le> MAX_BATCH"
    and ids: "fmsize (rt_ids st) + fcard (ffilter (\<lambda>i. \<not> contains_key (rt_ids st) i) (fset_of_list is)) \<le> MAX_IDS"
    and size: "rt_bytes st + of_nat (HEADER + fcard (fset_of_list is) * 32 + 32) \<le> MAX_BYTES"
    and data: "rt_bytes st \<le> MAX_BYTES" "length data = unat (rt_bytes st)"
      "\<forall>rest. read_records H (data @ rest) fmempty 0 0 = read_records H rest (rt_ids st) (rt_sequence st) (rt_bytes st)"
    and fs: "fs_ok fs" "read_file fs RETENTION_NAME = Some (data @ take q (retention_record H nx (order (fset_of_list is))))"
  defines "rec \<equiv> retention_record H nx (order (fset_of_list is))"
  shows "\<exists>st'. fst (open_retention H NoFault fs) = Inr st' \<and> journal_ok H st' (snd (open_retention H NoFault fs))
    \<and> rt_ids st' = (if q < length rec then rt_ids st else fold (\<lambda>i. fmupd i nx) (order (fset_of_list is)) (rt_ids st))"
proof -
  let ?ids = "fold (\<lambda>i. fmupd i nx) (order (fset_of_list is)) (rt_ids st)"
  have order: "set (order (fset_of_list is)) = fset (fset_of_list is)" "length (order (fset_of_list is)) = fcard (fset_of_list is)"
    using assms(1) distinct_card [of "order (fset_of_list is)"] by (simp_all add: lists_set_def fcard.rep_eq)
  have card: "1 \<le> fcard (fset_of_list is)" "fcard (fset_of_list is) \<le> length is"
    using assms(3) card_length [of "is"] by (simp_all add: fcard.rep_eq fset_of_list.rep_eq Suc_le_eq card_gt_0_iff)
  have len: "length rec = HEADER + fcard (fset_of_list is) * 32 + 32" by (simp add: rec_def length_record order(2))
  have small: "length rec < 2 ^ 32" "unat (rt_bytes st) < 2 ^ 32"
    using card(2) assms(4) data(1) by (auto simp: len retention_consts word_le_nat_alt)
  have "unat (rt_bytes st + of_nat (length rec)) = unat (rt_bytes st) + length rec"
    using small by (intro trans [OF unat_add_fits]) (simp_all add: unat_of_nat)
  then have fits: "unat (rt_bytes st) + length rec \<le> unat MAX_BYTES"
    using size unfolding len [symmetric] by (simp add: word_le_nat_alt)
  have max: "fmsize ?ids \<le> MAX_IDS" using ids guarded_size [OF order(1), of nx "rt_ids st"] by simp
  have "1 \<le> length (order (fset_of_list is))" "length (order (fset_of_list is)) \<le> MAX_BATCH"
    using card assms(4) order(2) by simp_all
  note written = read_record [OF this assms(2) max] and cut = read_torn_record [OF this assms(2)]
  have content: "length (data @ take q rec) \<le> unat MAX_BYTES" using fits data(2) by simp
  have "\<exists>sq n. read_records H (data @ take q rec) fmempty 0 0 = Inr (if q < length rec then rt_ids st else ?ids, sq, n)"
  proof (cases "q < length rec")
    case True
    then show ?thesis using data(3) cut [of q H "rt_ids st"] by (simp add: rec_def)
  next
    case False
    then show ?thesis using data(3) written [of H "[]"] read_nothing by (simp add: rec_def)
  qed
  then show ?thesis using open_journal [OF fs(1) _ content] fs(2) unfolding rec_def by blast
qed

section \<open>Properties\<close>

text \<open>
  C24.  An upload guard is on disk before the upload.  Start from a journal that is on disk.  Whichever
  call of \<open>protect\<close> fails and wherever the machine crashes after it, the journal can be opened again;
  it then guards every block it guarded before, with the same generation, except that the requested
  blocks may have the next generation; and after \<open>Ok\<close> they all have it.  The reopened journal is again in
  good order, below its limits.
\<close>

theorem guards_survive:
  assumes "lists_set order" and "journal_ok H st fs" and "protect H order fault is st fs = (r, st', fs')"
    and "crash fs' fs''"
  shows "\<exists>st''. fst (open_retention H NoFault fs'') = Inr st'' \<and> journal_ok H st'' (snd (open_retention H NoFault fs''))
    \<and> (rt_ids st'' = rt_ids st \<and> (is = [] \<or> isl r)
       \<or> (\<forall>i. fmlookup (rt_ids st'') i = (if i \<in> set is then Some (rt_sequence st + 1) else fmlookup (rt_ids st) i)))"
proof -
  obtain data where j: "fs_ok fs" "fmlookup (dir fs) RETENTION_NAME = Some (rt_file st)" "fmsize (rt_ids st) \<le> MAX_IDS"
    "rt_bytes st \<le> MAX_BYTES" "durable_as fs RETENTION_NAME (Some data)" "length data = unat (rt_bytes st)"
    "\<forall>rest. read_records H (data @ rest) fmempty 0 0 = read_records H rest (rt_ids st) (rt_sequence st) (rt_bytes st)"
    using assms(2) unfolding journal_ok_def by blast
  have len: "length data \<le> unat MAX_BYTES" using j(4,6) by (simp add: word_le_nat_alt)
  have ok: "fs_ok fs''" using crash_settled(1) [OF assms(4)] .
  have old: "read_records H data fmempty 0 0 = Inr (rt_ids st, rt_sequence st, rt_bytes st)"
    using j(7) [rule_format, of "[]"] by (simp add: read_nothing)
  have same: ?thesis if "fs' = fs" "is = [] \<or> isl r"
  proof -
    have "read_file fs'' RETENTION_NAME = Some data" using crash_stable [OF j(5)] assms(4) that(1) by simp
    from open_journal [OF ok this len old] show ?thesis using that(2) by blast
  qed
  have found: "\<exists>q. read_file fs'' RETENTION_NAME = Some (data @ take q w) \<and> (synced \<longrightarrow> length w \<le> q)"
    if "fs' = (if synced then sync_file (rt_file st) else id) (write_append (rt_file st) w fs)" for w synced
  proof -
    let ?i = "rt_file st"
    have fs: "contents fs ?i = data" "disk_contents fs ?i = data"
      using j(2,5) by (simp_all add: durable_as_def)
    have fs': "contents fs' ?i = data @ take (length w) w"
      "disk_contents fs' ?i = (if synced then data @ take (length w) w else data)"
      "dir fs' = dir fs" "disk_dir fs' = disk_dir fs"
      using fs that by (auto simp: write_append_def sync_file_def)
    from append_crash [OF j(5,2) fs'(3,4,1,2) assms(4)] show ?thesis by auto
  qed
  have order: "set (order (fset_of_list is)) = set is"
    using assms(1) by (simp add: lists_set_def fset_of_list.rep_eq)
  from assms(1,3) show ?thesis
  proof (cases rule: protect_cases)
    case refused
    then show ?thesis using same by simp
  next
    case empty
    then show ?thesis using same by simp
  next
    case (failed e k nx)
    let ?rec = "retention_record H nx (order (fset_of_list is))"
    obtain q where "read_file fs'' RETENTION_NAME = Some (data @ take q (take k ?rec))"
      using found [of False "take k ?rec"] failed(8) by (auto simp del: take_take)
    then have "read_file fs'' RETENTION_NAME = Some (data @ take (min q k) ?rec)" by simp
    from reopen_torn [OF assms(1) failed(3-7) j(4,6,7) ok this] show ?thesis
      using failed(1) checked_add_SomeD [OF failed(3)] by (auto simp: fold_fmupd_same order)
  next
    case (protected nx)
    let ?rec = "retention_record H nx (order (fset_of_list is))"
    obtain q where "read_file fs'' RETENTION_NAME = Some (data @ take q ?rec)" "length ?rec \<le> q"
      using found [of True ?rec] protected(9) by auto
    from reopen_torn [OF assms(1) protected(2-4,6,7) j(4,6,7) ok this(1)] this(2) show ?thesis
      using checked_add_SomeD [OF protected(2)] by (auto simp: fold_fmupd_same order)
  qed
qed

section \<open>Local exclusion\<close>

text \<open>
  The states reached from an opened journal by any interleaving of guards and release checks.  The
  lists are the guards and the checks that are held.
\<close>

inductive ret_reach ::
  "(bytes \<Rightarrow> bytes32) \<Rightarrow> (block_id fset \<Rightarrow> block_id list) \<Rightarrow> retention \<Rightarrow> block_id fset list \<Rightarrow> block_id list \<Rightarrow> bool"
  for H order where
  opened: "open_retention H f fs = (Inr st, fs') \<Longrightarrow> ret_reach H order st [] []"
| guarded: "ret_reach H order st gs cs \<Longrightarrow> protect H order f is st fs = (Inr g, st', fs') \<Longrightarrow> ret_reach H order st' (g # gs) cs"
| refused: "ret_reach H order st gs cs \<Longrightarrow> protect H order f is st fs = (Inl e, st', fs') \<Longrightarrow> ret_reach H order st' gs cs"
| dropped: "ret_reach H order st (gs @ g # gs') cs \<Longrightarrow> drop_guard (order g) st = Some st' \<Longrightarrow> ret_reach H order st' (gs @ gs') cs"
| checked: "ret_reach H order st gs cs \<Longrightarrow> try_release_check i n st = (Inr j, st') \<Longrightarrow> ret_reach H order st' gs (i # cs)"
| released: "ret_reach H order st gs (cs @ i # cs') \<Longrightarrow> ret_reach H order (drop_release_check i st) gs (cs @ cs')"

definition holders :: "block_id fset list \<Rightarrow> block_id \<Rightarrow> nat" where
  "holders gs i = length (filter (\<lambda>g. i |\<in>| g) gs)"

definition counts_guards :: "(block_id, nat) fmap \<Rightarrow> block_id fset list \<Rightarrow> bool" where
  "counts_guards m gs \<longleftrightarrow> (\<forall>i. fmlookup m i = (if holders gs i = 0 then None else Some (holders gs i)))"

definition generations_ok :: "(block_id, u64) fmap \<Rightarrow> u64 \<Rightarrow> bool" where
  "generations_ok ids sq \<longleftrightarrow> (\<forall>i n. fmlookup ids i = Some n \<longrightarrow> n \<le> sq)"

definition exclusive :: "retention \<Rightarrow> block_id fset list \<Rightarrow> block_id list \<Rightarrow> bool" where
  "exclusive st gs cs \<longleftrightarrow>
     counts_guards (rt_active st) gs \<and> fset (rt_release_checks st) = set cs \<and> distinct cs
     \<and> (\<forall>i\<in>set cs. holders gs i = 0) \<and> generations_ok (rt_ids st) (rt_sequence st)"

lemma generations_fold:
  assumes "generations_ok ids sq" and "checked_add sq 1 = Some nx"
  shows "generations_ok (fold (\<lambda>i. fmupd i nx) xs ids) nx"
proof -
  have "n \<le> nx" if "n \<le> sq" for n using checked_add_le(1) [OF assms(2)] that by simp
  then show ?thesis using assms(1) by (auto simp: generations_ok_def fold_fmupd_same split: if_splits)
qed

lemma generations_read:
  assumes "read_records H data ids sq n = Inr (ids', sq', n')" and "generations_ok ids sq"
  shows "generations_ok ids' sq'"
  using assms
proof (induction H data ids sq n rule: read_records.induct)
  case (1 H data ids sq n)
  consider (stop) "next_record H data ids sq = Inr None"
    | (more) ids1 nx used where "next_record H data ids sq = Inr (Some (ids1, nx, used))"
    using 1(2) by (subst (asm) read_records.simps) (auto split: sum.splits option.splits)
  then show ?case
  proof cases
    case stop
    then show ?thesis using 1(2,3) by (subst (asm) read_records.simps) simp
  next
    case (more ids1 nx used)
    have "generations_ok ids1 nx"
      using more 1(3) by (auto simp: next_record_def Let_def split: if_splits intro: generations_fold)
    moreover have "read_records H (drop used data) ids1 nx (n + of_nat used) = Inr (ids', sq', n')"
      using 1(2) more by (subst (asm) read_records.simps) simp
    ultimately show ?thesis using 1(1) [OF more refl refl refl] by blast
  qed
qed

lemma count_up_fold:
  fixes m :: "(block_id, nat) fmap"
  assumes "distinct xs"
  shows "fmlookup (fold (\<lambda>i m. fmupd i (case fmlookup m i of None \<Rightarrow> 1 | Some k \<Rightarrow> k + 1) m) xs m) j =
    (if j \<in> set xs then Some (case fmlookup m j of None \<Rightarrow> 1 | Some k \<Rightarrow> k + 1) else fmlookup m j)"
  using assms by (induction xs arbitrary: m) auto

lemma drop_guard_counts:
  assumes "distinct xs" and "\<forall>i\<in>set xs. contains_key (rt_active st) i"
  shows "\<exists>m. drop_guard xs st = Some (st\<lparr>rt_active := m\<rparr>)
    \<and> (\<forall>j. fmlookup m j = (if j \<in> set xs then
         (case fmlookup (rt_active st) j of Some n \<Rightarrow> if n - 1 = 0 then None else Some (n - 1) | None \<Rightarrow> None)
         else fmlookup (rt_active st) j))"
  using assms
proof (induction xs arbitrary: st)
  case (Cons i xs)
  obtain n where n: "fmlookup (rt_active st) i = Some n" using Cons.prems(2) by auto
  define m1 where "m1 = (if n - 1 = 0 then fmdrop i (rt_active st) else fmupd i (n - 1) (rt_active st))"
  have m1: "fmlookup m1 j = (if j = i then (if n - 1 = 0 then None else Some (n - 1)) else fmlookup (rt_active st) j)" for j
    by (simp add: m1_def)
  have "\<forall>j\<in>set xs. contains_key (rt_active (st\<lparr>rt_active := m1\<rparr>)) j"
    using Cons.prems m1 by auto
  then obtain m where m: "drop_guard xs (st\<lparr>rt_active := m1\<rparr>) = Some (st\<lparr>rt_active := m1, rt_active := m\<rparr>)"
    "\<forall>j. fmlookup m j = (if j \<in> set xs then
       (case fmlookup m1 j of Some n \<Rightarrow> if n - 1 = 0 then None else Some (n - 1) | None \<Rightarrow> None) else fmlookup m1 j)"
    using Cons.IH [of "st\<lparr>rt_active := m1\<rparr>"] Cons.prems(1) by auto
  have "drop_guard (i # xs) st = Some (st\<lparr>rt_active := m\<rparr>)" using m(1) n by (simp add: m1_def)
  moreover have "fmlookup m j = (if j \<in> set (i # xs) then
       (case fmlookup (rt_active st) j of Some n \<Rightarrow> if n - 1 = 0 then None else Some (n - 1) | None \<Rightarrow> None)
       else fmlookup (rt_active st) j)" for j
    using m(2) m1 n Cons.prems(1) by auto
  ultimately show ?case by blast
next
  case Nil
  show ?case by (rule exI [of _ "rt_active st"]) simp
qed

lemma holders_simps [simp]:
  "holders [] i = 0" "holders (g # gs) i = (if i |\<in>| g then 1 else 0) + holders gs i"
  "holders (gs @ gs') i = holders gs i + holders gs' i"
  by (simp_all add: holders_def)

lemma protect_exclusive:
  assumes "lists_set order" and "protect H order f is st fs = (r, st', fs')" and "exclusive st gs cs"
  shows "exclusive st' (case r of Inl e \<Rightarrow> gs | Inr g \<Rightarrow> g # gs) cs"
  using assms(1,2)
proof (cases rule: protect_cases)
  case (protected nx)
  let ?R = "fset_of_list is"
  have order: "set (order ?R) = set is" "distinct (order ?R)"
    using assms(1) by (simp_all add: lists_set_def fset_of_list.rep_eq)
  have free: "holders gs i = 0" if "i \<in> set cs" for i using assms(3) that by (simp add: exclusive_def)
  have "i \<notin> set is" if "i \<in> set cs" for i
    using assms(3) protected(5) that by (auto simp: exclusive_def)
  moreover have "counts_guards (rt_active st') (?R # gs)"
    using assms(3) order
    by (auto simp: protected(8) counts_guards_def count_up_fold exclusive_def fset_of_list.rep_eq)
  moreover have "generations_ok (rt_ids st') (rt_sequence st')"
    using assms(3) generations_fold [OF _ protected(2)] by (simp add: protected(8) exclusive_def)
  ultimately show ?thesis
    using assms(3) free by (simp add: protected(1,8) exclusive_def fset_of_list.rep_eq)
qed (use assms(3) in \<open>simp_all add: exclusive_def counts_guards_def\<close>)

lemma drop_guard_exclusive:
  assumes "lists_set order" and "exclusive st (gs @ g # gs') cs"
  shows "\<exists>st'. drop_guard (order g) st = Some st' \<and> exclusive st' (gs @ gs') cs"
proof -
  have order: "set (order g) = fset g" "distinct (order g)" using assms(1) by (simp_all add: lists_set_def)
  have counts: "fmlookup (rt_active st) i = (if holders (gs @ g # gs') i = 0 then None else Some (holders (gs @ g # gs') i))" for i
    using assms(2) by (simp add: exclusive_def counts_guards_def)
  have "\<forall>i\<in>set (order g). contains_key (rt_active st) i" using order(1) counts by simp
  then obtain m where m: "drop_guard (order g) st = Some (st\<lparr>rt_active := m\<rparr>)"
    "\<forall>j. fmlookup m j = (if j \<in> set (order g) then
         (case fmlookup (rt_active st) j of Some n \<Rightarrow> if n - 1 = 0 then None else Some (n - 1) | None \<Rightarrow> None)
         else fmlookup (rt_active st) j)"
    using drop_guard_counts [OF order(2)] by blast
  have "counts_guards m (gs @ gs')" using m(2) counts order(1) by (simp add: counts_guards_def)
  then show ?thesis using assms(2) m(1) by (simp add: exclusive_def)
qed

lemma release_check_exclusive:
  assumes "try_release_check i n st = (Inr j, st')" and "exclusive st gs cs"
  shows "exclusive st' gs (i # cs)"
proof -
  have st: "st' = st\<lparr>rt_release_checks := finsert i (rt_release_checks st)\<rparr>" "fmlookup (rt_active st) i = None"
    "i |\<notin>| rt_release_checks st"
    using assms(1) by (auto simp: try_release_check_def split: if_splits)
  moreover have "fmlookup (rt_active st) i = (if holders gs i = 0 then None else Some (holders gs i))"
    using assms(2) unfolding exclusive_def counts_guards_def by blast
  then have "holders gs i = 0" using st(2) by (simp split: if_splits)
  ultimately show ?thesis using assms(2) by (simp add: exclusive_def)
qed

lemma opened_state:
  assumes "open_retention H f fs = (Inr st, fs')"
  shows "\<exists>data. read_records H data fmempty 0 0 = Inr (rt_ids st, rt_sequence st, rt_bytes st)
    \<and> rt_active st = fmempty \<and> rt_release_checks st = {||}"
  using assms unfolding open_retention_def
  by (cases "open_append RETENTION_NAME fs"; cases f)
    (auto simp: Let_def split: if_splits sum.splits intro!: exI [of _ "contents (snd (open_append RETENTION_NAME fs)) _"])

lemma reachable_exclusive:
  assumes "lists_set order" and "ret_reach H order st gs cs"
  shows "exclusive st gs cs"
  using assms(2)
proof induction
  case (opened f fs st fs')
  obtain data where st: "read_records H data fmempty 0 0 = Inr (rt_ids st, rt_sequence st, rt_bytes st)"
    "rt_active st = fmempty" "rt_release_checks st = {||}"
    using opened_state [OF opened] by blast
  have "generations_ok (rt_ids st) (rt_sequence st)"
    by (rule generations_read [OF st(1)]) (simp add: generations_ok_def)
  then show ?case using st(2,3) by (simp add: exclusive_def counts_guards_def)
next
  case (guarded st gs cs f ids fs g st' fs')
  then show ?case using protect_exclusive [OF assms(1)] by fastforce
next
  case (refused st gs cs f ids fs e st' fs')
  then show ?case using protect_exclusive [OF assms(1)] by fastforce
next
  case (dropped st gs g gs' cs st')
  then show ?case using drop_guard_exclusive [OF assms(1)] by fastforce
next
  case (checked st gs cs i n j st')
  then show ?case using release_check_exclusive by blast
next
  case (released st gs cs i cs')
  then show ?case by (auto simp: exclusive_def drop_release_check_def)
qed

text \<open>
  C29.  A local write and a release check never hold the same block.  In every state reached by
  interleaving guards and checks: no block of a held guard is under a release check, no block has two
  release checks, dropping a held guard never panics, and an \<open>Ok\<close> of \<open>protect\<close> gives its blocks a
  generation above every one recorded before, so that a check made for an earlier generation is refused.
\<close>

theorem writes_exclude_releases:
  assumes "lists_set order" and "ret_reach H order st gs cs"
  shows "(\<forall>g\<in>set gs. \<forall>i. i |\<in>| g \<longrightarrow> i |\<notin>| rt_release_checks st \<and> contains_key (rt_active st) i)
    \<and> (\<forall>g\<in>set gs. drop_guard (order g) st \<noteq> None)
    \<and> distinct cs \<and> fset (rt_release_checks st) = set cs
    \<and> (protect H order f is st fs = (Inr g, st', fs') \<longrightarrow> i \<in> set is \<longrightarrow> fmlookup (rt_ids st) j = Some n \<longrightarrow>
         (\<exists>n'>n. fmlookup (rt_ids st') i = Some n') \<and> isl (fst (try_release_check i n st')))"
proof -
  note ex = reachable_exclusive [OF assms]
  have held: "0 < holders gs i" if "g \<in> set gs" "i |\<in>| g" for g i
    using that by (auto simp: holders_def filter_empty_conv)
  have "drop_guard (order g) st \<noteq> None" if "g \<in> set gs" for g
    using drop_guard_exclusive [OF assms(1)] ex split_list [OF that] by fastforce
  moreover have "\<forall>g\<in>set gs. \<forall>i. i |\<in>| g \<longrightarrow> i |\<notin>| rt_release_checks st \<and> contains_key (rt_active st) i"
    using ex held by (fastforce simp: exclusive_def counts_guards_def)
  moreover have "(\<exists>n'>n. fmlookup (rt_ids st') i = Some n') \<and> isl (fst (try_release_check i n st'))"
    if ok: "protect H order f is st fs = (Inr g, st', fs')" "i \<in> set is" "fmlookup (rt_ids st) j = Some n"
    using assms(1) ok(1)
  proof (cases rule: protect_cases)
    case (protected nx)
    have "set (order (fset_of_list is)) = set is"
      using assms(1) by (simp add: lists_set_def fset_of_list.rep_eq)
    then have new: "fmlookup (rt_ids st') i = Some nx" using ok(2) by (simp add: protected(8) fold_fmupd_same)
    have "n \<le> rt_sequence st" using ex ok(3) by (auto simp: exclusive_def generations_ok_def)
    moreover have "unat nx = unat (rt_sequence st) + 1" using checked_add_SomeD [OF protected(2)] by auto
    ultimately have "n < nx" unfolding word_le_nat_alt word_less_nat_alt by linarith
    then show ?thesis using new by (auto simp: try_release_check_def)
  qed (use ok(2) in simp_all)
  ultimately show ?thesis using ex by (simp add: exclusive_def)
qed

section \<open>A concrete run\<close>

text \<open>A journal on a disk that has just been created, and a guard for one block.\<close>

definition order_list :: "block_id fset \<Rightarrow> block_id list" where
  "order_list S = sorted_list_of_set (fset S)"

definition journal_fs :: file_system where
  "journal_fs = \<lparr>dir = fmap_of_list [(RETENTION_NAME, 0)], disk_dir = fmap_of_list [(RETENTION_NAME, 0)],
     contents = (\<lambda>_. []), disk_contents = (\<lambda>_. []), next_inode = 1\<rparr>"

definition new_journal :: retention where
  "new_journal = \<lparr>rt_file = 0, rt_ids = fmempty, rt_sequence = 0, rt_bytes = 0, rt_failed = False,
     rt_active = fmempty, rt_release_checks = {||}\<rparr>"

abbreviation guarded_block :: block_id where
  "guarded_block \<equiv> BlockId (fill32 1)"

lemma order_list_ok: "lists_set order_list"
  by (simp add: lists_set_def order_list_def)

lemma new_journal_ok: "journal_ok length_hash new_journal journal_fs"
  by (auto simp: journal_ok_def new_journal_def journal_fs_def fs_ok_def durable_as_def MAX_IDS_def MAX_BYTES_def
      split: if_splits)

lemma new_journal_reach: "ret_reach length_hash order_list new_journal [] []"
proof -
  have "open_retention length_hash NoFault journal_fs = (Inr new_journal, snd (open_retention length_hash NoFault journal_fs))"
    by (simp add: open_retention_def open_append_def journal_fs_def new_journal_def MAX_BYTES_def read_nothing)
  then show ?thesis by (rule ret_reach.opened)
qed

lemma protect_new_journal:
  "\<exists>st fs. protect length_hash order_list NoFault [guarded_block] new_journal journal_fs = (Inr {|guarded_block|}, st, fs)
     \<and> crash fs fs \<and> rt_sequence st = 1"
proof -
  have "ffilter (\<lambda>_. True) S = S" for S :: "block_id fset" by auto
  moreover have "fcard {|guarded_block|} = 1" by (simp add: fcard_finsert_disjoint)
  ultimately show ?thesis
    by (auto simp: protect_def MAX_BATCH_def new_journal_def checked_add_def Let_def MAX_IDS_def MAX_BYTES_def
        HEADER_def order_list_def crash_def fs_ok_def sync_file_def write_append_def journal_fs_def torn_def)
qed

theorem guards_survive_witness:
  "\<exists>fs st. fst (open_retention length_hash NoFault fs) = Inr st \<and> fmlookup (rt_ids st) guarded_block = Some 1"
proof -
  obtain st fs where run: "protect length_hash order_list NoFault [guarded_block] new_journal journal_fs
      = (Inr {|guarded_block|}, st, fs)" "crash fs fs"
    using protect_new_journal by blast
  have "rt_sequence new_journal + 1 = 1" by (simp add: new_journal_def)
  with guards_survive [OF order_list_ok new_journal_ok run]
  have "\<exists>st''. fst (open_retention length_hash NoFault fs) = Inr st'' \<and> fmlookup (rt_ids st'') guarded_block = Some 1"
    by force
  then show ?thesis by blast
qed

theorem writes_exclude_releases_witness:
  "\<exists>st fs. protect length_hash order_list NoFault [guarded_block] new_journal journal_fs = (Inr {|guarded_block|}, st, fs)
     \<and> drop_guard (order_list {|guarded_block|}) st \<noteq> None \<and> isl (fst (try_release_check guarded_block 1 st))"
proof -
  obtain st fs where run: "protect length_hash order_list NoFault [guarded_block] new_journal journal_fs
      = (Inr {|guarded_block|}, st, fs)" "rt_sequence st = 1"
    using protect_new_journal by blast
  note ret_reach.guarded [OF new_journal_reach run(1)]
  from writes_exclude_releases [OF order_list_ok this] run show ?thesis
    by (auto simp: try_release_check_def)
qed

end
