(* ===== verification/Repair_Log.thy ===== *)
theory Repair_Log
  imports Log_Recovery Kalpak_Core
begin

text \<open>
  The local replica intents and peer observations (\<^verbatim>\<open>kalpakdb/src/repair.rs\<close>): the storage generation,
  the requirements file, the calls that raise an intent or record an observation, and the pages of the
  repair loop.  Parameters are the hash, the hex text, \<^verbatim>\<open>serde_json\<close>, and for a new data directory the
  random name and seed of the generation.  The network part of the repair loop is not here.
\<close>

section \<open>State\<close>

definition MAX_RECORDS :: nat where "MAX_RECORDS = 16384"
definition GENERATION_NAME :: string where "GENERATION_NAME = ''storage-generation''"
definition REQUIREMENTS_NAME :: string where "REQUIREMENTS_NAME = ''replica-requirements.json''"

definition is_ascii_hexdigit :: "char \<Rightarrow> bool" where
  "is_ascii_hexdigit c \<longleftrightarrow>
     c \<in> set ''0123456789abcdefABCDEF''"

definition valid_generation :: "string \<Rightarrow> bool" where
  "valid_generation v \<longleftrightarrow> length v = 64 \<and> list_all is_ascii_hexdigit v"

record requirements =
  rq_version :: u32
  rq_blocks :: "(block_id, nat) fmap"
  rq_locations :: "(block_id, (u64, string) fmap) fmap"

record requirements_codec =
  requirements_json :: "requirements \<Rightarrow> string + bytes"
  requirements_from_json :: "bytes \<Rightarrow> string + requirements"

record repair_log =
  rl_generation :: string
  rl_requirements :: requirements

section \<open>Opening\<close>

text \<open>
  Positions of a failing call: 0 reading the generation, 1 to 5 creating, writing, syncing and renaming
  the temporary file and syncing the directory, 6 reading the requirements.  A temporary file that was
  not renamed is removed when it goes out of scope.
\<close>

definition fails_at :: "fault \<Rightarrow> nat \<Rightarrow> bool" where
  "fails_at fault k \<longleftrightarrow> (case fault of FaultAt n _ \<Rightarrow> n = k | NoFault \<Rightarrow> False)"

definition load_generation ::
  "(bytes \<Rightarrow> bytes32) \<Rightarrow> (bytes \<Rightarrow> string) \<Rightarrow> string \<Rightarrow> bytes \<Rightarrow> fault \<Rightarrow> file_system \<Rightarrow> (string + string) \<times> file_system" where
  "load_generation H hex tmp seed fault fs =
     (if fails_at fault 0 then (Inl ''io error'', fs)
      else case read_file fs GENERATION_NAME of
        Some bs \<Rightarrow> (Inr (map (\<lambda>b. char_of (unat b)) bs), fs)
      | None \<Rightarrow>
          let v = block_id_to_string hex (block_id_of H seed) in
          case fault of
            NoFault \<Rightarrow> (Inr v, publish_upto 5 0 tmp GENERATION_NAME (str_bytes v) fs)
          | FaultAt n m \<Rightarrow>
              if n \<le> 5 then
                let fs' = publish_upto (n - 1) m tmp GENERATION_NAME (str_bytes v) fs in
                (Inl ''io error'', if n \<le> 4 then fs'\<lparr>dir := fmdrop tmp (dir fs')\<rparr> else fs')
              else (Inr v, publish_upto 5 0 tmp GENERATION_NAME (str_bytes v) fs))"

definition requirements_valid :: "requirements \<Rightarrow> bool" where
  "requirements_valid r \<longleftrightarrow>
     rq_version r = 1 \<and> fmsize (rq_blocks r) \<le> MAX_RECORDS
     \<and> \<not> fmany (\<lambda>i n. \<not> (1 \<le> n \<and> n \<le> 16)) (rq_blocks r)
     \<and> \<not> fmany (\<lambda>i ns. \<not> contains_key (rq_blocks r) i \<or> 16 < fmsize ns
            \<or> fmany (\<lambda>k g. \<not> valid_generation g) ns) (rq_locations r)"

definition load_requirements ::
  "requirements_codec \<Rightarrow> fault \<Rightarrow> file_system \<Rightarrow> string + requirements" where
  "load_requirements c fault fs =
     (if fails_at fault 6 then Inl ''io error''
      else case read_file fs REQUIREMENTS_NAME of
        Some bs \<Rightarrow> requirements_from_json c bs
      | None \<Rightarrow> Inr \<lparr>rq_version = 1, rq_blocks = fmempty, rq_locations = fmempty\<rparr>)"

text \<open>
  Contents that are not UTF-8 are refused while they are read; they are never a valid generation, and
  the model gives both refusals the same message.
\<close>

definition open_repair_log ::
  "(bytes \<Rightarrow> bytes32) \<Rightarrow> (bytes \<Rightarrow> string) \<Rightarrow> requirements_codec \<Rightarrow> string \<Rightarrow> bytes \<Rightarrow> fault \<Rightarrow> file_system
     \<Rightarrow> (string + repair_log) \<times> file_system" where
  "open_repair_log H hex c tmp seed fault fs =
     (case load_generation H hex tmp seed fault fs of
        (Inl e, fs') \<Rightarrow> (Inl e, fs')
      | (Inr gen, fs') \<Rightarrow>
          if \<not> valid_generation gen then (Inl ''invalid storage generation'', fs')
          else case load_requirements c fault fs' of
            Inl e \<Rightarrow> (Inl e, fs')
          | Inr r \<Rightarrow>
              if \<not> requirements_valid r then (Inl ''invalid replica requirements'', fs')
              else (Inr \<lparr>rl_generation = gen, rl_requirements = r\<rparr>, fs'))"

section \<open>Recording\<close>

text \<open>\<^verbatim>\<open>publish\<close> makes the calls of \<^verbatim>\<open>durability::replace\<close> in the same order.\<close>

definition publish_requirements ::
  "requirements_codec \<Rightarrow> fault \<Rightarrow> requirements \<Rightarrow> file_system \<Rightarrow> (string + unit) \<times> file_system" where
  "publish_requirements c fault r fs =
     (case requirements_json c r of
        Inl e \<Rightarrow> (Inl e, fs)
      | Inr bs \<Rightarrow> replace fault REQUIREMENTS_NAME bs fs)"

definition raise_intent :: "nat \<Rightarrow> block_id \<Rightarrow> (block_id, nat) fmap \<Rightarrow> (block_id, nat) fmap" where
  "raise_intent n i m = fmupd i (max (case fmlookup m i of None \<Rightarrow> n | Some k \<Rightarrow> k) n) m"

definition record_intents ::
  "requirements_codec \<Rightarrow> fault \<Rightarrow> block_id list \<Rightarrow> nat \<Rightarrow> repair_log \<Rightarrow> file_system
     \<Rightarrow> (string + unit) \<times> repair_log \<times> file_system" where
  "record_intents c fault is n rl fs =
     (if \<not> (1 \<le> n \<and> n \<le> 16) then (Inl ''invalid replica count'', rl, fs)
      else
        let r = rl_requirements rl;
            r' = r\<lparr>rq_blocks := fold (raise_intent n) is (rq_blocks r)\<rparr>
        in if rq_blocks r' = rq_blocks r then (Inr (), rl, fs)
           else if MAX_RECORDS < fmsize (rq_blocks r')
           then (Inl ''replica requirement capacity exhausted'', rl, fs)
           else case publish_requirements c fault r' fs of
             (Inl e, fs') \<Rightarrow> (Inl e, rl, fs')
           | (Inr _, fs') \<Rightarrow> (Inr (), rl\<lparr>rl_requirements := r'\<rparr>, fs'))"

definition retained :: "repair_log \<Rightarrow> block_id \<Rightarrow> bool" where
  "retained rl i \<longleftrightarrow> contains_key (rq_blocks (rl_requirements rl)) i"

definition known_nodes :: "repair_log \<Rightarrow> block_id \<Rightarrow> u64 list" where
  "known_nodes rl i =
     (case fmlookup (rq_locations (rl_requirements rl)) i of
        Some ns \<Rightarrow> map fst (btree_entries ns) | None \<Rightarrow> [])"

definition pop_first :: "('k::linorder, 'v) fmap \<Rightarrow> ('k, 'v) fmap" where
  "pop_first m = (case btree_entries m of [] \<Rightarrow> m | (k, _) # _ \<Rightarrow> fmdrop k m)"

definition forget_incarnation :: "u64 \<Rightarrow> string \<Rightarrow> (u64, string) fmap \<Rightarrow> (u64, string) fmap" where
  "forget_incarnation node g ns =
     (case fmlookup ns node of
        Some old \<Rightarrow> if old \<noteq> g then fmdrop node ns else ns
      | None \<Rightarrow> ns)"

definition observe_node :: "u64 \<Rightarrow> string option \<Rightarrow> (u64, string) fmap \<Rightarrow> (u64, string) fmap" where
  "observe_node node gen ns =
     (case gen of
        Some g \<Rightarrow>
          fmupd node g (if \<not> contains_key ns node \<and> 16 \<le> fmsize ns then pop_first ns else ns)
      | None \<Rightarrow> fmdrop node ns)"

definition observe_block :: "u64 \<Rightarrow> string option \<Rightarrow> block_id \<Rightarrow> requirements \<Rightarrow> requirements" where
  "observe_block node gen i r =
     (if \<not> contains_key (rq_blocks r) i then r
      else r\<lparr>rq_locations := fmupd i (observe_node node gen
               (case fmlookup (rq_locations r) i of Some ns \<Rightarrow> ns | None \<Rightarrow> fmempty)) (rq_locations r)\<rparr>)"

text \<open>The requirements \<^verbatim>\<open>observe\<close> publishes.\<close>

definition observed_requirements :: "block_id list \<Rightarrow> u64 \<Rightarrow> string option \<Rightarrow> requirements \<Rightarrow> requirements" where
  "observed_requirements is node gen r =
     fold (observe_block node gen) is
       (case gen of Some g \<Rightarrow> r\<lparr>rq_locations := fmmap (forget_incarnation node g) (rq_locations r)\<rparr> | None \<Rightarrow> r)"

definition observe ::
  "requirements_codec \<Rightarrow> fault \<Rightarrow> block_id list \<Rightarrow> u64 \<Rightarrow> string option \<Rightarrow> repair_log \<Rightarrow> file_system
     \<Rightarrow> (string + unit) \<times> repair_log \<times> file_system" where
  "observe c fault is node gen rl fs =
     (if (case gen of Some g \<Rightarrow> \<not> valid_generation g | None \<Rightarrow> False)
      then (Inl ''invalid peer storage generation'', rl, fs)
      else
        let r = rl_requirements rl;
            r' = observed_requirements is node gen r
        in if rq_locations r' = rq_locations r then (Inr (), rl, fs)
           else case publish_requirements c fault r' fs of
             (Inl e, fs') \<Rightarrow> (Inl e, rl, fs')
           | (Inr _, fs') \<Rightarrow> (Inr (), rl\<lparr>rl_requirements := r'\<rparr>, fs'))"

section \<open>Pages of the repair loop\<close>








section \<open>The requirements file\<close>

definition requirements_codec_ok :: "requirements_codec \<Rightarrow> bool" where
  "requirements_codec_ok c \<longleftrightarrow>
     (\<forall>r bs. requirements_json c r = Inr bs \<longrightarrow> requirements_from_json c bs = Inr r)"

text \<open>The log in memory is the one on disk.\<close>

definition log_stored :: "requirements_codec \<Rightarrow> repair_log \<Rightarrow> file_system \<Rightarrow> bool" where
  "log_stored c rl fs \<longleftrightarrow>
     fs_ok fs \<and> valid_generation (rl_generation rl) \<and> requirements_valid (rl_requirements rl)
     \<and> durable_as fs GENERATION_NAME (Some (str_bytes (rl_generation rl)))
     \<and> (\<exists>bs. durable_as fs REQUIREMENTS_NAME bs \<and>
          (case bs of
             None \<Rightarrow> rl_requirements rl = \<lparr>rq_version = 1, rq_blocks = fmempty, rq_locations = fmempty\<rparr>
           | Some bs \<Rightarrow> requirements_from_json c bs = Inr (rl_requirements rl)))"

lemma bytes_of_string: "map (\<lambda>b. char_of (unat b)) (str_bytes s) = s"
proof -
  have "char_of (unat (of_char c :: u8)) = c" for c
  proof -
    have "unat (of_nat (of_char c) :: u8) = (of_char c :: nat)"
      using nat_of_char_less_256 [of c] by (simp add: unat_of_nat)
    then show ?thesis by (simp add: of_nat_of_char)
  qed
  then show ?thesis by (simp add: str_bytes_def map_idI)
qed

lemma repair_names [simp]:
  "GENERATION_NAME \<noteq> REQUIREMENTS_NAME" "GENERATION_NAME \<noteq> pending_name REQUIREMENTS_NAME"
  "pending_name REQUIREMENTS_NAME \<noteq> REQUIREMENTS_NAME"
  by (simp_all add: GENERATION_NAME_def REQUIREMENTS_NAME_def pending_name_def)

lemma open_stored:
  assumes "log_stored c rl fs"
  shows "open_repair_log H hex c tmp seed NoFault fs = (Inr rl, fs)"
proof -
  obtain bs where d: "durable_as fs GENERATION_NAME (Some (str_bytes (rl_generation rl)))"
    "durable_as fs REQUIREMENTS_NAME bs"
    "case bs of None \<Rightarrow> rl_requirements rl = \<lparr>rq_version = 1, rq_blocks = fmempty, rq_locations = fmempty\<rparr>
       | Some bs \<Rightarrow> requirements_from_json c bs = Inr (rl_requirements rl)"
    and v: "valid_generation (rl_generation rl)" "requirements_valid (rl_requirements rl)"
    using assms by (auto simp: log_stored_def)
  have "load_generation H hex tmp seed NoFault fs = (Inr (rl_generation rl), fs)"
    by (simp add: load_generation_def fails_at_def stable_read [OF d(1)] bytes_of_string)
  moreover have "load_requirements c NoFault fs = Inr (rl_requirements rl)"
    using d(3) by (simp add: load_requirements_def fails_at_def stable_read [OF d(2)] split: option.splits)
  ultimately show ?thesis using v by (simp add: open_repair_log_def)
qed

lemma log_stored_crash:
  assumes "log_stored c rl fs" and "crash fs fs'"
  shows "log_stored c rl fs'"
proof -
  have "durable_as fs' nm bs" if "durable_as fs nm bs" for nm bs
    using crash_settled(2) [OF assms(2), of nm] crash_stable [OF that assms(2)] by simp
  then show ?thesis
    using assms(1) crash_settled(1) [OF assms(2)] unfolding log_stored_def by blast
qed

lemma publish_survives:
  assumes "requirements_codec_ok c" and "log_stored c rl fs" and "requirements_valid r'"
    and "publish_requirements c fault r' fs = (res, fs')"
  shows "crash fs' fs'' \<Longrightarrow> log_stored c rl fs'' \<and> res \<noteq> Inr () \<or> log_stored c (rl\<lparr>rl_requirements := r'\<rparr>) fs''"
    and "res = Inr () \<Longrightarrow> log_stored c (rl\<lparr>rl_requirements := r'\<rparr>) fs'"
proof -
  obtain old where d: "durable_as fs GENERATION_NAME (Some (str_bytes (rl_generation rl)))"
    "durable_as fs REQUIREMENTS_NAME old" "fs_ok fs"
    "case old of None \<Rightarrow> rl_requirements rl = \<lparr>rq_version = 1, rq_blocks = fmempty, rq_locations = fmempty\<rparr>
       | Some bs \<Rightarrow> requirements_from_json c bs = Inr (rl_requirements rl)"
    using assms(2) by (auto simp: log_stored_def)
  show "log_stored c (rl\<lparr>rl_requirements := r'\<rparr>) fs'" if ok: "res = Inr ()"
  proof -
    obtain bs where bs: "requirements_json c r' = Inr bs" "replace fault REQUIREMENTS_NAME bs fs = (Inr (), fs')"
      using assms(4) ok by (auto simp: publish_requirements_def split: sum.splits)
    then obtain n m where fs': "fs' = publish_upto n m (pending_name REQUIREMENTS_NAME) REQUIREMENTS_NAME bs fs"
      using replace_stops [of fault REQUIREMENTS_NAME bs fs] by (auto simp: replace_upto_def)
    have "durable_as fs' GENERATION_NAME (Some (str_bytes (rl_generation rl)))"
      unfolding fs' by (rule publish_other [OF d(3,1)]) simp_all
    moreover have "requirements_from_json c bs = Inr r'" using assms(1) bs(1) by (simp add: requirements_codec_ok_def)
    moreover note replace_Ok [OF d(3,2) repair_names(3) bs(2)]
    ultimately show ?thesis
      using assms(2,3) unfolding log_stored_def by (auto intro!: exI [of _ "Some bs"])
  qed
  note stored = this
  show "log_stored c rl fs'' \<and> res \<noteq> Inr () \<or> log_stored c (rl\<lparr>rl_requirements := r'\<rparr>) fs''" if "crash fs' fs''"
  proof (cases "requirements_json c r'")
    case (Inl e)
    then have "fs' = fs" "res \<noteq> Inr ()" using assms(4) by (auto simp: publish_requirements_def)
    then show ?thesis using log_stored_crash [OF assms(2)] that by simp
  next
    case (Inr bs)
    then have rep: "replace fault REQUIREMENTS_NAME bs fs = (res, fs')"
      using assms(4) by (simp add: publish_requirements_def)
    then obtain n m where fs': "fs' = publish_upto n m (pending_name REQUIREMENTS_NAME) REQUIREMENTS_NAME bs fs"
      using replace_stops [of fault REQUIREMENTS_NAME bs fs] by (auto simp: replace_upto_def)
    have gen: "durable_as fs' GENERATION_NAME (Some (str_bytes (rl_generation rl)))"
      unfolding fs' by (rule publish_other [OF d(3,1)]) simp_all
    have gen'': "durable_as fs'' GENERATION_NAME (Some (str_bytes (rl_generation rl)))"
      using crash_settled(2) [OF that] crash_stable [OF gen that] by metis
    have req: "durable_as fs'' REQUIREMENTS_NAME old \<or> durable_as fs'' REQUIREMENTS_NAME (Some bs)"
      using crash_settled(2) [OF that, of REQUIREMENTS_NAME]
        publish_crash [OF d(3,2) repair_names(3) that [unfolded fs']] by metis
    have "requirements_from_json c bs = Inr r'" using assms(1) Inr by (simp add: requirements_codec_ok_def)
    then have "log_stored c rl fs'' \<or> log_stored c (rl\<lparr>rl_requirements := r'\<rparr>) fs''"
      using req gen'' assms(2,3) d(2,4) crash_settled(1) [OF that] unfolding log_stored_def
      by (auto intro: exI [of _ old] exI [of _ "Some bs"])
    then show ?thesis using stored log_stored_crash [OF _ that] by blast
  qed
qed

section \<open>Raising intents\<close>

lemma raise_intents_lookup:
  "fmlookup (fold (raise_intent n) is m) i =
     (if i \<in> set is then Some (max (case fmlookup m i of None \<Rightarrow> n | Some k \<Rightarrow> k) n) else fmlookup m i)"
  by (induction "is" arbitrary: m) (auto simp: raise_intent_def max_def split: option.splits)

lemma requirements_validI:
  assumes "rq_version r = 1" and "fmsize (rq_blocks r) \<le> MAX_RECORDS"
    and "\<And>i n. fmlookup (rq_blocks r) i = Some n \<Longrightarrow> 1 \<le> n \<and> n \<le> 16"
    and "\<And>i ns. fmlookup (rq_locations r) i = Some ns \<Longrightarrow>
           contains_key (rq_blocks r) i \<and> fmsize ns \<le> 16 \<and> (\<forall>k g. fmlookup ns k = Some g \<longrightarrow> valid_generation g)"
  shows "requirements_valid r"
  using assms(1-3) assms(4) unfolding requirements_valid_def fmany_iff by (meson not_less)

lemma requirements_validD:
  assumes "requirements_valid r"
  shows "rq_version r = 1" and "fmsize (rq_blocks r) \<le> MAX_RECORDS"
    and "fmlookup (rq_blocks r) i = Some n \<Longrightarrow> 1 \<le> n \<and> n \<le> 16"
    and "fmlookup (rq_locations r) i = Some ns \<Longrightarrow>
           contains_key (rq_blocks r) i \<and> fmsize ns \<le> 16 \<and> (\<forall>k g. fmlookup ns k = Some g \<longrightarrow> valid_generation g)"
  using assms unfolding requirements_valid_def fmany_iff by (meson not_less)+

lemma raise_intents_valid:
  assumes "requirements_valid r" and "1 \<le> n" and "n \<le> 16"
    and "fmsize (fold (raise_intent n) is (rq_blocks r)) \<le> MAX_RECORDS"
  shows "requirements_valid (r\<lparr>rq_blocks := fold (raise_intent n) is (rq_blocks r)\<rparr>)"
proof (rule requirements_validI)
  fix i k
  assume "fmlookup (rq_blocks (r\<lparr>rq_blocks := fold (raise_intent n) is (rq_blocks r)\<rparr>)) i = Some k"
  then show "1 \<le> k \<and> k \<le> 16"
    using requirements_validD(3) [OF assms(1), of i] assms(2,3)
    by (auto simp: raise_intents_lookup max_def split: option.splits if_splits)
next
  fix i ns
  assume "fmlookup (rq_locations (r\<lparr>rq_blocks := fold (raise_intent n) is (rq_blocks r)\<rparr>)) i = Some ns"
  then show "contains_key (rq_blocks (r\<lparr>rq_blocks := fold (raise_intent n) is (rq_blocks r)\<rparr>)) i \<and> fmsize ns \<le> 16
      \<and> (\<forall>k g. fmlookup ns k = Some g \<longrightarrow> valid_generation g)"
    using requirements_validD(4) [OF assms(1), of i ns] by (simp add: raise_intents_lookup)
qed (use requirements_validD(1) [OF assms(1)] assms(4) in simp_all)

lemma record_intents_cases:
  assumes "record_intents c fault is n rl fs = (r, rl', fs')"
  obtains (refused) e where "r = Inl e" "rl' = rl" "fs' = fs"
    | (known) "r = Inr ()" "rl' = rl" "fs' = fs" "fold (raise_intent n) is (rq_blocks (rl_requirements rl)) = rq_blocks (rl_requirements rl)"
    | (published) r' where "r' = (rl_requirements rl)\<lparr>rq_blocks := fold (raise_intent n) is (rq_blocks (rl_requirements rl))\<rparr>"
        "1 \<le> n" "n \<le> 16" "fmsize (rq_blocks r') \<le> MAX_RECORDS" "publish_requirements c fault r' fs = (r, fs')"
        "rl' = (if r = Inr () then rl\<lparr>rl_requirements := r'\<rparr> else rl)"
proof -
  let ?r = "(rl_requirements rl)\<lparr>rq_blocks := fold (raise_intent n) is (rq_blocks (rl_requirements rl))\<rparr>"
  consider "\<not> (1 \<le> n \<and> n \<le> 16)" | "1 \<le> n" "n \<le> 16" "rq_blocks ?r = rq_blocks (rl_requirements rl)"
    | "1 \<le> n" "n \<le> 16" "rq_blocks ?r \<noteq> rq_blocks (rl_requirements rl)" "MAX_RECORDS < fmsize (rq_blocks ?r)"
    | "1 \<le> n" "n \<le> 16" "rq_blocks ?r \<noteq> rq_blocks (rl_requirements rl)" "fmsize (rq_blocks ?r) \<le> MAX_RECORDS"
    by linarith
  then show thesis
  proof cases
    case 4
    then have "publish_requirements c fault ?r fs = (r, fs')
        \<and> rl' = (if r = Inr () then rl\<lparr>rl_requirements := ?r\<rparr> else rl)"
      using assms by (auto simp: record_intents_def Let_def split: prod.splits sum.splits)
    then show thesis using published 4 by blast
  qed (use assms refused known in \<open>auto simp: record_intents_def Let_def\<close>)
qed

text \<open>
  C25.  A replica intent is never lowered or lost.  Start from a log that is on disk.  Whichever call of
  \<^verbatim>\<open>record\<close> fails and wherever the machine crashes after it, the log opens again with the same storage
  generation and with every earlier intent at least as high; after \<open>Ok\<close> it is the log in memory, and every
  named block has at least the requested number.
\<close>

theorem intents_never_lowered:
  assumes "requirements_codec_ok c" and "log_stored c rl fs"
    and "record_intents c fault is n rl fs = (r, rl', fs')" and "crash fs' fs''"
  shows "\<exists>rl''. open_repair_log H hex c tmp seed NoFault fs'' = (Inr rl'', fs'') \<and> log_stored c rl'' fs''
    \<and> rl_generation rl'' = rl_generation rl
    \<and> (\<forall>i k. fmlookup (rq_blocks (rl_requirements rl)) i = Some k \<longrightarrow>
         (\<exists>k'\<ge>k. fmlookup (rq_blocks (rl_requirements rl'')) i = Some k'))
    \<and> (r = Inr () \<longrightarrow> rl'' = rl' \<and> (\<forall>i\<in>set is. \<exists>k\<ge>n. fmlookup (rq_blocks (rl_requirements rl'')) i = Some k))"
proof -
  let ?new = "fold (raise_intent n) is (rq_blocks (rl_requirements rl))"
  have grows: "\<exists>k'\<ge>k. fmlookup ?new i = Some k'" if "fmlookup (rq_blocks (rl_requirements rl)) i = Some k" for i k
    using that by (simp add: raise_intents_lookup)
  have reached: "\<forall>i\<in>set is. \<exists>k\<ge>n. fmlookup ?new i = Some k" by (simp add: raise_intents_lookup)
  have same: ?thesis if "fs' = fs" "r = Inr () \<Longrightarrow> ?new = rq_blocks (rl_requirements rl) \<and> rl' = rl"
  proof -
    have "log_stored c rl fs''" using log_stored_crash [OF assms(2)] assms(4) that(1) by simp
    then show ?thesis using open_stored [of c rl fs''] that(2) reached by auto
  qed
  show ?thesis using assms(3)
  proof (cases rule: record_intents_cases)
    case (published r')
    have valid: "requirements_valid r'"
      using raise_intents_valid published(1-4) assms(2) by (simp add: log_stored_def)
    let ?rl = "rl\<lparr>rl_requirements := r'\<rparr>"
    consider "log_stored c rl fs''" "r \<noteq> Inr ()" | "log_stored c ?rl fs''"
      using publish_survives(1) [OF assms(1,2) valid published(5) assms(4)] by blast
    then show ?thesis
    proof cases
      case 1
      then show ?thesis using open_stored [of c rl fs''] by auto
    next
      case 2
      then show ?thesis
        using open_stored [of c ?rl fs''] grows reached published(1,6) by (intro exI [of _ ?rl]) simp
    qed
  qed (use same in simp_all)
qed

section \<open>Observations\<close>

lemma pop_first_lookup:
  "fmlookup (pop_first m) k = Some v \<Longrightarrow> fmlookup m k = Some v"
  by (auto simp: pop_first_def split: list.splits if_splits)

lemma fmsize_drop:
  assumes "fmlookup m k = Some v"
  shows "Suc (fmsize (fmdrop k m)) = fmsize m"
proof -
  have "fmupd k v (fmdrop k m) = m" using assms by (intro fmap_ext) auto
  then show ?thesis using fmsize_fmupd [of k v "fmdrop k m"] by simp
qed

lemma pop_first_size:
  assumes "0 < fmsize m"
  shows "Suc (fmsize (pop_first m)) = fmsize m"
proof -
  obtain k v es where es: "btree_entries m = (k, v) # es"
  proof (cases "btree_entries m")
    case Nil
    then have "fmlookup m k = None" for k using map_of_btree_entries [of m] by (metis map_of.simps(1))
    then have "m = fmempty" by (intro fmap_ext) simp
    with assms show ?thesis by simp
  next
    case (Cons kv es)
    then show ?thesis using that by (cases kv) auto
  qed
  then have "(k, v) \<in> set (btree_entries m)" by simp
  then have "fmlookup m k = Some v" unfolding set_btree_entries by simp
  from fmsize_drop [OF this] show ?thesis by (simp add: pop_first_def es)
qed

lemma observe_node_size:
  assumes "fmsize ns \<le> 16"
  shows "fmsize (observe_node node gen ns) \<le> 16"
proof (cases gen)
  case None
  have "fmsize (fmdrop node ns) \<le> fmsize ns"
  proof (cases "fmlookup ns node")
    case None
    then have "fmdrop node ns = ns" by (intro fmap_ext) auto
    then show ?thesis by simp
  next
    case (Some v)
    then show ?thesis using fmsize_drop [OF Some] by simp
  qed
  then show ?thesis using None assms by (simp add: observe_node_def)
next
  case (Some g)
  show ?thesis
  proof (cases "\<not> contains_key ns node \<and> 16 \<le> fmsize ns")
    case True
    then have "Suc (fmsize (pop_first ns)) \<le> 16" using pop_first_size [of ns] assms by linarith
    then show ?thesis using Some True by (simp add: observe_node_def fmsize_fmupd)
  next
    case False
    then have "fmlookup ns node = None \<longrightarrow> fmsize ns < 16" by auto
    then have "fmsize (fmupd node g ns) \<le> 16" using assms by (auto simp: fmsize_fmupd)
    then show ?thesis unfolding observe_node_def Some option.case if_not_P [OF False] .
  qed
qed

text \<open>What a later set of requirements \<open>r\<close> takes from an earlier one after a report of one node.\<close>

definition observed_from :: "u64 \<Rightarrow> string option \<Rightarrow> requirements \<Rightarrow> requirements \<Rightarrow> bool" where
  "observed_from node gen r0 r \<longleftrightarrow>
     requirements_valid r \<and> rq_blocks r = rq_blocks r0
     \<and> (\<forall>i ns. fmlookup (rq_locations r) i = Some ns \<longrightarrow>
          (gen \<noteq> None \<longrightarrow> fmlookup ns node = None \<or> fmlookup ns node = gen)
          \<and> (\<forall>k g. k \<noteq> node \<longrightarrow> fmlookup ns k = Some g \<longrightarrow>
               (\<exists>ns0. fmlookup (rq_locations r0) i = Some ns0 \<and> fmlookup ns0 k = Some g)))"

definition reported :: "u64 \<Rightarrow> string option \<Rightarrow> block_id \<Rightarrow> requirements \<Rightarrow> bool" where
  "reported node gen i r \<longleftrightarrow> (\<exists>ns. fmlookup (rq_locations r) i = Some ns \<and> fmlookup ns node = gen)"

lemma observe_node_lookup:
  "fmlookup (observe_node node gen ns) node = gen"
  "k \<noteq> node \<Longrightarrow> fmlookup (observe_node node gen ns) k = Some g \<Longrightarrow> fmlookup ns k = Some g"
  by (auto simp: observe_node_def split: option.splits if_splits dest: pop_first_lookup)

lemma observe_block_step:
  assumes "observed_from node gen r0 r" and "\<And>g. gen = Some g \<Longrightarrow> valid_generation g"
  shows "observed_from node gen r0 (observe_block node gen i r)"
    and "contains_key (rq_blocks r) i \<Longrightarrow> reported node gen i (observe_block node gen i r)"
    and "reported node gen j r \<Longrightarrow> reported node gen j (observe_block node gen i r)"
proof -
  define ns where "ns = (case fmlookup (rq_locations r) i of Some ns \<Rightarrow> ns | None \<Rightarrow> fmempty)"
  have loc: "fmlookup (rq_locations (observe_block node gen i r)) j =
      (if j = i \<and> contains_key (rq_blocks r) i then Some (observe_node node gen ns) else fmlookup (rq_locations r) j)" for j
    by (auto simp: observe_block_def ns_def)
  have rest: "rq_blocks (observe_block node gen i r) = rq_blocks r" "rq_version (observe_block node gen i r) = rq_version r"
    by (simp_all add: observe_block_def)
  have valid: "requirements_valid r" using assms(1) by (simp add: observed_from_def)
  have ns: "fmsize ns \<le> 16" "fmlookup ns k = Some g \<Longrightarrow> valid_generation g" for k g
    using requirements_validD(4) [OF valid, of i] by (auto simp: ns_def split: option.splits)
  have gens: "valid_generation g" if "fmlookup (observe_node node gen ns) k = Some g" for k g
    using that assms(2) ns(2) observe_node_lookup(1) [of node gen ns] observe_node_lookup(2) [of k node gen ns g]
    by (cases "k = node") auto
  have "requirements_valid (observe_block node gen i r)"
  proof (rule requirements_validI)
    fix j ms
    assume "fmlookup (rq_locations (observe_block node gen i r)) j = Some ms"
    then show "contains_key (rq_blocks (observe_block node gen i r)) j \<and> fmsize ms \<le> 16
        \<and> (\<forall>k g. fmlookup ms k = Some g \<longrightarrow> valid_generation g)"
      using requirements_validD(4) [OF valid, of j ms] observe_node_size [OF ns(1)] gens
      by (auto simp: loc rest split: if_splits)
  qed (use requirements_validD(1-3) [OF valid] rest in auto)
  moreover have "\<exists>ns0. fmlookup (rq_locations r0) i = Some ns0 \<and> fmlookup ns0 k = Some g"
    if "k \<noteq> node" "fmlookup (observe_node node gen ns) k = Some g" for k g
    using observe_node_lookup(2) [OF that] that(1) assms(1)
    by (auto simp: observed_from_def ns_def split: option.splits)
  ultimately show "observed_from node gen r0 (observe_block node gen i r)"
    using assms(1) unfolding observed_from_def loc rest by (auto simp: observe_node_lookup(1))
  show "contains_key (rq_blocks r) i \<Longrightarrow> reported node gen i (observe_block node gen i r)"
    by (simp add: reported_def loc observe_node_lookup(1))
  show "reported node gen j r \<Longrightarrow> reported node gen j (observe_block node gen i r)"
    by (auto simp: reported_def loc observe_node_lookup(1))
qed

lemma observe_fold:
  assumes "observed_from node gen r0 r" and "\<And>g. gen = Some g \<Longrightarrow> valid_generation g"
  shows "observed_from node gen r0 (fold (observe_block node gen) is r)
    \<and> (\<forall>i. i \<in> set is \<and> contains_key (rq_blocks r0) i \<or> reported node gen i r \<longrightarrow>
         reported node gen i (fold (observe_block node gen) is r))"
  using assms(1)
proof (induction "is" arbitrary: r)
  case (Cons i "is")
  note step = observe_block_step [OF Cons.prems assms(2)]
  have "rq_blocks r = rq_blocks r0" using Cons.prems by (simp add: observed_from_def)
  then show ?case using Cons.IH [OF step(1), of i] step(2) [of i] step(3) [of _ i] by auto
qed simp

lemma forget_incarnation_lookup:
  "fmlookup (forget_incarnation node g ns) node = None \<or> fmlookup (forget_incarnation node g ns) node = Some g"
  "fmlookup (forget_incarnation node g ns) k = Some h \<Longrightarrow> fmlookup ns k = Some h"
  "fmsize (forget_incarnation node g ns) \<le> fmsize ns"
proof -
  show "fmsize (forget_incarnation node g ns) \<le> fmsize ns"
    using fmsize_drop [of ns node] by (fastforce simp: forget_incarnation_def split: option.splits)
qed (auto simp: forget_incarnation_def split: option.splits if_splits)

lemma observed_requirements_effect:
  assumes "requirements_valid r" and "\<And>g. gen = Some g \<Longrightarrow> valid_generation g"
  shows "observed_from node gen r (observed_requirements is node gen r)"
    and "\<lbrakk>i \<in> set is; contains_key (rq_blocks r) i\<rbrakk> \<Longrightarrow> reported node gen i (observed_requirements is node gen r)"
proof -
  have "observed_from node gen r (case gen of Some g \<Rightarrow> r\<lparr>rq_locations := fmmap (forget_incarnation node g) (rq_locations r)\<rparr>
      | None \<Rightarrow> r)"
  proof (cases gen)
    case None
    then show ?thesis using assms(1) by (auto simp: observed_from_def)
  next
    case (Some g)
    let ?r = "r\<lparr>rq_locations := fmmap (forget_incarnation node g) (rq_locations r)\<rparr>"
    have "requirements_valid ?r"
    proof (rule requirements_validI)
      fix i ns
      assume "fmlookup (rq_locations ?r) i = Some ns"
      then obtain ns0 where ns0: "fmlookup (rq_locations r) i = Some ns0" "ns = forget_incarnation node g ns0" by auto
      note old = requirements_validD(4) [OF assms(1) ns0(1)]
      have "fmsize ns \<le> 16" using old forget_incarnation_lookup(3) [of node g ns0] ns0(2) by simp
      moreover have "\<forall>k h. fmlookup ns k = Some h \<longrightarrow> valid_generation h"
        using old forget_incarnation_lookup(2) unfolding ns0(2) by blast
      ultimately show "contains_key (rq_blocks ?r) i \<and> fmsize ns \<le> 16 \<and> (\<forall>k g. fmlookup ns k = Some g \<longrightarrow> valid_generation g)"
        using old by simp
    qed (use requirements_validD(1-3) [OF assms(1)] in auto)
    moreover have "(fmlookup ns node = None \<or> fmlookup ns node = gen) \<and> (\<forall>k h. k \<noteq> node \<longrightarrow> fmlookup ns k = Some h \<longrightarrow>
        (\<exists>ns0. fmlookup (rq_locations r) i = Some ns0 \<and> fmlookup ns0 k = Some h))"
      if new: "fmlookup (rq_locations ?r) i = Some ns" for i ns
    proof -
      obtain ns0 where ns0: "fmlookup (rq_locations r) i = Some ns0" "ns = forget_incarnation node g ns0" using new by auto
      then show ?thesis
        using forget_incarnation_lookup(1) [of node g ns0] forget_incarnation_lookup(2) [of node g ns0] Some
        by simp
    qed
    ultimately show ?thesis unfolding observed_from_def Some option.case by simp
  qed
  from observe_fold [OF this assms(2), of "is"]
  show "observed_from node gen r (observed_requirements is node gen r)"
    and "\<lbrakk>i \<in> set is; contains_key (rq_blocks r) i\<rbrakk> \<Longrightarrow> reported node gen i (observed_requirements is node gen r)"
    by (auto simp: observed_requirements_def)
qed

text \<open>
  C26.  A report of a peer is recorded for good, and only that.  Whichever call of \<^verbatim>\<open>observe\<close> fails and
  wherever the machine crashes after it, the log opens again, with the same intents and at most sixteen
  locations a block.  After \<open>Ok\<close> it is the log in memory: every retained block that was named lists the
  node with the reported generation (or not at all, when the report is negative), no block lists the
  node with another generation, and what is listed of other nodes was listed before.
\<close>

theorem observations_current:
  assumes "requirements_codec_ok c" and "log_stored c rl fs"
    and "observe c fault is node gen rl fs = (r, rl', fs')" and "crash fs' fs''"
  shows "\<exists>rl''. open_repair_log H hex c tmp seed NoFault fs'' = (Inr rl'', fs'') \<and> log_stored c rl'' fs''
    \<and> rq_blocks (rl_requirements rl'') = rq_blocks (rl_requirements rl)
    \<and> (r = Inr () \<longrightarrow> rl'' = rl' \<and> observed_from node gen (rl_requirements rl) (rl_requirements rl')
         \<and> (\<forall>i\<in>set is. retained rl i \<longrightarrow> reported node gen i (rl_requirements rl')))"
proof -
  let ?r = "observed_requirements is node gen (rl_requirements rl)"
  let ?rl = "rl\<lparr>rl_requirements := ?r\<rparr>"
  have valid: "requirements_valid (rl_requirements rl)" using assms(2) by (simp add: log_stored_def)
  have effect: "observed_from node gen (rl_requirements rl) ?r"
    "\<forall>i\<in>set is. retained rl i \<longrightarrow> reported node gen i ?r" if "\<forall>g. gen = Some g \<longrightarrow> valid_generation g"
    using observed_requirements_effect [OF valid, where gen = gen and node = node] that by (simp_all add: retained_def)
  have same: ?thesis
    if "fs' = fs" and ok: "r = Inr () \<Longrightarrow> rl' = rl \<and> ?r = rl_requirements rl \<and> (\<forall>g. gen = Some g \<longrightarrow> valid_generation g)"
  proof -
    have "log_stored c rl fs''" using log_stored_crash [OF assms(2)] assms(4) that(1) by simp
    moreover have "r = Inr () \<longrightarrow> rl = rl' \<and> observed_from node gen (rl_requirements rl) (rl_requirements rl')
         \<and> (\<forall>i\<in>set is. retained rl i \<longrightarrow> reported node gen i (rl_requirements rl'))"
      using effect ok by metis
    ultimately show ?thesis using open_stored [of c rl fs''] by blast
  qed
  show ?thesis
  proof (cases "\<exists>g. gen = Some g \<and> \<not> valid_generation g")
    case True
    then show ?thesis using assms(3) same by (auto simp: observe_def)
  next
    case False
    have run: "observe c fault is node gen rl fs =
        (if rq_locations ?r = rq_locations (rl_requirements rl) then (Inr (), rl, fs)
         else case publish_requirements c fault ?r fs of
           (Inl e, fs') \<Rightarrow> (Inl e, rl, fs') | (Inr _, fs') \<Rightarrow> (Inr (), ?rl, fs'))"
      using False by (simp add: observe_def Let_def split: option.splits)
    show ?thesis
    proof (cases "rq_locations ?r = rq_locations (rl_requirements rl)")
      case True
      have "rq_blocks ?r = rq_blocks (rl_requirements rl)" "rq_version ?r = rq_version (rl_requirements rl)"
        using effect(1) False requirements_validD(1) [OF valid] requirements_validD(1) [of ?r]
        by (simp_all add: observed_from_def)
      then have "?r = rl_requirements rl" using True by simp
      then show ?thesis using same assms(3) False True unfolding run by auto
    next
      case changed: False
      then obtain res where pub: "publish_requirements c fault ?r fs = (res, fs')" "r = res"
        "rl' = (if r = Inr () then ?rl else rl)"
        using assms(3) unfolding run by (auto split: prod.splits sum.splits)
      consider "log_stored c rl fs''" "r \<noteq> Inr ()" | "log_stored c ?rl fs''"
        using publish_survives(1) [OF assms(1,2) _ pub(1) assms(4)] effect(1) False pub(2)
        by (auto simp: observed_from_def)
      then show ?thesis
      proof cases
        case 1
        then show ?thesis using open_stored [of c rl fs''] by auto
      next
        case 2
        then show ?thesis using open_stored [of c ?rl fs''] effect False pub(3)
          by (intro exI [of _ ?rl]) (auto simp: observed_from_def retained_def)
      qed
    qed
  qed
qed

section \<open>Paging\<close>




























section \<open>A concrete log\<close>

text \<open>A log on disk without intents, and a codec for the two states of its first intent.\<close>

definition example_generation :: string where
  "example_generation = replicate 64 CHR ''0''"

definition example_log :: repair_log where
  "example_log = \<lparr>rl_generation = example_generation,
     rl_requirements = \<lparr>rq_version = 1, rq_blocks = fmempty, rq_locations = fmempty\<rparr>\<rparr>"

definition one_intent :: requirements where
  "one_intent = \<lparr>rq_version = 1, rq_blocks = fmap_of_list [(BlockId (fill32 1), 2)], rq_locations = fmempty\<rparr>"

definition one_location :: requirements where
  "one_location = one_intent\<lparr>rq_locations :=
     fmap_of_list [(BlockId (fill32 1), fmap_of_list [(5, example_generation)])]\<rparr>"

definition example_requirements_codec :: requirements_codec where
  "example_requirements_codec =
     \<lparr>requirements_json = (\<lambda>r. if r = one_intent then Inr [1] else if r = one_location then Inr [2] else Inl ''unused''),
      requirements_from_json = (\<lambda>bs. if bs = [1] then Inr one_intent else if bs = [2] then Inr one_location else Inl ''unused'')\<rparr>"

definition repair_fs :: file_system where
  "repair_fs = \<lparr>dir = fmap_of_list [(GENERATION_NAME, 0)], disk_dir = fmap_of_list [(GENERATION_NAME, 0)],
     contents = (\<lambda>_. str_bytes example_generation), disk_contents = (\<lambda>_. str_bytes example_generation), next_inode = 1\<rparr>"

lemma example_requirements_codec_ok: "requirements_codec_ok example_requirements_codec"
  by (simp add: requirements_codec_ok_def example_requirements_codec_def)

lemma example_log_stored: "log_stored example_requirements_codec example_log repair_fs"
proof -
  have "valid_generation example_generation"
    by (simp add: valid_generation_def example_generation_def is_ascii_hexdigit_def list_all_iff)
  moreover have "requirements_valid (rl_requirements example_log)"
    by (simp add: requirements_valid_def example_log_def fmany_iff)
  moreover have "durable_as repair_fs REQUIREMENTS_NAME None"
    using repair_names(1) by (auto simp: durable_as_def repair_fs_def)
  ultimately show ?thesis
    using repair_names(1)
    by (auto simp: log_stored_def example_log_def durable_as_def repair_fs_def fs_ok_def split: if_splits)
qed





lemma example_record:
  "\<exists>fs. record_intents example_requirements_codec NoFault [BlockId (fill32 1)] 2 example_log repair_fs
      = (Inr (), example_log\<lparr>rl_requirements := one_intent\<rparr>, fs) \<and> crash fs fs"
proof -
  have "raise_intent 2 (BlockId (fill32 1)) fmempty = rq_blocks one_intent"
    by (simp add: raise_intent_def one_intent_def)
  moreover have "rq_blocks one_intent \<noteq> fmempty" "fmsize (rq_blocks one_intent) \<le> MAX_RECORDS"
    by (simp_all add: one_intent_def fmsize_fmupd MAX_RECORDS_def)
  moreover have "rl_requirements example_log\<lparr>rq_blocks := rq_blocks one_intent\<rparr> = one_intent"
    by (simp add: example_log_def one_intent_def)
  ultimately have run: "record_intents example_requirements_codec NoFault [BlockId (fill32 1)] 2 example_log repair_fs
      = (Inr (), example_log\<lparr>rl_requirements := one_intent\<rparr>, replace_upto 5 0 REQUIREMENTS_NAME [1] repair_fs)"
    by (simp add: record_intents_def Let_def publish_requirements_def example_requirements_codec_def replace_def
        example_log_def)
  have "crash (replace_upto 5 0 REQUIREMENTS_NAME [1] repair_fs) (replace_upto 5 0 REQUIREMENTS_NAME [1] repair_fs)"
  proof (rule crash_refl)
    have "fs_ok repair_fs" using example_log_stored by (simp add: log_stored_def)
    then show "fs_ok (replace_upto 5 0 REQUIREMENTS_NAME [1] repair_fs)"
      unfolding replace_upto_def by (rule publish_fs_ok)
  qed (simp_all add: replace_upto_def publish_upto_def open_truncate_def repair_fs_def GENERATION_NAME_def
      REQUIREMENTS_NAME_def pending_name_def write_append_def sync_file_def rename_file_def sync_directory_def fun_eq_iff)
  with run show ?thesis by blast
qed

theorem intents_never_lowered_witness:
  "\<exists>fs rl. open_repair_log length_hash simple_hex_encode example_requirements_codec ''tmp'' [] NoFault fs = (Inr rl, fs)
     \<and> (\<exists>k\<ge>2. fmlookup (rq_blocks (rl_requirements rl)) (BlockId (fill32 1)) = Some k)"
proof -
  obtain fs where run: "record_intents example_requirements_codec NoFault [BlockId (fill32 1)] 2 example_log repair_fs
      = (Inr (), example_log\<lparr>rl_requirements := one_intent\<rparr>, fs)" and crash: "crash fs fs"
    using example_record by blast
  from intents_never_lowered [OF example_requirements_codec_ok example_log_stored run crash,
      of length_hash simple_hex_encode "''tmp''" "[]"]
  show ?thesis by (intro exI [of _ fs] exI [of _ "example_log\<lparr>rl_requirements := one_intent\<rparr>"]) simp
qed

text \<open>The log with one intent on disk, and a report of node 5 for its block.\<close>

definition intent_fs :: file_system where
  "intent_fs = \<lparr>dir = fmap_of_list [(GENERATION_NAME, 0), (REQUIREMENTS_NAME, 1)],
     disk_dir = fmap_of_list [(GENERATION_NAME, 0), (REQUIREMENTS_NAME, 1)],
     contents = (\<lambda>_. [1])(0 := str_bytes example_generation),
     disk_contents = (\<lambda>_. [1])(0 := str_bytes example_generation), next_inode = 2\<rparr>"

definition intent_log :: repair_log where
  "intent_log = \<lparr>rl_generation = example_generation, rl_requirements = one_intent\<rparr>"

lemma intent_log_stored: "log_stored example_requirements_codec intent_log intent_fs"
proof -
  have "valid_generation example_generation"
    by (simp add: valid_generation_def example_generation_def is_ascii_hexdigit_def list_all_iff)
  moreover have "requirements_valid one_intent"
    by (simp add: requirements_valid_def one_intent_def fmany_iff fmsize_fmupd MAX_RECORDS_def)
  moreover have "durable_as intent_fs REQUIREMENTS_NAME (Some [1])"
    using repair_names(1) by (auto simp: durable_as_def intent_fs_def split: if_splits)
  moreover have "durable_as intent_fs GENERATION_NAME (Some (str_bytes example_generation))"
    using repair_names(1) by (auto simp: durable_as_def intent_fs_def split: if_splits)
  moreover have "fs_ok intent_fs" using repair_names(1) by (auto simp: fs_ok_def intent_fs_def split: if_splits)
  ultimately show ?thesis
    by (auto simp: log_stored_def intent_log_def example_requirements_codec_def intro!: exI [of _ "Some [1]"])
qed

theorem observations_current_witness:
  "\<exists>fs rl. open_repair_log length_hash simple_hex_encode example_requirements_codec ''tmp'' [] NoFault fs = (Inr rl, fs)
     \<and> reported 5 (Some example_generation) (BlockId (fill32 1)) (rl_requirements rl)"
proof -
  have valid: "valid_generation example_generation" using intent_log_stored by (simp add: log_stored_def intent_log_def)
  let ?fs = "replace_upto 5 0 REQUIREMENTS_NAME [2] intent_fs"
  have "observed_requirements [BlockId (fill32 1)] 5 (Some example_generation) one_intent = one_location"
    by (simp add: observed_requirements_def one_location_def one_intent_def observe_block_def observe_node_def)
  moreover have "rq_locations one_location \<noteq> rq_locations one_intent" "one_location \<noteq> one_intent"
    by (simp_all add: one_location_def one_intent_def)
  ultimately have run: "observe example_requirements_codec NoFault [BlockId (fill32 1)] 5 (Some example_generation) intent_log intent_fs
      = (Inr (), intent_log\<lparr>rl_requirements := one_location\<rparr>, ?fs)"
    using valid by (simp add: observe_def intent_log_def Let_def publish_requirements_def example_requirements_codec_def replace_def)
  have "crash ?fs ?fs"
  proof (rule crash_refl)
    have "fs_ok intent_fs" using intent_log_stored by (simp add: log_stored_def)
    then show "fs_ok ?fs" unfolding replace_upto_def by (rule publish_fs_ok)
  qed (simp_all add: replace_upto_def publish_upto_def open_truncate_def intent_fs_def GENERATION_NAME_def
      REQUIREMENTS_NAME_def pending_name_def write_append_def sync_file_def rename_file_def sync_directory_def fun_eq_iff)
  moreover have "retained intent_log (BlockId (fill32 1))" by (simp add: retained_def intent_log_def one_intent_def)
  ultimately show ?thesis
    using observations_current [OF example_requirements_codec_ok intent_log_stored run, of ?fs length_hash
        simple_hex_encode "''tmp''" "[]"]
    by (intro exI [of _ ?fs] exI [of _ "intent_log\<lparr>rl_requirements := one_location\<rparr>"]) simp
qed

end
