(* ===== verification/Batch_Framing.thy ===== *)
theory Batch_Framing
  imports Encoders
begin

text \<open>
  The body of a batch upload: written by \<open>put_blocks\<close> of \<^verbatim>\<open>kalpak-client/src/lib.rs\<close>, read by
  \<open>put_blocks_batch\<close> of \<^verbatim>\<open>kalpakdb/src/server.rs\<close>.  A \<^verbatim>\<open>u32\<close> count is followed by a \<^verbatim>\<open>u32\<close> length and the
  bytes of each block; the client casts both from \<^verbatim>\<open>usize\<close>, which wraps.
\<close>

definition encode_batch :: "bytes list \<Rightarrow> bytes" where
  "encode_batch ps = count32 (length ps) @ concat (map (\<lambda>p. count32 (length p) @ p) ps)"

text \<open>The loop of the reader: \<open>n\<close> blocks are left, \<open>pos\<close> is the position in the body.\<close>

fun read_blocks :: "bytes \<Rightarrow> nat \<Rightarrow> nat \<Rightarrow> bytes list \<Rightarrow> string + bytes list \<times> nat" where
  "read_blocks body 0 pos ps = Inr (ps, pos)"
| "read_blocks body (Suc n) pos ps =
     (if length body < pos + 4 then Inl ''truncated block length''
      else
        let len = unat (u32_from_le (take 4 (drop pos body))); pos = pos + 4 in
        if length body < pos + len then Inl ''truncated block payload''
        else read_blocks body n (pos + len) (ps @ [take len (drop pos body)]))"

definition parse_batch :: "bytes \<Rightarrow> string + bytes list" where
  "parse_batch body =
     (if length body < 4 then Inl ''truncated batch header''
      else
        let count = unat (u32_from_le (take 4 body)) in
        if 4096 < count then Inl ''batch exceeds 4096 blocks''
        else case read_blocks body count 4 [] of
          Inl e \<Rightarrow> Inl e
        | Inr (ps, pos) \<Rightarrow> if pos \<noteq> length body then Inl ''trailing bytes after batch'' else Inr ps)"

section \<open>Reading back\<close>

lemma unat_count32: "n < 2 ^ 32 \<Longrightarrow> unat (u32_from_le (count32 n)) = n"
  by (simp add: count32_def unat_of_nat)

lemma count32_unat: "length bs = 4 \<Longrightarrow> count32 (unat (u32_from_le bs)) = bs"
  by (simp add: count32_def u32_le_from_le)

text \<open>What was read is what the encoder writes for it.\<close>

lemma read_blocks_inv:
  assumes "read_blocks body n pos ps = Inr (qs, pos')"
  shows "\<exists>rs. qs = ps @ rs \<and> length rs = n \<and> pos \<le> pos' \<and> (pos \<le> length body \<longrightarrow> pos' \<le> length body)
    \<and> (\<forall>r\<in>set rs. length r < 2 ^ 32)
    \<and> take (pos' - pos) (drop pos body) = concat (map (\<lambda>p. count32 (length p) @ p) rs)"
  using assms
proof (induction body n pos ps rule: read_blocks.induct)
  case (2 body n pos ps)
  define len where "len = unat (u32_from_le (take 4 (drop pos body)))"
  define p where "p = take len (drop (pos + 4) body)"
  have fits: "pos + 4 + len \<le> length body" and rec: "read_blocks body n (pos + 4 + len) (ps @ [p]) = Inr (qs, pos')"
    using 2(2) by (auto simp: len_def p_def Let_def split: if_splits)
  obtain rs where rs: "qs = (ps @ [p]) @ rs" "length rs = n" "pos + 4 + len \<le> pos'"
      "pos + 4 + len \<le> length body \<longrightarrow> pos' \<le> length body" "\<forall>r\<in>set rs. length r < 2 ^ 32"
      "take (pos' - (pos + 4 + len)) (drop (pos + 4 + len) body) = concat (map (\<lambda>p. count32 (length p) @ p) rs)"
    using 2(1) [OF _ len_def refl] fits rec unfolding p_def by auto
  have "length p = len" using fits by (simp add: p_def)
  moreover have "len < 2 ^ 32" unfolding len_def by (rule order_less_le_trans [OF unsigned_less]) simp
  moreover have "count32 len = take 4 (drop pos body)"
    unfolding len_def using fits by (intro count32_unat) simp
  moreover have "take (pos' - pos) (drop pos body)
      = take 4 (drop pos body) @ p @ take (pos' - (pos + 4 + len)) (drop (pos + 4 + len) body)"
  proof -
    have "pos' - pos = 4 + (len + (pos' - (pos + 4 + len)))" using rs(3) by simp
    then show ?thesis by (simp only: take_add drop_drop p_def) (simp add: ac_simps)
  qed
  ultimately show ?case
    using rs fits by (intro exI [of _ "p # rs"]) auto
qed simp

lemma read_blocks_encoded:
  assumes "\<forall>r\<in>set rs. length r < 2 ^ 32" and "drop pos body = concat (map (\<lambda>p. count32 (length p) @ p) rs)"
    and "pos \<le> length body"
  shows "read_blocks body (length rs) pos ps = Inr (ps @ rs, length body)"
  using assms
proof (induction rs arbitrary: pos ps)
  case (Cons r rs)
  let ?rest = "concat (map (\<lambda>p. count32 (length p) @ p) rs)"
  have d: "drop pos body = count32 (length r) @ r @ ?rest" using Cons.prems(2) by simp
  have len: "length body = pos + 4 + length r + length ?rest"
    using arg_cong [OF d, of length] Cons.prems(3) by simp
  have "drop (pos + 4) body = r @ ?rest"
    using arg_cong [OF d, of "drop 4"] by (simp add: ac_simps)
  note d4 = this
  have d5: "drop (pos + 4 + length r) body = ?rest"
    using arg_cong [OF d4, of "drop (length r)"] by (simp add: ac_simps)
  have "take (length r) (drop (pos + 4) body) = r" by (simp add: d4)
  then have "read_blocks body (Suc (length rs)) pos ps = read_blocks body (length rs) (pos + 4 + length r) (ps @ [r])"
    using Cons.prems(1) len d by (simp add: unat_count32 Let_def)
  also have "\<dots> = Inr ((ps @ [r]) @ rs, length body)"
    using Cons.prems(1) len by (intro Cons.IH d5) auto
  finally show ?case by simp
qed simp

lemma parse_batch_inv:
  assumes parsed: "parse_batch body = Inr ps"
  shows "body = encode_batch ps \<and> length ps \<le> 4096 \<and> list_all (\<lambda>p. length p < 2 ^ 32) ps"
proof -
  define n where "n = unat (u32_from_le (take 4 body))"
  have hd: "4 \<le> length body" "n \<le> 4096" "read_blocks body n 4 [] = Inr (ps, length body)"
    using parsed by (auto simp: parse_batch_def n_def Let_def split: if_splits sum.splits)
  from read_blocks_inv [OF hd(3)] have r: "length ps = n" "\<forall>r\<in>set ps. length r < 2 ^ 32"
      "drop 4 body = concat (map (\<lambda>p. count32 (length p) @ p) ps)" by auto
  have "take 4 body = count32 n" unfolding n_def using hd(1) by (simp add: count32_unat)
  then have "body = encode_batch ps"
    using r append_take_drop_id [of 4 body] by (simp add: encode_batch_def)
  then show ?thesis
    using r hd(2) by (simp add: list_all_iff)
qed

text \<open>
  C34.  The server reads exactly the batches that the client writes.  A body is accepted with the payloads
  \<open>ps\<close> if and only if it is the client's encoding of \<open>ps\<close>, there are at most 4096 of them, and each is
  shorter than \<open>2\<^sup>3\<^sup>2\<close> bytes; so no body has two readings, and truncated bodies, trailing bytes and
  counts or lengths that do not match are refused.
\<close>

theorem batch_roundtrip:
  "parse_batch body = Inr ps \<longleftrightarrow>
     body = encode_batch ps \<and> length ps \<le> 4096 \<and> list_all (\<lambda>p. length p < 2 ^ 32) ps"
proof (intro iffI parse_batch_inv)
  assume enc: "body = encode_batch ps \<and> length ps \<le> 4096 \<and> list_all (\<lambda>p. length p < 2 ^ 32) ps"
  then have "read_blocks body (length ps) 4 [] = Inr ([] @ ps, length body)"
    by (intro read_blocks_encoded) (auto simp: encode_batch_def list_all_iff)
  moreover have "unat (u32_from_le (take 4 body)) = length ps"
    using enc by (simp add: encode_batch_def unat_count32)
  ultimately show "parse_batch body = Inr ps"
    using enc by (simp add: parse_batch_def) (simp add: encode_batch_def)
qed

end
