(* ===== verification/Data_Plane.thy ===== *)
theory Data_Plane
  imports Request_Handlers Retention Repair_Log Batch_Framing
begin

text \<open>
  The block routes of \<^verbatim>\<open>kalpakdb/src/server.rs\<close>: single and batch uploads with replication, the presence
  answer to a peer, and reads that fetch a missing block from a peer.

  A node is the record of the components the handlers change.  Peers and consensus are functions of the
  environment: what a peer answers to a request, or that no answer arrived before the deadline of the whole
  operation.  The answers of one peer to a sequence of requests may differ: its calls are numbered.  Each
  file operation takes the next entry of \<open>dn_faults\<close>, which says which of its calls fails.
\<close>

section \<open>Environment and state\<close>

text \<open>The body of a response arrives in chunks; a chunk that is not received is \<open>None\<close>.\<close>

datatype peer_result = Response nat "bytes option list" | SendError string | Deadline

text \<open>The fields the handlers read from a JSON answer.\<close>

record peer_json =
  js_node_id :: "u64 option"
  js_id :: "string option"
  js_ids :: "string list option"
  js_generation :: "string option"
  js_present :: "bool option"
  js_cold_verified :: "bool option"
  js_retained :: "bool option"

record data_env =
  de_hash :: "bytes \<Rightarrow> bytes32"
  de_hex :: "bytes \<Rightarrow> string"
  de_unhex :: "string \<Rightarrow> bytes option"
  de_cache_insert :: cache_insert
  de_order :: "block_id fset \<Rightarrow> block_id list"
  de_codec :: requirements_codec
  de_json :: "bytes \<Rightarrow> peer_json option"
  de_submit :: client_write
  de_metrics :: raft_metrics
  de_linearizable :: "string + unit"
  de_consensus_deadline :: bool
  de_post_requirements :: "string \<Rightarrow> block_id list \<Rightarrow> nat \<Rightarrow> peer_result"
  de_presence :: "string \<Rightarrow> nat \<Rightarrow> block_id \<Rightarrow> peer_result"
  de_push :: "string \<Rightarrow> string \<Rightarrow> bytes \<Rightarrow> peer_result"
  de_fetch :: "string \<Rightarrow> block_id \<Rightarrow> (nat \<times> bytes option) option"

record data_node =
  dn_store :: tiered_store
  dn_retention :: retention
  dn_repairs :: repair_log
  dn_files :: file_system
  dn_meta :: metadata_state
  dn_pushes :: u64
  dn_sent :: "(string \<times> string \<times> bytes) list"
  dn_faults :: "fault list"

datatype handler_error = Api api_error | HandlerPanic

fun of_store_error :: "store_error \<Rightarrow> handler_error" where
  "of_store_error (Failure e) = Api (api_of_error e)"
| "of_store_error Panic = HandlerPanic"

definition take_fault :: "data_node \<Rightarrow> fault \<times> data_node" where
  "take_fault nd =
     (case dn_faults nd of [] \<Rightarrow> (NoFault, nd) | f # fs \<Rightarrow> (f, nd\<lparr>dn_faults := fs\<rparr>))"

section \<open>Calls of the components\<close>

definition node_put :: "data_env \<Rightarrow> bytes \<Rightarrow> data_node \<Rightarrow> (store_error + block_id) \<times> data_node" where
  "node_put env p nd =
     (let (f, nd) = take_fault nd; (r, t) = tiered_put (de_hash env) (de_cache_insert env) f p (dn_store nd)
      in (r, nd\<lparr>dn_store := t\<rparr>))"

definition node_put_many ::
  "data_env \<Rightarrow> bytes list \<Rightarrow> data_node \<Rightarrow> (store_error + block_id list) \<times> data_node" where
  "node_put_many env ps nd =
     (let (f, nd) = take_fault nd; (r, t) = tiered_put_many (de_hash env) (de_cache_insert env) f ps (dn_store nd)
      in (r, nd\<lparr>dn_store := t\<rparr>))"

definition node_repair ::
  "data_env \<Rightarrow> block_id \<Rightarrow> bytes \<Rightarrow> data_node \<Rightarrow> (store_error + block_id) \<times> data_node" where
  "node_repair env i p nd =
     (let (f, nd) = take_fault nd; (r, t) = tiered_repair (de_hash env) (de_cache_insert env) f i p (dn_store nd)
      in (r, nd\<lparr>dn_store := t\<rparr>))"

definition node_verify :: "data_env \<Rightarrow> block_id \<Rightarrow> data_node \<Rightarrow> (store_error + unit) \<times> data_node" where
  "node_verify env i nd =
     (let (r, t) = verify_cold (de_hash env) i (dn_store nd) in (r, nd\<lparr>dn_store := t\<rparr>))"

definition node_record ::
  "data_env \<Rightarrow> block_id list \<Rightarrow> nat \<Rightarrow> data_node \<Rightarrow> (string + unit) \<times> data_node" where
  "node_record env is n nd =
     (let (f, nd) = take_fault nd; (r, rl, fs) = record_intents (de_codec env) f is n (dn_repairs nd) (dn_files nd)
      in (r, nd\<lparr>dn_repairs := rl, dn_files := fs\<rparr>))"

definition node_observe ::
  "data_env \<Rightarrow> block_id list \<Rightarrow> u64 \<Rightarrow> string option \<Rightarrow> data_node \<Rightarrow> (string + unit) \<times> data_node" where
  "node_observe env is node gen nd =
     (let (f, nd) = take_fault nd; (r, rl, fs) = observe (de_codec env) f is node gen (dn_repairs nd) (dn_files nd)
      in (r, nd\<lparr>dn_repairs := rl, dn_files := fs\<rparr>))"

fun retention_message :: "retention_error \<Rightarrow> string" where
  "retention_message (RetentionIo m) = m"
| "retention_message (WouldBlock m) = m"
| "retention_message (InvalidInput m) = m"

text \<open>The rest of a handler runs under the guard of its blocks, which is dropped when it returns.\<close>

definition with_guard ::
  "data_env \<Rightarrow> block_id list \<Rightarrow> (data_node \<Rightarrow> (handler_error + 'a) \<times> data_node) \<Rightarrow> data_node
     \<Rightarrow> (handler_error + 'a) \<times> data_node" where
  "with_guard env is rest nd =
     (let (f, nd) = take_fault nd;
          (g, rt, fs) = protect (de_hash env) (de_order env) f is (dn_retention nd) (dn_files nd);
          nd = nd\<lparr>dn_retention := rt, dn_files := fs\<rparr>
      in case g of
           Inl e \<Rightarrow> (Inl (Api (api_of_error (Io (retention_message e)))), nd)
         | Inr held \<Rightarrow>
             let (r, nd) = rest nd in
             (case drop_guard (de_order env held) (dn_retention nd) of
                None \<Rightarrow> (Inl HandlerPanic, nd)
              | Some rt \<Rightarrow> (r, nd\<lparr>dn_retention := rt\<rparr>)))"

section \<open>The replica header\<close>

text \<open>\<^verbatim>\<open>str::parse::<usize>\<close>: an optional plus sign, then at least one digit, below \<open>2\<^sup>6\<^sup>4\<close> at every step.\<close>

definition digit_value :: "char \<Rightarrow> nat option" where
  "digit_value c =
     (if 48 \<le> (of_char c :: nat) \<and> (of_char c :: nat) \<le> 57 then Some (of_char c - 48) else None)"

fun parse_digits :: "nat \<Rightarrow> string \<Rightarrow> nat option" where
  "parse_digits acc [] = Some acc"
| "parse_digits acc (c # cs) =
     (case digit_value c of
        None \<Rightarrow> None
      | Some d \<Rightarrow> if acc * 10 + d < 2 ^ 64 then parse_digits (acc * 10 + d) cs else None)"

definition parse_usize :: "string \<Rightarrow> nat option" where
  "parse_usize v =
     (let ds = (case v of c # cs \<Rightarrow> if c = CHR ''+'' then cs else v | [] \<Rightarrow> v)
      in if ds = [] then None else parse_digits 0 ds)"

text \<open>A header that is not ASCII text is \<open>Some (Inl ())\<close>.\<close>

definition parse_replicas :: "(unit + string) option \<Rightarrow> string + nat" where
  "parse_replicas header =
     (case header of
        None \<Rightarrow> Inr 1
      | Some (Inl _) \<Rightarrow> Inl ''invalid x-kalpak-replicas encoding''
      | Some (Inr v) \<Rightarrow>
          (case parse_usize v of
             Some n \<Rightarrow> if 1 \<le> n \<and> n \<le> 16 then Inr n
               else Inl ''x-kalpak-replicas must be an integer from 1 to 16''
           | None \<Rightarrow> Inl ''x-kalpak-replicas must be an integer from 1 to 16''))"

record upload_headers =
  uh_replicas :: "(unit + string) option"
  uh_internal :: bool
  uh_retain_replica :: bool

section \<open>Answers of peers\<close>

text \<open>\<open>bounded_peer_json\<close>: a body is read only up to a limit.\<close>

fun bounded_body :: "nat \<Rightarrow> bytes \<Rightarrow> bytes option list \<Rightarrow> bytes option" where
  "bounded_body limit acc [] = Some acc"
| "bounded_body limit acc (None # cs) = None"
| "bounded_body limit acc (Some c # cs) =
     (if limit - length acc < length c then None else bounded_body limit (acc @ c) cs)"

definition bounded_peer_json :: "(bytes \<Rightarrow> peer_json option) \<Rightarrow> nat \<Rightarrow> bytes option list \<Rightarrow> peer_json option" where
  "bounded_peer_json from_slice limit chunks = Option.bind (bounded_body limit [] chunks) from_slice"

text \<open>
  \<open>probe_peer\<close> asks for each block whether the peer holds it; the answers must come from one incarnation of
  the node.  \<open>Inl\<close> is the deadline of the whole operation.
\<close>

fun probe_from ::
  "data_env \<Rightarrow> u64 \<Rightarrow> string \<Rightarrow> nat \<Rightarrow> string option \<Rightarrow> block_id list \<Rightarrow> data_node
     \<Rightarrow> (unit + string option) \<times> data_node" where
  "probe_from env node addr k inc [] nd = (Inr inc, nd)"
| "probe_from env node addr k inc (i # is) nd =
     (case de_presence env addr k i of
        Deadline \<Rightarrow> (Inl (), nd)
      | SendError _ \<Rightarrow> (Inr None, nd)
      | Response status chunks \<Rightarrow>
          if \<not> is_success status then (Inr None, nd)
          else case bounded_peer_json (de_json env) 2048 chunks of
            None \<Rightarrow> (Inr None, nd)
          | Some v \<Rightarrow>
              (case js_generation v of
                 None \<Rightarrow> (Inr None, nd)
               | Some g \<Rightarrow>
                   if js_node_id v \<noteq> Some node \<or> js_id v \<noteq> Some (block_id_to_string (de_hex env) i)
                      \<or> \<not> valid_generation g
                   then (Inr None, nd)
                   else case node_observe env [] node (Some g) nd of
                     (Inl _, nd) \<Rightarrow> (Inr None, nd)
                   | (Inr _, nd) \<Rightarrow>
                       if js_present v \<noteq> Some True \<or> js_cold_verified v \<noteq> Some True \<or> js_retained v \<noteq> Some True
                       then (Inr None, nd)
                       else if (case inc of Some old \<Rightarrow> old \<noteq> g | None \<Rightarrow> False) then (Inr None, nd)
                       else probe_from env node addr (Suc k) (Some g) is nd))"

definition probe_peer ::
  "data_env \<Rightarrow> u64 \<Rightarrow> string \<Rightarrow> block_id list \<Rightarrow> data_node \<Rightarrow> (unit + string option) \<times> data_node" where
  "probe_peer env node addr is nd = probe_from env node addr 0 None is nd"

text \<open>What the answer to a pushed body must repeat.\<close>

datatype expected = ExpectId string | ExpectIds "string list"

fun repeats :: "expected \<Rightarrow> peer_json \<Rightarrow> bool" where
  "repeats (ExpectId x) v \<longleftrightarrow> js_id v = Some x"
| "repeats (ExpectIds xs) v \<longleftrightarrow> js_ids v = Some xs"

definition push_accepted :: "u64 \<Rightarrow> expected \<Rightarrow> peer_json \<Rightarrow> bool" where
  "push_accepted node e v \<longleftrightarrow>
     js_node_id v = Some node \<and> js_retained v = Some True \<and> js_cold_verified v = Some True
     \<and> (case js_generation v of Some g \<Rightarrow> valid_generation g | None \<Rightarrow> False) \<and> repeats e v"

section \<open>Replicating an upload\<close>

fun decimal :: "nat \<Rightarrow> string" where
  "decimal n = (if n < 10 then [char_of (48 + n)] else decimal (n div 10) @ [char_of (48 + n mod 10)])"

declare decimal.simps [simp del]

definition deadline_message :: api_message where
  "deadline_message = Text ''replica acknowledgement deadline exceeded; partial writes may exist''"

text \<open>The loop over the peers; \<open>endpoints\<close> are the addresses asked so far.\<close>

fun acknowledge_from ::
  "data_env \<Rightarrow> string \<Rightarrow> bytes \<Rightarrow> expected \<Rightarrow> nat \<Rightarrow> block_id list \<Rightarrow> nat \<Rightarrow> string list \<Rightarrow> (u64 \<times> string) list
     \<Rightarrow> data_node \<Rightarrow> (api_message + unit) \<times> data_node" where
  "acknowledge_from env path body e required is acknowledged endpoints [] nd =
     (Inl (Text (''need '' @ decimal required @ '' replicas, received '' @ decimal acknowledged
        @ '' durable acknowledgements; partial writes may exist'')), nd)"
| "acknowledge_from env path body e required is acknowledged endpoints ((node, addr) # peers) nd =
     (let continue = (\<lambda>n. acknowledge_from env path body e required is n (addr # endpoints) peers);
          accept = (\<lambda>gen nd. case node_observe env is node gen nd of
              (Inl err, nd) \<Rightarrow> (Inl (Text err), nd)
            | (Inr _, nd) \<Rightarrow> if required \<le> acknowledged + 1 then (Inr (), nd) else continue (acknowledged + 1) nd)
      in
      if addr \<in> set endpoints then acknowledge_from env path body e required is acknowledged endpoints peers nd
      else case probe_peer env node addr is nd of
        (Inl _, nd) \<Rightarrow> (Inl deadline_message, nd)
      | (Inr (Some g), nd) \<Rightarrow> accept (Some g) nd
      | (Inr None, nd) \<Rightarrow>
          (case node_observe env is node None nd of
             (Inl err, nd) \<Rightarrow> (Inl (Text err), nd)
           | (Inr _, nd) \<Rightarrow>
               let nd = nd\<lparr>dn_pushes := dn_pushes nd + 1, dn_sent := dn_sent nd @ [(addr, path, body)]\<rparr> in
               (case de_push env addr path body of
                  Deadline \<Rightarrow> (Inl deadline_message, nd)
                | SendError _ \<Rightarrow> continue acknowledged nd
                | Response status chunks \<Rightarrow>
                    (case if is_success status then bounded_peer_json (de_json env) (512 * 1024) chunks else None of
                       None \<Rightarrow> continue acknowledged nd
                     | Some v \<Rightarrow>
                         if push_accepted node e v then accept (js_generation v) nd
                         else continue acknowledged nd))))"

definition commit_requirements ::
  "data_env \<Rightarrow> block_id list \<Rightarrow> nat \<Rightarrow> metadata_state \<Rightarrow> (api_message + unit) \<times> metadata_state" where
  "commit_requirements env bs n s =
     (let (r, s) = require_replicas (de_submit env) (de_metrics env) (de_linearizable env) bs n s;
          late = Inl (Text ''replica requirement consensus deadline exceeded'')
      in if de_consensus_deadline env then (late, s)
         else case r of
           Inr _ \<Rightarrow> (Inr (), s)
         | Inl (NotLeader (Some addr)) \<Rightarrow>
             (case de_post_requirements env addr bs n of
                Deadline \<Rightarrow> (late, s)
              | SendError err \<Rightarrow> (Inl (Text err), s)
              | Response status _ \<Rightarrow>
                  if is_success status then (Inr (), s)
                  else (Inl (Text ''leader rejected replica requirements''), s))
         | Inl err \<Rightarrow> (Inl (ControlMessage err), s))"

fun parse_ids :: "data_env \<Rightarrow> string list \<Rightarrow> block_id list option" where
  "parse_ids env [] = Some []"
| "parse_ids env (x # xs) =
     (case (block_id_from_str (de_unhex env) x, parse_ids env xs) of
        (Inr i, Some is) \<Rightarrow> Some (i # is) | _ \<Rightarrow> None)"

fun expected_ids :: "data_env \<Rightarrow> expected \<Rightarrow> string + block_id list" where
  "expected_ids env (ExpectId x) =
     (case block_id_from_str (de_unhex env) x of
        Inl _ \<Rightarrow> Inl ''invalid replica block id'' | Inr i \<Rightarrow> Inr [i])"
| "expected_ids env (ExpectIds xs) =
     (case parse_ids env xs of None \<Rightarrow> Inl ''invalid replica block ids'' | Some is \<Rightarrow> Inr is)"

text \<open>The verification runs in a task of its own; a panic there is an error of the task.\<close>

fun verify_local :: "data_env \<Rightarrow> block_id list \<Rightarrow> data_node \<Rightarrow> (api_message + unit) \<times> data_node" where
  "verify_local env [] nd = (Inr (), nd)"
| "verify_local env (i # is) nd =
     (case node_verify env i nd of
        (Inl (Failure err), nd) \<Rightarrow> (Inl (CoreMessage err), nd)
      | (Inl Panic, nd) \<Rightarrow> (Inl (Text ''task panicked''), nd)
      | (Inr _, nd) \<Rightarrow> verify_local env is nd)"

text \<open>Peers that were seen with the first block come first, each group by node number.\<close>

definition ordered_peers :: "data_env \<Rightarrow> block_id list \<Rightarrow> repair_log \<Rightarrow> (u64 \<times> string) list" where
  "ordered_peers env is rl =
     (let known = (case is of [] \<Rightarrow> [] | i # _ \<Rightarrow> known_nodes rl i); peers = peer_nodes (de_metrics env)
      in sort_key fst (filter (\<lambda>(node, _). node \<in> set known) peers)
         @ sort_key fst (filter (\<lambda>(node, _). node \<notin> set known) peers))"

definition acknowledge_replicas ::
  "data_env \<Rightarrow> string \<Rightarrow> bytes \<Rightarrow> expected \<Rightarrow> nat \<Rightarrow> data_node \<Rightarrow> (api_message + unit) \<times> data_node" where
  "acknowledge_replicas env path body e required nd =
     (if required = 1 then (Inr (), nd)
      else case expected_ids env e of
        Inl err \<Rightarrow> (Inl (Text err), nd)
      | Inr is \<Rightarrow>
          let (committed, s) = commit_requirements env is required (dn_meta nd); nd = nd\<lparr>dn_meta := s\<rparr> in
          (case committed of
             Inl err \<Rightarrow> (Inl err, nd)
           | Inr _ \<Rightarrow>
               (case verify_local env is nd of
                  (Inl err, nd) \<Rightarrow> (Inl err, nd)
                | (Inr _, nd) \<Rightarrow>
                    (case node_observe env is (metrics_id (de_metrics env)) (Some (rl_generation (dn_repairs nd))) nd of
                       (Inl err, nd) \<Rightarrow> (Inl (Text err), nd)
                     | (Inr _, nd) \<Rightarrow>
                         let peers = ordered_peers env is (dn_repairs nd) in
                         if length peers + 1 < required
                         then (Inl (Text (''need '' @ decimal required @ '' replicas, membership has only ''
                                @ decimal (length peers + 1) @ '' nodes; local write may already exist'')), nd)
                         else acknowledge_from env path body e required is 1 [] peers nd))))"

section \<open>Uploads\<close>

record put_reply =
  pr_ids :: "string list"
  pr_bytes :: "nat option"
  pr_node_id :: u64
  pr_generation :: string
  pr_cold_verified :: bool
  pr_retained :: bool

text \<open>Without a replica requirement an upload from outside is pushed to every peer in the background.\<close>

definition push_to_peers :: "data_env \<Rightarrow> string \<Rightarrow> bytes \<Rightarrow> data_node \<Rightarrow> data_node" where
  "push_to_peers env path body nd =
     nd\<lparr>dn_sent := dn_sent nd @ map (\<lambda>peer. (peer, path, body)) (peer_addrs (de_metrics env))\<rparr>"

text \<open>The end of both upload routes: acknowledgements, the background push and the reply.\<close>

definition finish_upload ::
  "data_env \<Rightarrow> upload_headers \<Rightarrow> string \<Rightarrow> bytes \<Rightarrow> expected \<Rightarrow> string list \<Rightarrow> nat \<Rightarrow> data_node
     \<Rightarrow> (handler_error + put_reply) \<times> data_node" where
  "finish_upload env hdr path body e texts replicas nd =
     (let (r, nd) = (if 1 < replicas then acknowledge_replicas env path body e replicas nd else (Inr (), nd)) in
      case r of
        Inl err \<Rightarrow> (Inl (Api (ApiError 503 err)), nd)
      | Inr _ \<Rightarrow>
          let nd = (if replicas = 1 \<and> \<not> uh_internal hdr then push_to_peers env path body nd else nd);
              kept = (1 < replicas \<or> uh_retain_replica hdr)
          in (Inr \<lparr>pr_ids = texts, pr_bytes = (case e of ExpectId _ \<Rightarrow> Some (length body) | ExpectIds _ \<Rightarrow> None),
                pr_node_id = metrics_id (de_metrics env),
                pr_generation = rl_generation (dn_repairs nd), pr_cold_verified = kept, pr_retained = kept\<rparr>, nd))"

definition put_block_route ::
  "data_env \<Rightarrow> upload_headers \<Rightarrow> bytes \<Rightarrow> data_node \<Rightarrow> (handler_error + put_reply) \<times> data_node" where
  "put_block_route env hdr body nd =
     (case parse_replicas (uh_replicas hdr) of
        Inl err \<Rightarrow> (Inl (Api (ApiError 400 (Text err))), nd)
      | Inr replicas \<Rightarrow>
          let i = block_id_of (de_hash env) body; keep = (1 < replicas \<or> uh_retain_replica hdr) in
          with_guard env [i] (\<lambda>nd.
            case (if keep then node_record env [i] replicas nd else (Inr (), nd)) of
              (Inl err, nd) \<Rightarrow> (Inl (Api (api_of_error (Io err))), nd)
            | (Inr _, nd) \<Rightarrow>
                (case (if keep then node_repair env i body nd else node_put env body nd) of
                   (Inl err, nd) \<Rightarrow> (Inl (of_store_error err), nd)
                 | (Inr j, nd) \<Rightarrow>
                     let text = block_id_to_string (de_hex env) j in
                     finish_upload env hdr ''/v1/blocks'' body (ExpectId text) [text] replicas nd)) nd)"

fun repair_each :: "data_env \<Rightarrow> (block_id \<times> bytes) list \<Rightarrow> data_node \<Rightarrow> (store_error + unit) \<times> data_node" where
  "repair_each env [] nd = (Inr (), nd)"
| "repair_each env ((i, p) # xs) nd =
     (case node_repair env i p nd of
        (Inl err, nd) \<Rightarrow> (Inl err, nd)
      | (Inr _, nd) \<Rightarrow> repair_each env xs nd)"

definition put_batch_route ::
  "data_env \<Rightarrow> upload_headers \<Rightarrow> bytes \<Rightarrow> data_node \<Rightarrow> (handler_error + put_reply) \<times> data_node" where
  "put_batch_route env hdr body nd =
     (case parse_replicas (uh_replicas hdr) of
        Inl err \<Rightarrow> (Inl (Api (ApiError 400 (Text err))), nd)
      | Inr replicas \<Rightarrow>
          (case parse_batch body of
             Inl err \<Rightarrow> (Inl (Api (ApiError 400 (Text err))), nd)
           | Inr payloads \<Rightarrow>
               let guarded = map (block_id_of (de_hash env)) payloads; keep = (1 < replicas \<or> uh_retain_replica hdr) in
               with_guard env guarded (\<lambda>nd.
                 case (if keep then node_record env guarded replicas nd else (Inr (), nd)) of
                   (Inl err, nd) \<Rightarrow> (Inl (Api (api_of_error (Io err))), nd)
                 | (Inr _, nd) \<Rightarrow>
                     (case node_put_many env payloads nd of
                        (Inl err, nd) \<Rightarrow> (Inl (of_store_error err), nd)
                      | (Inr is, nd) \<Rightarrow>
                          (case (if keep then repair_each env (zip is payloads) nd else (Inr (), nd)) of
                             (Inl err, nd) \<Rightarrow> (Inl (of_store_error err), nd)
                           | (Inr _, nd) \<Rightarrow>
                               let texts = map (block_id_to_string (de_hex env)) is in
                               finish_upload env hdr ''/v1/blocks/batch'' body (ExpectIds texts) texts replicas nd))) nd))"

section \<open>Reads\<close>

record presence_reply =
  pp_id :: string
  pp_node_id :: u64
  pp_generation :: string
  pp_present :: bool
  pp_cold_verified :: bool
  pp_retained :: bool

text \<open>\<open>block_presence\<close>: \<open>slot\<close> is the answer of the semaphore that bounds verifications.\<close>

definition block_presence ::
  "data_env \<Rightarrow> (string + unit) \<Rightarrow> string \<Rightarrow> data_node \<Rightarrow> (handler_error + presence_reply) \<times> data_node" where
  "block_presence env slot text nd =
     (case block_id_from_str (de_unhex env) text of
        Inl err \<Rightarrow> (Inl (Api (api_of_error err)), nd)
      | Inr i \<Rightarrow>
          (case slot of
             Inl m \<Rightarrow> (Inl (Api (ApiError 503 (Text m))), nd)
           | Inr _ \<Rightarrow>
               (case node_verify env i nd of
                  (Inl Panic, nd) \<Rightarrow> (Inl (Api (ApiError 500 (Text ''task panicked''))), nd)
                | (r, nd) \<Rightarrow>
                    (Inr \<lparr>pp_id = text, pp_node_id = metrics_id (de_metrics env),
                       pp_generation = rl_generation (dn_repairs nd), pp_present = \<not> isl r, pp_cold_verified = \<not> isl r,
                       pp_retained = retained (dn_repairs nd) i\<rparr>, nd))))"

definition require_replicas_route ::
  "data_env \<Rightarrow> block_id list \<Rightarrow> nat \<Rightarrow> data_node \<Rightarrow> (handler_error + unit) \<times> data_node" where
  "require_replicas_route env bs n nd =
     (case require_replicas (de_submit env) (de_metrics env) (de_linearizable env) bs n (dn_meta nd) of
        (Inl err, s) \<Rightarrow> (Inl (Api (api_of_control err)), nd\<lparr>dn_meta := s\<rparr>)
      | (Inr _, s) \<Rightarrow> (Inr (), nd\<lparr>dn_meta := s\<rparr>))"

text \<open>A missing block is fetched from the first peer that returns bytes of the right hash, and kept.\<close>

fun fetch_from :: "data_env \<Rightarrow> block_id \<Rightarrow> string list \<Rightarrow> data_node \<Rightarrow> (handler_error + bytes) \<times> data_node" where
  "fetch_from env i [] nd = (Inl (Api (api_of_error (BlockNotFound i))), nd)"
| "fetch_from env i (peer # peers) nd =
     (case de_fetch env peer i of
        None \<Rightarrow> fetch_from env i peers nd
      | Some (status, received) \<Rightarrow>
          if \<not> is_success status then fetch_from env i peers nd
          else case received of
            None \<Rightarrow> fetch_from env i peers nd
          | Some bs \<Rightarrow>
              if block_id_of (de_hash env) bs \<noteq> i then fetch_from env i peers nd
              else with_guard env [i] (\<lambda>nd.
                case node_put env bs nd of
                  (Inl err, nd) \<Rightarrow> (Inl (of_store_error err), nd)
                | (Inr _, nd) \<Rightarrow> (Inr bs, nd)) nd)"

definition get_block_route ::
  "data_env \<Rightarrow> bool \<Rightarrow> string \<Rightarrow> data_node \<Rightarrow> (handler_error + bytes) \<times> data_node" where
  "get_block_route env internal text nd =
     (case block_id_from_str (de_unhex env) text of
        Inl err \<Rightarrow> (Inl (Api (api_of_error err)), nd)
      | Inr i \<Rightarrow>
          let (r, t) = tiered_get (de_hash env) (de_cache_insert env) i (dn_store nd); nd = nd\<lparr>dn_store := t\<rparr> in
          (case r of
             Inr p \<Rightarrow> (Inr p, nd)
           | Inl err \<Rightarrow>
               if (case err of Failure (BlockNotFound _) \<Rightarrow> \<not> internal | _ \<Rightarrow> False)
               then fetch_from env i (peer_addrs (de_metrics env)) nd
               else (Inl (of_store_error err), nd)))"

end
