(* ===== verification/Replication.thy ===== *)
theory Replication
  imports Data_Plane
begin

text \<open>
  What an acknowledged upload means: the copies that were vouched for, the local copy, and the local and
  replicated records of the requirement; and what a read may return.
\<close>

section \<open>What the calls keep\<close>

text \<open>The loops over peers change only observations, files and counters.\<close>

definition same_data :: "data_node \<Rightarrow> data_node \<Rightarrow> bool" where
  "same_data nd nd' \<longleftrightarrow>
     dn_store nd' = dn_store nd \<and> dn_retention nd' = dn_retention nd \<and> dn_meta nd' = dn_meta nd
     \<and> rq_blocks (rl_requirements (dn_repairs nd')) = rq_blocks (rl_requirements (dn_repairs nd))
     \<and> rl_generation (dn_repairs nd') = rl_generation (dn_repairs nd)"

lemma same_data_refl: "same_data nd nd"
  by (simp add: same_data_def)

lemma same_data_trans: "same_data a b \<Longrightarrow> same_data b c \<Longrightarrow> same_data a c"
  by (simp add: same_data_def)

lemma same_data_sent: "same_data a b \<Longrightarrow> same_data a (b\<lparr>dn_pushes := n, dn_sent := xs\<rparr>)"
  by (simp add: same_data_def)

lemma take_fault_fields:
  "take_fault nd = (f, nd') \<Longrightarrow> dn_store nd' = dn_store nd \<and> dn_retention nd' = dn_retention nd \<and> dn_meta nd' = dn_meta nd
     \<and> dn_repairs nd' = dn_repairs nd \<and> dn_files nd' = dn_files nd"
  by (auto simp: take_fault_def split: list.splits)

lemma observed_blocks: "rq_blocks (observed_requirements is node gen r) = rq_blocks r"
proof -
  have "rq_blocks (fold (observe_block node gen) is r') = rq_blocks r'" for r'
    by (induction "is" arbitrary: r') (simp_all add: observe_block_def)
  then show ?thesis by (simp add: observed_requirements_def split: option.splits)
qed

lemma observe_keeps:
  assumes "observe c f is node gen rl fs = (r, rl', fs')"
  shows "rq_blocks (rl_requirements rl') = rq_blocks (rl_requirements rl) \<and> rl_generation rl' = rl_generation rl"
  using assms by (auto simp: observe_def Let_def observed_blocks split: if_splits prod.splits sum.splits)

lemma node_observe_keeps: "node_observe env is node gen nd = (r, nd') \<Longrightarrow> same_data nd nd'"
  by (auto simp: node_observe_def same_data_def dest!: take_fault_fields observe_keeps split: prod.splits)

section \<open>Peers that vouch for the blocks\<close>

text \<open>A presence answer that counts for block \<open>i\<close>: from the node itself, of generation \<open>g\<close>, verified and retained.\<close>

definition answers :: "data_env \<Rightarrow> u64 \<Rightarrow> string \<Rightarrow> nat \<Rightarrow> block_id \<Rightarrow> string \<Rightarrow> bool" where
  "answers env node addr k i g \<longleftrightarrow>
     (\<exists>status chunks v. de_presence env addr k i = Response status chunks \<and> is_success status
        \<and> bounded_peer_json (de_json env) 2048 chunks = Some v \<and> js_node_id v = Some node
        \<and> js_id v = Some (block_id_to_string (de_hex env) i) \<and> js_generation v = Some g \<and> valid_generation g
        \<and> js_present v = Some True \<and> js_cold_verified v = Some True \<and> js_retained v = Some True)"

definition pushed :: "data_env \<Rightarrow> string \<Rightarrow> bytes \<Rightarrow> expected \<Rightarrow> u64 \<Rightarrow> string \<Rightarrow> bool" where
  "pushed env path body e node addr \<longleftrightarrow>
     (\<exists>status chunks v. de_push env addr path body = Response status chunks \<and> is_success status
        \<and> bounded_peer_json (de_json env) (512 * 1024) chunks = Some v \<and> push_accepted node e v)"

definition vouched ::
  "data_env \<Rightarrow> string \<Rightarrow> bytes \<Rightarrow> expected \<Rightarrow> block_id list \<Rightarrow> u64 \<Rightarrow> string \<Rightarrow> bool" where
  "vouched env path body e is node addr \<longleftrightarrow>
     is \<noteq> [] \<and> (\<exists>g. \<forall>k<length is. answers env node addr k (is ! k) g) \<or> pushed env path body e node addr"

lemma probe_step:
  assumes "probe_from env node addr k inc (i # is) nd = (Inr (Some g'), nd')"
  obtains g nd1 where "answers env node addr k i g" "same_data nd nd1" "inc = None \<or> inc = Some g"
    "probe_from env node addr (Suc k) (Some g) is nd1 = (Inr (Some g'), nd')"
proof -
  obtain status chunks v g r nd1 where s: "de_presence env addr k i = Response status chunks" "is_success status"
    "bounded_peer_json (de_json env) 2048 chunks = Some v" "js_generation v = Some g"
    "js_node_id v = Some node" "js_id v = Some (block_id_to_string (de_hex env) i)" "valid_generation g"
    "node_observe env [] node (Some g) nd = (r, nd1)"
    "js_present v = Some True" "js_cold_verified v = Some True" "js_retained v = Some True"
    "inc = None \<or> inc = Some g" "probe_from env node addr (Suc k) (Some g) is nd1 = (Inr (Some g'), nd')"
    using assms by (auto split: peer_result.splits if_splits option.splits prod.splits sum.splits)
  then have "answers env node addr k i g" by (auto simp: answers_def)
  with s(8,12,13) node_observe_keeps [OF s(8)] that show thesis by blast
qed

lemma probe_vouches:
  assumes "probe_from env node addr k inc is nd = (Inr (Some g), nd')"
  shows "(inc = None \<longrightarrow> is \<noteq> []) \<and> (inc \<noteq> None \<longrightarrow> inc = Some g)
    \<and> (\<forall>j<length is. answers env node addr (k + j) (is ! j) g)"
  using assms
proof (induction "is" arbitrary: k inc nd)
  case (Cons i "is")
  from Cons.prems obtain g1 nd1 where s: "answers env node addr k i g1" "inc = None \<or> inc = Some g1"
    "probe_from env node addr (Suc k) (Some g1) is nd1 = (Inr (Some g), nd')"
    by (rule probe_step) blast
  from Cons.IH [OF s(3)] have "g1 = g" and later: "\<forall>j<length is. answers env node addr (Suc k + j) (is ! j) g" by auto
  have "answers env node addr (k + j) ((i # is) ! j) g" if "j < length (i # is)" for j
    using that s(1) later \<open>g1 = g\<close> by (cases j) auto
  with s(2) \<open>g1 = g\<close> show ?case by auto
qed simp

lemma probe_keeps: "probe_from env node addr k inc is nd = (r, nd') \<Longrightarrow> same_data nd nd'"
proof (induction "is" arbitrary: k inc nd)
  case (Cons i "is")
  from Cons.prems show ?case
    by (auto split: peer_result.splits if_splits option.splits prod.splits sum.splits intro: same_data_refl
        dest!: node_observe_keeps Cons.IH elim: same_data_trans)
qed (simp add: same_data_refl)

text \<open>What one turn of the loop does.\<close>

lemma acknowledge_step:
  assumes "acknowledge_from env path body e required is a eps ((node, addr) # peers) nd = (Inr (), nd')"
  obtains (again) "addr \<in> set eps" "acknowledge_from env path body e required is a eps peers nd = (Inr (), nd')"
    | (unheard) nd1 where "addr \<notin> set eps" "same_data nd nd1"
        "acknowledge_from env path body e required is a (addr # eps) peers nd1 = (Inr (), nd')"
    | (heard) nd1 where "addr \<notin> set eps" "same_data nd nd1" "vouched env path body e is node addr"
        "nd' = nd1 \<and> required \<le> a + 1
         \<or> a + 1 < required \<and> acknowledge_from env path body e required is (a + 1) (addr # eps) peers nd1 = (Inr (), nd')"
proof (cases "addr \<in> set eps")
  case True
  then show thesis using again assms by simp
next
  case fresh: False
  obtain p nd0 where probe: "probe_peer env node addr is nd = (p, nd0)" by fastforce
  have kept: "same_data nd nd0" using probe_keeps probe unfolding probe_peer_def by blast
  define accept where "accept = (\<lambda>gen nd. case node_observe env is node gen nd of
      (Inl err, nd) \<Rightarrow> (Inl (Text err), nd)
    | (Inr _, nd) \<Rightarrow> if required \<le> a + 1 then (Inr (), nd)
        else acknowledge_from env path body e required is (a + 1) (addr # eps) peers nd)"
  have accepted: thesis
    if run: "accept gen nd2 = (Inr (), nd')" and "same_data nd nd2" and "vouched env path body e is node addr" for gen nd2
  proof -
    obtain nd1 where "node_observe env is node gen nd2 = (Inr (), nd1)"
      and "nd' = nd1 \<and> required \<le> a + 1
         \<or> a + 1 < required \<and> acknowledge_from env path body e required is (a + 1) (addr # eps) peers nd1 = (Inr (), nd')"
      using run by (auto simp: accept_def split: prod.splits sum.splits if_splits)
    then show thesis using heard [OF fresh _ that(3)] node_observe_keeps that(2) same_data_trans by blast
  qed
  show thesis
  proof (cases "\<exists>g. p = Inr (Some g)")
    case True
    then obtain g where g: "p = Inr (Some g)" by blast
    have "accept (Some g) nd0 = (Inr (), nd')" using assms fresh probe g by (simp add: accept_def Let_def)
    moreover have "vouched env path body e is node addr"
      using probe_vouches [OF probe [unfolded probe_peer_def g]] by (auto simp: vouched_def)
    ultimately show thesis using accepted kept by blast
  next
    case False
    then have none: "p = Inr None" using assms fresh probe by (auto simp: Let_def split: sum.splits option.splits)
    obtain nd1 where seen: "node_observe env is node None nd0 = (Inr (), nd1)"
      using assms fresh probe none by (auto simp: Let_def split: prod.splits sum.splits)
    let ?nd = "nd1\<lparr>dn_pushes := dn_pushes nd1 + 1, dn_sent := dn_sent nd1 @ [(addr, path, body)]\<rparr>"
    have kept': "same_data nd ?nd" using same_data_trans [OF kept node_observe_keeps [OF seen]] by (rule same_data_sent)
    show thesis
    proof (cases "pushed env path body e node addr")
      case True
      then obtain status chunks v where push: "de_push env addr path body = Response status chunks" "is_success status"
        "bounded_peer_json (de_json env) (512 * 1024) chunks = Some v" "push_accepted node e v"
        by (auto simp: pushed_def)
      have "accept (js_generation v) ?nd = (Inr (), nd')"
        using assms fresh probe none seen push by (simp add: accept_def Let_def)
      then show thesis using accepted kept' True by (auto simp: vouched_def)
    next
      case False
      have "acknowledge_from env path body e required is a (addr # eps) peers ?nd = (Inr (), nd')"
        using assms fresh probe none seen False
        by (auto simp: Let_def pushed_def split: peer_result.splits option.splits if_splits)
      then show thesis using unheard fresh kept' by blast
    qed
  qed
qed

lemma acknowledge_enough:
  assumes "acknowledge_from env path body e required is a eps peers nd = (Inr (), nd')" and "a < required"
  shows "same_data nd nd' \<and> (\<exists>ps. length ps + a = required \<and> distinct (map snd ps) \<and> set (map snd ps) \<inter> set eps = {}
    \<and> set ps \<subseteq> set peers \<and> (\<forall>(node, addr)\<in>set ps. vouched env path body e is node addr))"
  using assms
proof (induction peers arbitrary: a eps nd)
  case (Cons p peers)
  obtain node addr where p: "p = (node, addr)" by fastforce
  from Cons.prems(1) [unfolded p] show ?case
  proof (cases rule: acknowledge_step)
    case again
    from Cons.IH [OF again(2) Cons.prems(2)] obtain ps where ps: "same_data nd nd'" "length ps + a = required"
      "distinct (map snd ps)" "set (map snd ps) \<inter> set eps = {}" "set ps \<subseteq> set peers"
      "\<forall>(node, addr)\<in>set ps. vouched env path body e is node addr" by blast
    then show ?thesis by (intro conjI exI [of _ ps]) auto
  next
    case (unheard nd1)
    from Cons.IH [OF unheard(3) Cons.prems(2)] obtain ps where ps: "same_data nd1 nd'" "length ps + a = required"
      "distinct (map snd ps)" "set (map snd ps) \<inter> set (addr # eps) = {}" "set ps \<subseteq> set peers"
      "\<forall>(node, addr)\<in>set ps. vouched env path body e is node addr" by blast
    then show ?thesis
      using same_data_trans [OF unheard(2)] by (intro conjI exI [of _ ps]) auto
  next
    case (heard nd1)
    show ?thesis
    proof (cases "required \<le> a + 1 \<and> nd' = nd1")
      case True
      then show ?thesis
        using heard(1-3) Cons.prems(2) unfolding p by (intro conjI exI [of _ "[(node, addr)]"]) auto
    next
      case False
      then have more: "acknowledge_from env path body e required is (a + 1) (addr # eps) peers nd1 = (Inr (), nd')"
        and "a + 1 < required" using heard(4) by blast+
      from Cons.IH [OF this] obtain ps where ps: "same_data nd1 nd'" "length ps + (a + 1) = required"
        "distinct (map snd ps)" "set (map snd ps) \<inter> set (addr # eps) = {}" "set ps \<subseteq> set peers"
        "\<forall>(node, addr)\<in>set ps. vouched env path body e is node addr" by blast
      have "same_data nd nd'" using same_data_trans heard(2) ps(1) by blast
      then show ?thesis
        using ps(2-6) heard(1,3) unfolding p by (intro conjI exI [of _ "(node, addr) # ps"]) auto
    qed
  qed
qed simp

section \<open>The local copy and the records\<close>

lemma node_verify_ok:
  assumes "node_verify env i nd = (Inr (), nd')"
  shows "\<exists>d. get_block (de_hash env) (cold (dn_store nd)) i = Inr d"
    and "dn_store nd' = (dn_store nd)\<lparr>quarantined := quarantined (dn_store nd) |-| {|i|}\<rparr>"
    and "nd'\<lparr>dn_store := dn_store nd\<rparr> = nd"
  using assms
  by (auto simp: node_verify_def verify_cold_def split: prod.splits sum.splits store_error.splits error.splits)

lemma verify_local_ok:
  assumes "verify_local env is nd = (Inr (), nd')"
  shows "cold (dn_store nd') = cold (dn_store nd) \<and> nd'\<lparr>dn_store := dn_store nd\<rparr> = nd
    \<and> quarantined (dn_store nd') |\<subseteq>| quarantined (dn_store nd)
    \<and> (\<forall>i\<in>set is. i |\<notin>| quarantined (dn_store nd') \<and> (\<exists>d. get_block (de_hash env) (cold (dn_store nd')) i = Inr d))"
  using assms
proof (induction env "is" nd rule: verify_local.induct)
  case (2 env i "is" nd)
  obtain nd1 where one: "node_verify env i nd = (Inr (), nd1)" and rest: "verify_local env is nd1 = (Inr (), nd')"
    using 2(2) by (auto split: prod.splits sum.splits store_error.splits)
  from 2(1) [OF one [symmetric] refl rest] have IH: "cold (dn_store nd') = cold (dn_store nd1)"
    "nd'\<lparr>dn_store := dn_store nd1\<rparr> = nd1" "quarantined (dn_store nd') |\<subseteq>| quarantined (dn_store nd1)"
    "\<forall>i\<in>set is. i |\<notin>| quarantined (dn_store nd') \<and> (\<exists>d. get_block (de_hash env) (cold (dn_store nd')) i = Inr d)"
    by auto
  note v = node_verify_ok [OF one]
  have "nd'\<lparr>dn_store := dn_store nd\<rparr> = nd"
    using IH(2) v(3) by (metis data_node.update_convs(1) data_node.surjective)
  then show ?case using IH v(1,2) by auto
qed simp

lemma acknowledged:
  assumes "acknowledge_replicas env path body e n nd = (Inr (), nd')" and "1 < n" and "expected_ids env e = Inr is"
    and "distinct (map fst (member_nodes (de_metrics env)))"
  obtains ps r where "length ps + 1 = n" "distinct (map fst ps)" "distinct (map snd ps)"
    "set ps \<subseteq> set (peer_nodes (de_metrics env))" "\<forall>(node, addr)\<in>set ps. vouched env path body e is node addr"
    "commit_requirements env is n (dn_meta nd) = (Inr (), dn_meta nd')"
    "\<forall>i\<in>set is. i |\<notin>| quarantined (dn_store nd') \<and> (\<exists>d. get_block (de_hash env) (cold (dn_store nd')) i = Inr d)"
    "dn_retention nd' = dn_retention nd"
    "rq_blocks (rl_requirements (dn_repairs nd')) = rq_blocks (rl_requirements (dn_repairs nd))"
    "cold (dn_store nd') = cold (dn_store nd)"
proof -
  obtain s where meta: "commit_requirements env is n (dn_meta nd) = (Inr (), s)"
    using assms(1-3) by (cases "commit_requirements env is n (dn_meta nd)"; cases "fst (commit_requirements env is n (dn_meta nd))")
      (auto simp: acknowledge_replicas_def Let_def)
  let ?nd = "nd\<lparr>dn_meta := s\<rparr>"
  obtain nd1 nd2 where ver: "verify_local env is ?nd = (Inr (), nd1)"
    and own: "node_observe env is (metrics_id (de_metrics env)) (Some (rl_generation (dn_repairs nd1))) nd1 = (Inr (), nd2)"
    and loop: "acknowledge_from env path body e n is 1 [] (ordered_peers env is (dn_repairs nd2)) nd2 = (Inr (), nd')"
    using assms(1-3) meta
    by (auto simp: acknowledge_replicas_def Let_def split: prod.splits sum.splits if_splits)
  from acknowledge_enough [OF loop assms(2)] obtain ps where same: "same_data nd2 nd'"
    and ps: "length ps + 1 = n" "distinct (map snd ps)" "set ps \<subseteq> set (ordered_peers env is (dn_repairs nd2))"
      "\<forall>(node, addr)\<in>set ps. vouched env path body e is node addr" by blast
  have sub: "set ps \<subseteq> set (peer_nodes (de_metrics env))"
    using ps(3) by (auto simp: ordered_peers_def Let_def)
  then have "inj_on fst (set ps)"
    using assms(4) inj_on_subset [of fst "set (member_nodes (de_metrics env))" "set ps"]
    by (auto simp: distinct_map peer_nodes_def)
  then have "distinct (map fst ps)" using ps(2) by (simp add: distinct_map)
  moreover have "same_data nd1 nd'" using same_data_trans node_observe_keeps [OF own] same by blast
  moreover note verify_local_ok [OF ver]
  ultimately show thesis
    using that [OF ps(1) _ ps(2) sub ps(4)] meta
    by (simp add: same_data_def) (metis data_node.select_convs data_node.surjective data_node.update_convs(1,5))
qed

lemma record_raises:
  assumes "node_record env is n nd = (Inr (), nd')" and "i \<in> set is"
  shows "\<exists>k\<ge>n. fmlookup (rq_blocks (rl_requirements (dn_repairs nd'))) i = Some k"
proof -
  obtain f nd0 rl fs where f: "take_fault nd = (f, nd0)"
    and run: "record_intents (de_codec env) f is n (dn_repairs nd0) (dn_files nd0) = (Inr (), rl, fs)"
    and nd': "nd' = nd0\<lparr>dn_repairs := rl, dn_files := fs\<rparr>"
    using assms(1) by (auto simp: node_record_def split: prod.splits)
  let ?new = "fold (raise_intent n) is (rq_blocks (rl_requirements (dn_repairs nd0)))"
  have "\<exists>k\<ge>n. fmlookup ?new i = Some k" using assms(2) by (simp add: raise_intents_lookup)
  moreover have "rq_blocks (rl_requirements rl) = ?new"
    using run by (cases rule: record_intents_cases) auto
  ultimately show ?thesis by (simp add: nd')
qed

lemma drop_guard_keeps: "drop_guard is st = Some st' \<Longrightarrow> rt_ids st' = rt_ids st"
  by (induction "is" arbitrary: st) (fastforce split: option.splits)+

lemma with_guard_ok:
  assumes "with_guard env is rest nd = (Inr x, nd')" and "lists_set (de_order env)"
  obtains nd1 nd2 where "rest nd1 = (Inr x, nd2)" "dn_meta nd1 = dn_meta nd" "dn_repairs nd1 = dn_repairs nd"
    "dn_store nd1 = dn_store nd" "\<forall>i\<in>set is. contains_key (rt_ids (dn_retention nd1)) i"
    "\<exists>rt. rt_ids rt = rt_ids (dn_retention nd2) \<and> nd' = nd2\<lparr>dn_retention := rt\<rparr>"
proof -
  obtain f nd0 held rt fs where f: "take_fault nd = (f, nd0)"
    and run: "protect (de_hash env) (de_order env) f is (dn_retention nd0) (dn_files nd0) = (Inr held, rt, fs)"
    using assms(1) by (auto simp: with_guard_def Let_def split: prod.splits sum.splits)
  let ?nd = "nd0\<lparr>dn_retention := rt, dn_files := fs\<rparr>"
  obtain nd2 rt' where rest: "rest ?nd = (Inr x, nd2)"
    and drop: "drop_guard (de_order env held) (dn_retention nd2) = Some rt'" "nd' = nd2\<lparr>dn_retention := rt'\<rparr>"
    using assms(1) f run by (auto simp: with_guard_def Let_def split: prod.splits option.splits)
  have "\<forall>i\<in>set is. contains_key (rt_ids rt) i"
    using assms(2) run
  proof (cases rule: protect_cases)
    case (protected nx)
    then show ?thesis using assms(2) by (auto simp: fold_fmupd_same lists_set_def fset_of_list.rep_eq)
  qed auto
  then show thesis
    using that [OF rest] take_fault_fields [OF f] drop_guard_keeps [OF drop(1)] drop(2) by auto
qed

section \<open>Acknowledged uploads\<close>

text \<open>
  What a node promises with its answer to an upload of the blocks \<open>is\<close> for \<open>n\<close> replicas, given the
  metadata \<open>s\<close> before.
\<close>

definition replicated ::
  "data_env \<Rightarrow> string \<Rightarrow> bytes \<Rightarrow> expected \<Rightarrow> block_id list \<Rightarrow> nat \<Rightarrow> metadata_state \<Rightarrow> data_node \<Rightarrow> bool" where
  "replicated env path body e is n s nd \<longleftrightarrow>
     (\<exists>ps. length ps + 1 = n \<and> distinct (map fst ps) \<and> distinct (map snd ps)
        \<and> set ps \<subseteq> set (peer_nodes (de_metrics env)) \<and> (\<forall>(node, addr)\<in>set ps. vouched env path body e is node addr))
     \<and> (\<forall>i\<in>set is. i |\<notin>| quarantined (dn_store nd)
          \<and> (\<exists>d. get_block (de_hash env) (cold (dn_store nd)) i = Inr d \<and> verify (de_hash env) i d)
          \<and> (\<exists>k\<ge>n. fmlookup (rq_blocks (rl_requirements (dn_repairs nd))) i = Some k)
          \<and> contains_key (rt_ids (dn_retention nd)) i)
     \<and> commit_requirements env is n s = (Inr (), dn_meta nd)"

lemma finished:
  assumes "finish_upload env hdr path body e texts n nd = (Inr reply, nd')" and "1 < n"
    and "expected_ids env e = Inr is" and "distinct (map fst (member_nodes (de_metrics env)))"
    and "\<forall>i\<in>set is. \<exists>k\<ge>n. fmlookup (rq_blocks (rl_requirements (dn_repairs nd))) i = Some k"
    and "\<forall>i\<in>set is. contains_key (rt_ids (dn_retention nd)) i"
  shows "replicated env path body e is n (dn_meta nd) nd' \<and> pr_ids reply = texts
    \<and> pr_cold_verified reply \<and> pr_retained reply \<and> pr_node_id reply = metrics_id (de_metrics env)"
proof -
  have ack: "acknowledge_replicas env path body e n nd = (Inr (), nd')"
    and reply: "pr_ids reply = texts \<and> pr_cold_verified reply \<and> pr_retained reply \<and> pr_node_id reply = metrics_id (de_metrics env)"
    using assms(1,2) by (auto simp: finish_upload_def Let_def split: prod.splits sum.splits)
  show ?thesis
    using ack assms(2-4)
  proof (rule acknowledged)
    fix ps :: "(u64 \<times> string) list"
    assume a: "length ps + 1 = n" "distinct (map fst ps)" "distinct (map snd ps)"
      "set ps \<subseteq> set (peer_nodes (de_metrics env))" "\<forall>(node, addr)\<in>set ps. vouched env path body e is node addr"
      "commit_requirements env is n (dn_meta nd) = (Inr (), dn_meta nd')"
      "\<forall>i\<in>set is. i |\<notin>| quarantined (dn_store nd') \<and> (\<exists>d. get_block (de_hash env) (cold (dn_store nd')) i = Inr d)"
      "dn_retention nd' = dn_retention nd"
      "rq_blocks (rl_requirements (dn_repairs nd')) = rq_blocks (rl_requirements (dn_repairs nd))"
      "cold (dn_store nd') = cold (dn_store nd)"
    have "\<exists>d. get_block (de_hash env) (cold (dn_store nd')) i = Inr d \<and> verify (de_hash env) i d" if "i \<in> set is" for i
      using a(7) that get_block_verified(1) by blast
    then have "replicated env path body e is n (dn_meta nd) nd'"
      using a assms(5,6) unfolding replicated_def by (intro conjI) (blast | simp)+
    with reply show ?thesis by blast
  qed
qed

lemma repair_call:
  assumes "node_repair env i p nd = (Inr j, nd')"
  shows "j = i \<and> dn_meta nd' = dn_meta nd \<and> dn_repairs nd' = dn_repairs nd \<and> dn_retention nd' = dn_retention nd"
  using assms by (auto simp: node_repair_def tiered_repair_def dest!: take_fault_fields split: prod.splits sum.splits)

lemma repair_each_keeps:
  assumes "repair_each env xs nd = (Inr (), nd')"
  shows "dn_meta nd' = dn_meta nd \<and> dn_repairs nd' = dn_repairs nd \<and> dn_retention nd' = dn_retention nd"
  using assms
  by (induction env xs nd rule: repair_each.induct) (auto dest!: repair_call split: prod.splits sum.splits)

lemma put_many_call:
  assumes "node_put_many env ps nd = (Inr is, nd')"
  shows "is = map (block_id_of (de_hash env)) ps \<and> dn_meta nd' = dn_meta nd \<and> dn_repairs nd' = dn_repairs nd
    \<and> dn_retention nd' = dn_retention nd"
proof -
  obtain f nd0 st where f: "take_fault nd = (f, nd0)"
    and put: "put_many (de_hash env) f ps (cold (dn_store nd0)) = (Inr is, st)" and nd': "\<exists>t. nd' = nd0\<lparr>dn_store := t\<rparr>"
    using assms by (auto simp: node_put_many_def tiered_put_many_def split: prod.splits sum.splits)
  show ?thesis
    using put_many_inner_keeps(2) [OF put [unfolded put_many_def] refl] take_fault_fields [OF f] nd' by auto
qed

lemma record_call:
  assumes "node_record env is n nd = (r, nd')"
  shows "dn_meta nd' = dn_meta nd \<and> dn_store nd' = dn_store nd \<and> dn_retention nd' = dn_retention nd"
  using assms by (auto simp: node_record_def dest!: take_fault_fields split: prod.splits)

lemma parse_own_id:
  assumes "\<And>bs. de_unhex env (de_hex env bs) = Some bs"
  shows "block_id_from_str (de_unhex env) (block_id_to_string (de_hex env) i) = Inr i"
    and "parse_ids env (map (block_id_to_string (de_hex env)) is) = Some is"
proof -
  show one: "block_id_from_str (de_unhex env) (block_id_to_string (de_hex env) i) = Inr i" for i
    using assms by (cases i) (simp add: block_id_from_str_def block_id_to_string_def)
  show "parse_ids env (map (block_id_to_string (de_hex env)) is) = Some is"
    by (induction "is") (simp_all add: one)
qed

lemma put_block_acknowledged:
  assumes "lists_set (de_order env)" and "\<And>bs. de_unhex env (de_hex env bs) = Some bs"
    and "distinct (map fst (member_nodes (de_metrics env)))"
    and "parse_replicas (uh_replicas hdr) = Inr n" and "1 < n"
    and "put_block_route env hdr body nd = (Inr reply, nd')"
    and "i = block_id_of (de_hash env) body" and "text = block_id_to_string (de_hex env) i"
  shows "replicated env ''/v1/blocks'' body (ExpectId text) [i] n (dn_meta nd) nd' \<and> pr_ids reply = [text]"
proof -
  define rest where "rest = (\<lambda>nd. case node_record env [i] n nd of
      (Inl err, nd) \<Rightarrow> (Inl (Api (api_of_error (Io err))), nd)
    | (Inr _, nd) \<Rightarrow> (case node_repair env i body nd of
         (Inl err, nd) \<Rightarrow> (Inl (of_store_error err), nd)
       | (Inr j, nd) \<Rightarrow> finish_upload env hdr ''/v1/blocks'' body (ExpectId (block_id_to_string (de_hex env) j))
           [block_id_to_string (de_hex env) j] n nd))"
  have keep: "(1 < n \<or> uh_retain_replica hdr) = True" using assms(5) by simp
  have "with_guard env [i] rest nd = (Inr reply, nd')"
    using assms(6) unfolding put_block_route_def assms(4,7) sum.case Let_def keep if_True rest_def by assumption
  from this assms(1) obtain nd1 nd2 where g: "rest nd1 = (Inr reply, nd2)" "dn_meta nd1 = dn_meta nd"
    "contains_key (rt_ids (dn_retention nd1)) i" "\<exists>rt. rt_ids rt = rt_ids (dn_retention nd2) \<and> nd' = nd2\<lparr>dn_retention := rt\<rparr>"
    by (rule with_guard_ok) auto
  obtain nd3 nd4 j where rec: "node_record env [i] n nd1 = (Inr (), nd3)" and rep: "node_repair env i body nd3 = (Inr j, nd4)"
    and fin: "finish_upload env hdr ''/v1/blocks'' body (ExpectId (block_id_to_string (de_hex env) j))
        [block_id_to_string (de_hex env) j] n nd4 = (Inr reply, nd2)"
    using g(1) by (auto simp: rest_def split: prod.splits sum.splits)
  note kept = record_call [OF rec] repair_call [OF rep]
  have "expected_ids env (ExpectId (block_id_to_string (de_hex env) j)) = Inr [i]"
    using kept parse_own_id(1) [OF assms(2)] by simp
  from finished [OF fin assms(5) this assms(3)]
  have "replicated env ''/v1/blocks'' body (ExpectId text) [i] n (dn_meta nd) nd2 \<and> pr_ids reply = [text]"
    using record_raises [OF rec] kept g(2,3) assms(8) by auto
  then show ?thesis using g(4) by (auto simp: replicated_def)
qed

lemma put_batch_acknowledged:
  assumes "lists_set (de_order env)" and "\<And>bs. de_unhex env (de_hex env bs) = Some bs"
    and "distinct (map fst (member_nodes (de_metrics env)))"
    and "parse_replicas (uh_replicas hdr) = Inr n" and "1 < n"
    and "put_batch_route env hdr body nd = (Inr reply, nd')" and "parse_batch body = Inr ps"
    and "is = map (block_id_of (de_hash env)) ps" and "texts = map (block_id_to_string (de_hex env)) is"
  shows "replicated env ''/v1/blocks/batch'' body (ExpectIds texts) is n (dn_meta nd) nd' \<and> pr_ids reply = texts"
proof -
  define rest where "rest = (\<lambda>nd. case node_record env is n nd of
      (Inl err, nd) \<Rightarrow> (Inl (Api (api_of_error (Io err))), nd)
    | (Inr _, nd) \<Rightarrow> (case node_put_many env ps nd of
         (Inl err, nd) \<Rightarrow> (Inl (of_store_error err), nd)
       | (Inr js, nd) \<Rightarrow> (case repair_each env (zip js ps) nd of
            (Inl err, nd) \<Rightarrow> (Inl (of_store_error err), nd)
          | (Inr _, nd) \<Rightarrow> finish_upload env hdr ''/v1/blocks/batch'' body (ExpectIds (map (block_id_to_string (de_hex env)) js))
              (map (block_id_to_string (de_hex env)) js) n nd)))"
  have keep: "(1 < n \<or> uh_retain_replica hdr) = True" using assms(5) by simp
  have "with_guard env is rest nd = (Inr reply, nd')"
    using assms(6) unfolding put_batch_route_def assms(4,7,8) sum.case Let_def keep if_True rest_def by assumption
  from this assms(1) obtain nd1 nd2 where g: "rest nd1 = (Inr reply, nd2)" "dn_meta nd1 = dn_meta nd"
    "\<forall>i\<in>set is. contains_key (rt_ids (dn_retention nd1)) i"
    "\<exists>rt. rt_ids rt = rt_ids (dn_retention nd2) \<and> nd' = nd2\<lparr>dn_retention := rt\<rparr>"
    by (rule with_guard_ok) auto
  obtain nd3 nd4 nd5 js where rec: "node_record env is n nd1 = (Inr (), nd3)"
    and put: "node_put_many env ps nd3 = (Inr js, nd4)" and rep: "repair_each env (zip js ps) nd4 = (Inr (), nd5)"
    and fin: "finish_upload env hdr ''/v1/blocks/batch'' body (ExpectIds (map (block_id_to_string (de_hex env)) js))
        (map (block_id_to_string (de_hex env)) js) n nd5 = (Inr reply, nd2)"
    using g(1) by (auto simp: rest_def split: prod.splits sum.splits)
  note kept = record_call [OF rec] put_many_call [OF put] repair_each_keeps [OF rep]
  have js: "js = is" using kept assms(8) by simp
  have "expected_ids env (ExpectIds (map (block_id_to_string (de_hex env)) js)) = Inr is"
    using js parse_own_id(2) [OF assms(2)] by simp
  from finished [OF fin assms(5) this assms(3)]
  have "replicated env ''/v1/blocks/batch'' body (ExpectIds texts) is n (dn_meta nd) nd2 \<and> pr_ids reply = texts"
    using record_raises [OF rec] kept g(2,3) js assms(9) by auto
  then show ?thesis using g(4) by (auto simp: replicated_def)
qed

text \<open>
  C17.  An acknowledged upload has its replicas.  When either upload route answers a request for \<open>n > 1\<close>
  replicas with success, exactly \<open>n - 1\<close> members with distinct identities and distinct endpoints besides the
  node itself have vouched for every block, each in its own name, under a valid storage generation, as
  verified on disk and retained; the local store has every block readable with its hash and out of
  quarantine, the retention journal guards it, the local intents ask for at least \<open>n\<close> copies, and the
  requirement has gone through consensus.  Whatever file call fails on the way and whatever peers answer, a
  success means this.
\<close>

theorem acknowledged_uploads_replicated:
  assumes "lists_set (de_order env)" and "\<And>bs. de_unhex env (de_hex env bs) = Some bs"
    and "distinct (map fst (member_nodes (de_metrics env)))"
    and "parse_replicas (uh_replicas hdr) = Inr n" and "1 < n"
  shows "(put_block_route env hdr body nd = (Inr reply, nd') \<longrightarrow>
            (let i = block_id_of (de_hash env) body; text = block_id_to_string (de_hex env) i in
             replicated env ''/v1/blocks'' body (ExpectId text) [i] n (dn_meta nd) nd' \<and> pr_ids reply = [text]))
       \<and> (put_batch_route env hdr body nd = (Inr reply, nd') \<longrightarrow>
            (\<exists>ps. let is = map (block_id_of (de_hash env)) ps; texts = map (block_id_to_string (de_hex env)) is in
             body = encode_batch ps \<and> replicated env ''/v1/blocks/batch'' body (ExpectIds texts) is n (dn_meta nd) nd'
             \<and> pr_ids reply = texts))"
proof (intro conjI impI)
  assume "put_block_route env hdr body nd = (Inr reply, nd')"
  from put_block_acknowledged [OF assms this refl refl]
  show "let i = block_id_of (de_hash env) body; text = block_id_to_string (de_hex env) i in
      replicated env ''/v1/blocks'' body (ExpectId text) [i] n (dn_meta nd) nd' \<and> pr_ids reply = [text]"
    by (simp add: Let_def)
next
  assume run: "put_batch_route env hdr body nd = (Inr reply, nd')"
  then obtain ps where ps: "parse_batch body = Inr ps"
    using assms(4) by (auto simp: put_batch_route_def split: sum.splits)
  show "\<exists>ps. let is = map (block_id_of (de_hash env)) ps; texts = map (block_id_to_string (de_hex env)) is in
      body = encode_batch ps \<and> replicated env ''/v1/blocks/batch'' body (ExpectIds texts) is n (dn_meta nd) nd'
      \<and> pr_ids reply = texts"
    using put_batch_acknowledged [OF assms run ps refl refl] parse_batch_inv [OF ps] by (auto simp: Let_def)
qed

section \<open>Reads\<close>

lemma with_guard_store:
  assumes "with_guard env is rest nd = (r, nd')"
  obtains (refused) "isl r" "dn_store nd' = dn_store nd"
    | (ran) nd1 nd2 r2 where "rest nd1 = (r2, nd2)" "dn_store nd1 = dn_store nd" "dn_store nd' = dn_store nd2"
        "r = r2 \<or> isl r"
proof -
  obtain f nd0 g rt fs where f: "take_fault nd = (f, nd0)"
    and run: "protect (de_hash env) (de_order env) f is (dn_retention nd0) (dn_files nd0) = (g, rt, fs)"
    by (metis prod_cases3 surj_pair)
  let ?nd = "nd0\<lparr>dn_retention := rt, dn_files := fs\<rparr>"
  have store: "dn_store ?nd = dn_store nd" using take_fault_fields [OF f] by simp
  obtain r2 nd2 where rest: "rest ?nd = (r2, nd2)" by fastforce
  show thesis
  proof (cases g)
    case (Inl e)
    then show thesis using refused assms f run store by (auto simp: with_guard_def)
  next
    case (Inr held)
    then have "dn_store nd' = dn_store nd2 \<and> (r = r2 \<or> isl r)"
      using assms f run rest by (auto simp: with_guard_def split: option.splits)
    then show thesis using ran rest store by blast
  qed
qed

text \<open>What the store and the answer satisfy after a read of block \<open>i\<close>.\<close>

definition read_ok :: "data_env \<Rightarrow> block_id \<Rightarrow> tiered_store \<Rightarrow> handler_error + bytes \<Rightarrow> tiered_store \<Rightarrow> bool" where
  "read_ok env i t r t' \<longleftrightarrow>
     tier_ok (de_hash env) t' \<and> (backed t \<longrightarrow> backed t')
     \<and> (\<forall>p. r = Inr p \<longrightarrow> verify (de_hash env) i p \<and> (backed t \<longrightarrow> contains_block (cold t') i))
     \<and> (\<forall>j. contains_block (cold t) j \<longrightarrow> contains_block (cold t') j)"

lemma put_call_read:
  assumes "lossy (de_cache_insert env)" and "tier_ok (de_hash env) (dn_store nd)" and "length bs < 2 ^ 63"
    and "block_id_of (de_hash env) bs = i" and "node_put env bs nd = (q, nd')"
  shows "read_ok env i (dn_store nd) (case q of Inl err \<Rightarrow> Inl (of_store_error err) | Inr _ \<Rightarrow> Inr bs) (dn_store nd')"
proof -
  obtain f nd0 t where f: "take_fault nd = (f, nd0)"
    and put: "tiered_put (de_hash env) (de_cache_insert env) f bs (dn_store nd) = (q, t)" and t: "dn_store nd' = t"
    using assms(5) by (auto simp: node_put_def dest: take_fault_fields split: prod.splits)
  obtain q0 st where cold: "put (de_hash env) f bs (cold (dn_store nd)) = (q0, st)" by fastforce
  have "cold t = st \<and> q = q0" using put cold by (auto simp: tiered_put_def split: sum.splits)
  then show ?thesis
    using put_ok [OF assms(1-3) put] put_keeps [OF cold] assms(4) unfolding t
    by (auto simp: read_ok_def verify_def split: sum.splits)
qed

lemma fetch_read:
  assumes "lossy (de_cache_insert env)" and "\<And>peer status bs. de_fetch env peer i = Some (status, Some bs) \<Longrightarrow> length bs < 2 ^ 63"
    and "tier_ok (de_hash env) (dn_store nd)" and "fetch_from env i peers nd = (r, nd')"
  shows "read_ok env i (dn_store nd) r (dn_store nd')"
  using assms(4)
proof (induction peers)
  case Nil
  then show ?case using assms(3) by (auto simp: read_ok_def)
next
  case (Cons peer peers)
  consider "fetch_from env i peers nd = (r, nd')"
    | status bs where "de_fetch env peer i = Some (status, Some bs)" "block_id_of (de_hash env) bs = i"
        "with_guard env [i] (\<lambda>nd. case node_put env bs nd of
            (Inl err, nd) \<Rightarrow> (Inl (of_store_error err), nd) | (Inr _, nd) \<Rightarrow> (Inr bs, nd)) nd = (r, nd')"
    using Cons.prems by (auto split: option.splits prod.splits if_splits)
  then show ?case
  proof cases
    case 1
    then show ?thesis by (rule Cons.IH)
  next
    case 2
    from 2(3) show ?thesis
    proof (cases rule: with_guard_store)
      case refused
      then show ?thesis using assms(3) by (cases r) (auto simp: read_ok_def)
    next
      case (ran nd1 nd2 r2)
      obtain q nd3 where put: "node_put env bs nd1 = (q, nd3)" by fastforce
      then have "r2 = (case q of Inl err \<Rightarrow> Inl (of_store_error err) | Inr _ \<Rightarrow> Inr bs)" "nd2 = nd3"
        using ran(1) by (auto split: sum.splits)
      with put_call_read [OF assms(1) _ assms(2) [OF 2(1)] 2(2) put] assms(3) ran(2-4) show ?thesis
        by (cases r) (auto simp: read_ok_def)
    qed
  qed
qed

text \<open>
  C33.  A read returns the block that was asked for.  Whatever the caches hold, whatever peers answer and
  whichever file call fails, bytes that are returned hash to the requested address; the caches stay sound
  and within their budget, no stored block disappears, and after a successful read the block is in the local
  store, fetched from a peer if it was missing.
\<close>

theorem reads_return_requested_block:
  assumes "lossy (de_cache_insert env)" and "tier_ok (de_hash env) (dn_store nd)" and "files_fit (cold (dn_store nd))"
    and "\<And>peer i status bs. de_fetch env peer i = Some (status, Some bs) \<Longrightarrow> length bs < 2 ^ 63"
    and "get_block_route env internal text nd = (r, nd')"
  shows "(case block_id_from_str (de_unhex env) text of
            Inl _ \<Rightarrow> isl r \<and> nd' = nd
          | Inr i \<Rightarrow> read_ok env i (dn_store nd) r (dn_store nd'))"
proof (cases "block_id_from_str (de_unhex env) text")
  case (Inl e)
  then show ?thesis using assms(5) by (auto simp: get_block_route_def)
next
  case (Inr i)
  obtain q t where get: "tiered_get (de_hash env) (de_cache_insert env) i (dn_store nd) = (q, t)" by fastforce
  note ok = tiered_get_ok [OF assms(1-3) get]
  let ?nd = "nd\<lparr>dn_store := t\<rparr>"
  have "read_ok env i (dn_store nd) r (dn_store nd')"
  proof (cases "fetch_from env i (peer_addrs (de_metrics env)) ?nd = (r, nd') \<and> isl q")
    case True
    from fetch_read [OF assms(1,4) _ conjunct1 [OF True]] ok show ?thesis by (simp add: read_ok_def)
  next
    case False
    then have "nd' = ?nd" "r = Inr p \<longrightarrow> q = Inr p" for p
      using assms(5) Inr get by (auto simp: get_block_route_def Let_def split: sum.splits if_splits)
    then show ?thesis using ok by (auto simp: read_ok_def)
  qed
  then show ?thesis using Inr by simp
qed

section \<open>A concrete node\<close>

text \<open>A leader with one peer that already holds the block, and an upload for two replicas.\<close>

abbreviation upload_body :: bytes where "upload_body \<equiv> [1, 2, 3]"
abbreviation upload_id :: block_id where "upload_id \<equiv> BlockId (fill32 6)"

definition peer_answer :: peer_json where
  "peer_answer = \<lparr>js_node_id = Some 2, js_id = Some (block_id_to_string simple_hex_encode upload_id), js_ids = None,
     js_generation = Some example_generation, js_present = Some True, js_cold_verified = Some True, js_retained = Some True\<rparr>"

definition example_data_env :: data_env where
  "example_data_env =
     \<lparr>de_hash = sum_hash, de_hex = simple_hex_encode, de_unhex = simple_hex_decode, de_cache_insert = fmupd,
      de_order = order_list, de_codec = \<lparr>requirements_json = (\<lambda>_. Inr []), requirements_from_json = (\<lambda>_. Inl [])\<rparr>,
      de_json = (\<lambda>_. Some peer_answer), de_submit = direct_write (\<lambda>_. []),
      de_metrics = \<lparr>metrics_id = 1, current_leader = Some 1, member_nodes = [(1, ''a''), (2, ''b'')]\<rparr>,
      de_linearizable = Inr (), de_consensus_deadline = False, de_post_requirements = (\<lambda>_ _ _. Deadline),
      de_presence = (\<lambda>_ _ _. Response 200 []), de_push = (\<lambda>_ _ _. Deadline),
      de_fetch = (\<lambda>_ _. Some (200, Some upload_body))\<rparr>"

definition example_node :: data_node where
  "example_node =
     \<lparr>dn_store = tiered_new empty_store 0, dn_retention = new_journal, dn_repairs = example_log, dn_files = journal_fs,
      dn_meta = default_state\<lparr>replica_requirements := fmap_of_list [(upload_id, 2)]\<rparr>, dn_pushes = 0, dn_sent = [],
      dn_faults = []\<rparr>"

definition two_replicas :: upload_headers where
  "two_replicas = \<lparr>uh_replicas = Some (Inr ''2''), uh_internal = False, uh_retain_replica = False\<rparr>"

lemma two_replicas_parsed: "parse_replicas (uh_replicas two_replicas) = Inr 2"
  by (simp add: two_replicas_def parse_replicas_def parse_usize_def digit_value_def of_char_def)

lemma example_generation_ok: "valid_generation example_generation"
  by (simp add: valid_generation_def example_generation_def is_ascii_hexdigit_def list_all_iff)

lemma example_observe:
  assumes "dn_faults nd = []"
  obtains nd' where "node_observe example_data_env is node (Some example_generation) nd = (Inr (), nd')"
    "dn_faults nd' = []" "same_data nd nd'"
proof -
  obtain r nd' where run: "node_observe example_data_env is node (Some example_generation) nd = (r, nd')" by fastforce
  have "r = Inr () \<and> dn_faults nd' = []"
    using run assms
    by (auto simp: replace_def node_observe_def take_fault_def observe_def example_generation_ok publish_requirements_def
        example_data_env_def Let_def split: prod.splits sum.splits if_splits)
  then show thesis using that run node_observe_keeps [OF run] by blast
qed

lemma example_intent:
  assumes "dn_faults nd = []" and "dn_repairs nd = example_log"
  obtains nd' where "node_record example_data_env [upload_id] 2 nd = (Inr (), nd')" "dn_faults nd' = []"
    "dn_store nd' = dn_store nd" "dn_meta nd' = dn_meta nd" "dn_retention nd' = dn_retention nd"
    "rl_generation (dn_repairs nd') = example_generation"
proof -
  have "fmsize (fmupd upload_id (2 :: nat) fmempty) \<le> MAX_RECORDS"
    by (simp add: MAX_RECORDS_def fmsize_fmupd)
  moreover have "fmupd upload_id (2 :: nat) fmempty \<noteq> fmempty" by (metis fmempty_lookup fmupd_lookup option.distinct(1))
  ultimately show thesis
    using assms that by (simp add: node_record_def take_fault_def record_intents_def example_log_def raise_intent_def
        publish_requirements_def replace_def example_data_env_def Let_def)
qed

lemma example_repair:
  assumes "dn_faults nd = []" and "dn_store nd = tiered_new empty_store 0"
  obtains nd' d where "node_repair example_data_env upload_id upload_body nd = (Inr upload_id, nd')" "dn_faults nd' = []"
    "get_block sum_hash (cold (dn_store nd')) upload_id = Inr d" "dn_meta nd' = dn_meta nd"
    "dn_retention nd' = dn_retention nd" "dn_repairs nd' = dn_repairs nd"
proof -
  have ok: "verify sum_hash upload_id upload_body" by (simp add: verify_def block_id_of_def sum_hash_def)
  obtain j st where run: "repair_block sum_hash NoFault upload_id upload_body empty_store = (Inr j, st)"
    using put_many_inner_succeeds [OF empty_store_ok, of True] ok
    by (cases "put_many_inner sum_hash NoFault True [upload_body] empty_store") (auto simp: repair_block_def)
  from repair_effect(1,2) [OF empty_store_ok ok run] obtain d where "get_block sum_hash st upload_id = Inr d" by blast
  moreover have "node_repair example_data_env upload_id upload_body nd
      = (Inr upload_id, nd\<lparr>dn_store := (tiered_new empty_store 0)\<lparr>cold := st\<rparr>\<rparr>)"
    using assms run by (simp add: node_repair_def take_fault_def example_data_env_def tiered_repair_def tiered_new_def
        warm_insert_def)
  ultimately show thesis using that assms(1) by simp
qed

lemma example_probe:
  assumes "dn_faults nd = []"
  obtains nd' where "probe_peer example_data_env 2 ''b'' [upload_id] nd = (Inr (Some example_generation), nd')"
    "dn_faults nd' = []"
proof -
  obtain nd' where "node_observe example_data_env [] 2 (Some example_generation) nd = (Inr (), nd')" "dn_faults nd' = []"
    using example_observe [OF assms] by blast
  then show thesis
    using that by (simp add: probe_peer_def example_data_env_def bounded_peer_json_def peer_answer_def is_success_def
        example_generation_ok)
qed

lemma example_acknowledge:
  assumes "dn_faults nd = []" and "get_block sum_hash (cold (dn_store nd)) upload_id = Inr d"
    and "dn_meta nd = dn_meta example_node" and "rl_generation (dn_repairs nd) = example_generation"
  obtains nd' where "acknowledge_replicas example_data_env path body (ExpectId (block_id_to_string simple_hex_encode upload_id)) 2 nd
      = (Inr (), nd')" "dn_retention nd' = dn_retention nd"
proof -
  let ?env = example_data_env and ?e = "ExpectId (block_id_to_string simple_hex_encode upload_id)"
  have parse: "expected_ids ?env ?e = Inr [upload_id]"
    using parse_own_id(1) [of ?env upload_id] simple_hex_roundtrip by (simp add: example_data_env_def)
  have commit: "commit_requirements ?env [upload_id] 2 (dn_meta nd) = (Inr (), dn_meta nd)"
    by (simp add: assms(3) commit_requirements_def require_replicas_def already_required_def example_data_env_def example_node_def)
  obtain nd1 where ver: "verify_local ?env [upload_id] nd = (Inr (), nd1)"
    and nd1: "dn_faults nd1 = []" "dn_retention nd1 = dn_retention nd" "rl_generation (dn_repairs nd1) = example_generation"
    using assms(1,2,4) by (simp add: node_verify_def verify_cold_def example_data_env_def)
  obtain nd2 where own: "node_observe ?env [upload_id] 1 (Some example_generation) nd1 = (Inr (), nd2)" "dn_faults nd2 = []"
      "same_data nd1 nd2"
    using example_observe [OF nd1(1)] by blast
  obtain nd3 where probe: "probe_peer ?env 2 ''b'' [upload_id] nd2 = (Inr (Some example_generation), nd3)" "dn_faults nd3 = []"
    using example_probe [OF own(2)] by blast
  obtain nd4 where seen: "node_observe ?env [upload_id] 2 (Some example_generation) nd3 = (Inr (), nd4)" "same_data nd3 nd4"
    using example_observe [OF probe(2)] by blast
  have metrics: "metrics_id (de_metrics ?env) = 1" by (simp add: example_data_env_def)
  have peers: "ordered_peers ?env [upload_id] rl = [(2, ''b'')]" for rl
    by (simp add: ordered_peers_def Let_def peer_nodes_def example_data_env_def)
  have "acknowledge_from ?env path body ?e 2 [upload_id] 1 [] [(2, ''b'')] nd2 = (Inr (), nd4)"
    using probe(1) seen(1) by simp
  then have "acknowledge_replicas ?env path body ?e 2 nd = (Inr (), nd4)"
    using ver own(1)
    by (simp add: acknowledge_replicas_def parse commit peers metrics nd1(3) Let_def
        del: expected_ids.simps verify_local.simps acknowledge_from.simps)
  moreover have "same_data nd2 nd3" using probe_keeps probe(1) unfolding probe_peer_def by blast
  then have "dn_retention nd4 = dn_retention nd" using own(3) seen(2) nd1(2) by (simp add: same_data_def)
  ultimately show thesis using that by blast
qed

lemma example_guard:
  obtains rt fs where "protect sum_hash order_list NoFault [upload_id] new_journal journal_fs = (Inr {|upload_id|}, rt, fs)"
    "drop_guard (order_list {|upload_id|}) rt \<noteq> None"
proof -
  have "ffilter (\<lambda>_. True) S = S" for S :: "block_id fset" by auto
  moreover have "fcard {|upload_id|} = 1" by (simp add: fcard_finsert_disjoint)
  ultimately show thesis
    using that by (simp add: protect_def MAX_BATCH_def new_journal_def checked_add_def Let_def MAX_IDS_def MAX_BYTES_def
        HEADER_def order_list_def)
qed

theorem acknowledged_uploads_replicated_witness:
  "\<exists>nd reply. put_block_route example_data_env two_replicas upload_body example_node = (Inr reply, nd)
     \<and> replicated example_data_env ''/v1/blocks'' upload_body (ExpectId (block_id_to_string simple_hex_encode upload_id))
         [upload_id] 2 (dn_meta example_node) nd"
proof -
  let ?env = example_data_env and ?text = "block_id_to_string simple_hex_encode upload_id"
  have env: "de_hash ?env = sum_hash" "de_hex ?env = simple_hex_encode" "de_unhex ?env = simple_hex_decode"
      "de_order ?env = order_list" "distinct (map fst (member_nodes (de_metrics ?env)))"
    by (simp_all add: example_data_env_def)
  have i: "block_id_of sum_hash upload_body = upload_id" by (simp add: block_id_of_def sum_hash_def)
  obtain rt fs where guard: "protect sum_hash order_list NoFault [upload_id] new_journal journal_fs = (Inr {|upload_id|}, rt, fs)"
      "drop_guard (order_list {|upload_id|}) rt \<noteq> None"
    by (rule example_guard)
  let ?nd = "example_node\<lparr>dn_retention := rt, dn_files := fs\<rparr>"
  have nd: "dn_faults ?nd = []" "dn_repairs ?nd = example_log" "dn_store ?nd = tiered_new empty_store 0"
    by (simp_all add: example_node_def)
  obtain nd1 where rec: "node_record ?env [upload_id] 2 ?nd = (Inr (), nd1)" and nd1: "dn_faults nd1 = []"
      "dn_store nd1 = tiered_new empty_store 0" "dn_meta nd1 = dn_meta example_node" "dn_retention nd1 = rt"
      "rl_generation (dn_repairs nd1) = example_generation"
    using example_intent [OF nd(1,2)] nd(3) by auto
  obtain nd2 d where rep: "node_repair ?env upload_id upload_body nd1 = (Inr upload_id, nd2)" and nd2: "dn_faults nd2 = []"
      "get_block sum_hash (cold (dn_store nd2)) upload_id = Inr d" "dn_meta nd2 = dn_meta example_node"
      "rl_generation (dn_repairs nd2) = example_generation" "dn_retention nd2 = rt"
    using example_repair [OF nd1(1,2)] nd1 by metis
  obtain nd3 where ack: "acknowledge_replicas ?env ''/v1/blocks'' upload_body (ExpectId ?text) 2 nd2 = (Inr (), nd3)"
      "dn_retention nd3 = rt"
    using example_acknowledge [OF nd2(1-4)] nd2(5) by metis
  then obtain reply where "finish_upload ?env two_replicas ''/v1/blocks'' upload_body (ExpectId ?text) [?text] 2 nd2 = (Inr reply, nd3)"
    by (simp add: finish_upload_def)
  then obtain nd4 where run: "put_block_route ?env two_replicas upload_body example_node = (Inr reply, nd4)"
    using guard rec rep ack(2)
    by (auto simp: put_block_route_def two_replicas_parsed with_guard_def take_fault_def env i nd example_node_def Let_def)
  have hyps: "lists_set (de_order ?env)" "\<And>bs. de_unhex ?env (de_hex ?env bs) = Some bs" "(1 :: nat) < 2"
    by (simp_all add: env order_list_ok simple_hex_roundtrip)
  from acknowledged_uploads_replicated [OF hyps(1,2) env(5) two_replicas_parsed hyps(3), of upload_body example_node reply nd4] run
  show ?thesis by (auto simp: Let_def env i)
qed

theorem reads_return_requested_block_witness:
  "(let (r, nd) = get_block_route example_data_env False (block_id_to_string simple_hex_encode upload_id) example_node in
     read_ok example_data_env upload_id (dn_store example_node) r (dn_store nd))"
proof -
  let ?text = "block_id_to_string simple_hex_encode upload_id"
  obtain r nd where run: "get_block_route example_data_env False ?text example_node = (r, nd)" by fastforce
  have "lossy (de_cache_insert example_data_env)" "tier_ok (de_hash example_data_env) (dn_store example_node)"
    "files_fit (cold (dn_store example_node))"
    by (simp_all add: example_data_env_def example_node_def lossy_fmupd tier_ok_def tiered_new_def genuine_def files_fit_def
        empty_store_def)
  from reads_return_requested_block [OF this _ run] parse_own_id(1) [of example_data_env upload_id] run show ?thesis
    by (simp add: example_data_env_def simple_hex_roundtrip)
qed

end
