(* ===== verification/Admission.thy ===== *)
theory Admission
  imports Kalpak_Prelude
begin

text \<open>
  Upload reservations (\<^verbatim>\<open>kalpakdb/src/admission.rs\<close>).  The semaphore of \<^verbatim>\<open>tokio\<close> is a record of operations
  with the documented laws \<open>counts_permits\<close>.  A lease is shared: it holds its permits until the last of its
  owners (the request, a replication task) drops it.
\<close>

section \<open>The budget\<close>

record 'sem semaphore =
  sem_new :: "nat \<Rightarrow> 'sem"
  sem_try_acquire_many :: "nat \<Rightarrow> 'sem \<Rightarrow> 'sem option"
  sem_release :: "nat \<Rightarrow> 'sem \<Rightarrow> 'sem"
  sem_available_permits :: "'sem \<Rightarrow> nat"

record 'sem upload_budget =
  ub_available :: 'sem
  ub_reservation :: u32

definition MIB :: u64 where "MIB = 1024 * 1024"

definition upload_budget_new :: "'sem semaphore \<Rightarrow> u64 \<Rightarrow> string + 'sem upload_budget" where
  "upload_budget_new ops max_block_bytes =
     (case Option.bind (checked_add max_block_bytes (64 * MIB)) (\<lambda>n. checked_add n (MIB - 1)) of
        None \<Rightarrow> Inl ''upload reservation overflow''
      | Some n \<Rightarrow>
          let reservation = n div MIB in
          if 512 < reservation
          then Inl ''max block size exceeds shared upload budget (maximum 448 MiB)''
          else Inr \<lparr>ub_available = sem_new ops 512, ub_reservation = ucast (max reservation 128)\<rparr>)"

definition try_acquire :: "'sem semaphore \<Rightarrow> 'sem upload_budget \<Rightarrow> 'sem upload_budget option" where
  "try_acquire ops b =
     (case sem_try_acquire_many ops (unat (ub_reservation b)) (ub_available b) of
        None \<Rightarrow> None
      | Some sem \<Rightarrow> Some (b\<lparr>ub_available := sem\<rparr>))"

text \<open>Dropping the last owner of a lease returns its permits.\<close>

definition drop_lease :: "'sem semaphore \<Rightarrow> 'sem upload_budget \<Rightarrow> 'sem upload_budget" where
  "drop_lease ops b = b\<lparr>ub_available := sem_release ops (unat (ub_reservation b)) (ub_available b)\<rparr>"

text \<open>
  \<open>admit_upload\<close>: without a reservation the request is refused before its body is read.  \<open>run\<close> is the handler
  with its share of the lease; it is \<open>None\<close> when it takes more than a minute.
\<close>

definition admit_upload ::
  "'sem semaphore \<Rightarrow> ('sem upload_budget \<Rightarrow> 'r option \<times> 'sem upload_budget) \<Rightarrow> 'sem upload_budget
     \<Rightarrow> (nat + 'r) \<times> 'sem upload_budget" where
  "admit_upload ops run b =
     (case try_acquire ops b of
        None \<Rightarrow> (Inl 503, b)
      | Some b' \<Rightarrow>
          (case run b' of
             (Some r, b'') \<Rightarrow> (Inr r, b'')
           | (None, b'') \<Rightarrow> (Inl 408, b'')))"

section \<open>Interleavings\<close>

definition counts_permits :: "'sem semaphore \<Rightarrow> bool" where
  "counts_permits ops \<longleftrightarrow>
     (\<forall>n. sem_available_permits ops (sem_new ops n) = n)
     \<and> (\<forall>n s. case sem_try_acquire_many ops n s of
          None \<Rightarrow> sem_available_permits ops s < n
        | Some s' \<Rightarrow> n \<le> sem_available_permits ops s
            \<and> sem_available_permits ops s' = sem_available_permits ops s - n)
     \<and> (\<forall>n s. sem_available_permits ops (sem_release ops n s) = sem_available_permits ops s + n)"

text \<open>
  The budgets reached from \<open>new\<close> by any interleaving of acquiring, cloning and dropping leases.  The list has
  the number of owners of each lease that is alive.
\<close>

inductive uploads :: "'sem semaphore \<Rightarrow> u64 \<Rightarrow> 'sem upload_budget \<Rightarrow> nat list \<Rightarrow> bool" for ops m where
  opened: "upload_budget_new ops m = Inr b \<Longrightarrow> uploads ops m b []"
| acquired: "uploads ops m b ls \<Longrightarrow> try_acquire ops b = Some b' \<Longrightarrow> uploads ops m b' (1 # ls)"
| cloned: "uploads ops m b (ls @ n # ls') \<Longrightarrow> uploads ops m b (ls @ Suc n # ls')"
| dropped: "uploads ops m b (ls @ Suc (Suc n) # ls') \<Longrightarrow> uploads ops m b (ls @ Suc n # ls')"
| released: "uploads ops m b (ls @ 1 # ls') \<Longrightarrow> uploads ops m (drop_lease ops b) (ls @ ls')"

lemma new_reservation:
  assumes "upload_budget_new ops m = Inr b"
  shows "unat m + 64 * 2 ^ 20 \<le> unat (ub_reservation b) * 2 ^ 20"
    and "128 \<le> unat (ub_reservation b)" and "unat (ub_reservation b) \<le> 512" and "ub_available b = sem_new ops 512"
proof -
  obtain x n where x: "checked_add m (64 * MIB) = Some x" "checked_add x (MIB - 1) = Some n"
    and le: "n div MIB \<le> 512" and b: "b = \<lparr>ub_available = sem_new ops 512, ub_reservation = ucast (max (n div MIB) 128)\<rparr>"
    using assms by (auto simp: upload_budget_new_def Let_def bind_eq_Some_conv split: option.splits if_splits)
  have mib: "unat MIB = 2 ^ 20" by (simp add: MIB_def)
  have "unat x = unat m + 64 * 2 ^ 20" using conjunct2 [OF checked_add_SomeD [OF x(1)]] by (simp add: MIB_def)
  moreover have "unat n = unat x + (2 ^ 20 - 1)" using conjunct2 [OF checked_add_SomeD [OF x(2)]] by (simp add: MIB_def)
  ultimately have n: "unat n = unat m + 64 * 2 ^ 20 + (2 ^ 20 - 1)" by simp
  have d: "unat (n div MIB) = unat n div 2 ^ 20" by (simp add: unat_div mib)
  have small: "unat (max (n div MIB) 128) = max (unat n div 2 ^ 20) 128"
    by (simp add: max_def word_le_nat_alt d)
  have top: "unat n div 2 ^ 20 \<le> 512" using le by (simp add: word_le_nat_alt d)
  have r: "unat (ub_reservation b) = max (unat n div 2 ^ 20) 128"
    using small top by (simp add: b unsigned_ucast_eq take_bit_nat_eq_self)
  show "unat m + 64 * 2 ^ 20 \<le> unat (ub_reservation b) * 2 ^ 20"
  proof -
    have "a \<le> (a + (k - 1)) div k * k" if "0 < k" for a k :: nat
      using div_mult_mod_eq [of "a + (k - 1)" k] mod_less_divisor [OF that, of "a + (k - 1)"] by linarith
    from this [of "2 ^ 20" "unat m + 64 * 2 ^ 20"] have "unat m + 64 * 2 ^ 20 \<le> unat n div 2 ^ 20 * 2 ^ 20"
      unfolding n by simp
    also have "\<dots> \<le> unat (ub_reservation b) * 2 ^ 20" unfolding r by (intro mult_le_mono1) simp
    finally show ?thesis .
  qed
  show "128 \<le> unat (ub_reservation b)" "unat (ub_reservation b) \<le> 512" using top by (simp_all add: r)
  show "ub_available b = sem_new ops 512" by (simp add: b)
qed

lemma permits_acquired:
  assumes "counts_permits ops" and "try_acquire ops b = Some b'"
  shows "ub_reservation b' = ub_reservation b"
    and "sem_available_permits ops (ub_available b) = sem_available_permits ops (ub_available b') + unat (ub_reservation b)"
proof -
  obtain sem where sem: "sem_try_acquire_many ops (unat (ub_reservation b)) (ub_available b) = Some sem"
    and b': "b' = b\<lparr>ub_available := sem\<rparr>"
    using assms(2) by (auto simp: try_acquire_def split: option.splits)
  have "case sem_try_acquire_many ops (unat (ub_reservation b)) (ub_available b) of
      None \<Rightarrow> sem_available_permits ops (ub_available b) < unat (ub_reservation b)
    | Some s' \<Rightarrow> unat (ub_reservation b) \<le> sem_available_permits ops (ub_available b)
        \<and> sem_available_permits ops s' = sem_available_permits ops (ub_available b) - unat (ub_reservation b)"
    using assms(1) unfolding counts_permits_def by blast
  then show "ub_reservation b' = ub_reservation b"
    and "sem_available_permits ops (ub_available b) = sem_available_permits ops (ub_available b') + unat (ub_reservation b)"
    using sem b' by simp_all
qed

lemma permits_refused:
  assumes "counts_permits ops"
  shows "try_acquire ops b = None \<longleftrightarrow> sem_available_permits ops (ub_available b) < unat (ub_reservation b)"
proof -
  have "case sem_try_acquire_many ops (unat (ub_reservation b)) (ub_available b) of
      None \<Rightarrow> sem_available_permits ops (ub_available b) < unat (ub_reservation b)
    | Some s' \<Rightarrow> unat (ub_reservation b) \<le> sem_available_permits ops (ub_available b)
        \<and> sem_available_permits ops s' = sem_available_permits ops (ub_available b) - unat (ub_reservation b)"
    using assms unfolding counts_permits_def by blast
  then show ?thesis by (auto simp: try_acquire_def split: option.splits)
qed

text \<open>Every permit is either available or held by a lease that is alive.\<close>

lemma permits_conserved:
  assumes "counts_permits ops" and "uploads ops m b ls"
  shows "sem_available_permits ops (ub_available b) + length ls * unat (ub_reservation b) = 512
    \<and> unat m + 64 * 2 ^ 20 \<le> unat (ub_reservation b) * 2 ^ 20 \<and> 128 \<le> unat (ub_reservation b)
    \<and> list_all (\<lambda>n. 1 \<le> n) ls"
  using assms(2)
proof induction
  case (opened b)
  then show ?case using new_reservation [OF opened] assms(1) by (simp add: counts_permits_def)
next
  case (acquired b ls b')
  then show ?case using permits_acquired [OF assms(1) acquired(2)] by simp
next
  case (released b ls ls')
  moreover have "sem_available_permits ops (sem_release ops n s) = sem_available_permits ops s + n" for n s
    using assms(1) by (simp add: counts_permits_def)
  ultimately show ?case by (simp add: drop_lease_def algebra_simps)
qed simp_all

text \<open>
  C37.  Uploads never exceed their budget, and the budget is never lost.  Over every interleaving of
  acquiring, cloning and dropping leases at most four uploads are admitted, each with permits for a block
  of the configured size and a batch of 64 MiB, within 512 MiB in all; an upload is refused exactly when
  one more would not fit, so permits come back once the last owner of a lease is gone.
\<close>

theorem uploads_within_budget:
  assumes "counts_permits ops" and "uploads ops m b ls"
  shows "length ls \<le> 4 \<and> length ls * (unat m + 64 * 2 ^ 20) \<le> 512 * 2 ^ 20
    \<and> (try_acquire ops b = None \<longleftrightarrow> 512 < (length ls + 1) * unat (ub_reservation b))"
proof -
  let ?r = "unat (ub_reservation b)"
  note c = permits_conserved [OF assms]
  have "length ls * 128 \<le> length ls * ?r" using c by simp
  moreover have "length ls * ?r \<le> 512" using c by linarith
  moreover have "length ls * (unat m + 64 * 2 ^ 20) \<le> length ls * (?r * 2 ^ 20)" using c by (intro mult_le_mono) simp_all
  moreover have "length ls * (?r * 2 ^ 20) \<le> 512 * 2 ^ 20"
    using mult_le_mono1 [of "length ls * ?r" 512 "2 ^ 20"] \<open>length ls * ?r \<le> 512\<close> by (simp add: mult.assoc)
  moreover have "try_acquire ops b = None \<longleftrightarrow> 512 < (length ls + 1) * ?r"
    using c unfolding permits_refused [OF assms(1)] by auto
  ultimately show ?thesis by (intro conjI) linarith+
qed

definition plain_semaphore :: "nat semaphore" where
  "plain_semaphore =
     \<lparr>sem_new = id, sem_try_acquire_many = (\<lambda>n s. if n \<le> s then Some (s - n) else None),
      sem_release = (\<lambda>n s. s + n), sem_available_permits = id\<rparr>"

theorem uploads_within_budget_witness:
  "\<exists>b. uploads plain_semaphore 1 b [1, 1, 1, 1] \<and> try_acquire plain_semaphore b = None"
proof -
  define b where "b = (\<lambda>n :: nat. \<lparr>ub_available = n, ub_reservation = 128 :: u32\<rparr>)"
  have ok: "counts_permits plain_semaphore" by (simp add: counts_permits_def plain_semaphore_def)
  have step: "uploads plain_semaphore 1 (b (n - 128)) (1 # ls)" if "uploads plain_semaphore 1 (b n) ls" "128 \<le> n" for n ls
    by (rule acquired [OF that(1)]) (use that(2) in \<open>simp add: b_def try_acquire_def plain_semaphore_def\<close>)
  have "upload_budget_new plain_semaphore 1 = Inr (b 512)"
    by (simp add: upload_budget_new_def plain_semaphore_def checked_add_def MIB_def b_def max_def Let_def)
  then have "uploads plain_semaphore 1 (b 512) []" by (rule opened)
  from step [OF step [OF step [OF step [OF this]]]] have four: "uploads plain_semaphore 1 (b 0) [1, 1, 1, 1]" by simp
  with uploads_within_budget [OF ok four] show ?thesis by (auto simp: b_def)
qed

end
