(* ===== verification/Block_Streams.thy ===== *)
theory Block_Streams
  imports Replication Admission
begin

text \<open>
  The streaming block service (\<^verbatim>\<open>kalpakdb/src/grpc.rs\<close>): uploads that arrive in chunks and are committed in
  batches, and downloads in chunks.  The stream of \<^verbatim>\<open>tonic\<close> is the list of what it delivers; its end is the
  end of the stream.
\<close>

section \<open>Uploads\<close>

definition CHUNK_BYTES :: nat where "CHUNK_BYTES = 1024 * 1024"
definition MAX_STREAM_BLOCKS :: nat where "MAX_STREAM_BLOCKS = 4096"
definition MAX_BATCH_BLOCKS :: nat where "MAX_BATCH_BLOCKS = 256"
definition MAX_STREAM_CHUNKS :: nat where "MAX_STREAM_CHUNKS = 65536"
definition FLUSH_BYTES :: nat where "FLUSH_BYTES = 64 * 1024 * 1024"

datatype grpc_code =
  InvalidArgument | ResourceExhausted | DeadlineExceeded | GrpcNotFound | Internal | Unavailable | StreamFailure

datatype grpc_status = Status grpc_code api_message

datatype stream_event = Chunk bytes bool | IdleTimeout | Broken grpc_status

record upload_stream =
  us_blocks :: "bytes list"
  us_staged_bytes :: nat
  us_current :: bytes
  us_ids :: "string list"
  us_block_count :: nat
  us_chunk_count :: nat
  us_block_open :: bool

fun grpc_of_handler :: "handler_error \<Rightarrow> grpc_status" where
  "grpc_of_handler (Api (ApiError _ m)) = Status Internal m"
| "grpc_of_handler HandlerPanic = Status Internal (Text ''task panicked'')"

text \<open>The disk part of a flush runs in a task of its own, under the guard of its blocks.\<close>

definition flush_disk ::
  "data_env \<Rightarrow> nat \<Rightarrow> bytes list \<Rightarrow> data_node \<Rightarrow> (handler_error + block_id list) \<times> data_node" where
  "flush_disk env replicas blocks nd =
     (let guarded = map (block_id_of (de_hash env)) blocks in
      with_guard env guarded (\<lambda>nd.
        case (if 1 < replicas then node_record env guarded replicas nd else (Inr (), nd)) of
          (Inl err, nd) \<Rightarrow> (Inl (Api (api_of_error (Io err))), nd)
        | (Inr _, nd) \<Rightarrow>
            (case node_put_many env blocks nd of
               (Inl err, nd) \<Rightarrow> (Inl (of_store_error err), nd)
             | (Inr is, nd) \<Rightarrow>
                 (case (if 1 < replicas then repair_each env (zip is blocks) nd else (Inr (), nd)) of
                    (Inl err, nd) \<Rightarrow> (Inl (of_store_error err), nd)
                  | (Inr _, nd) \<Rightarrow> (Inr is, nd)))) nd)"

fun acknowledge_each ::
  "data_env \<Rightarrow> nat \<Rightarrow> (block_id \<times> bytes) list \<Rightarrow> data_node \<Rightarrow> (api_message + unit) \<times> data_node" where
  "acknowledge_each env replicas [] nd = (Inr (), nd)"
| "acknowledge_each env replicas ((i, p) # xs) nd =
     (case acknowledge_replicas env ''/v1/blocks'' p (ExpectId (block_id_to_string (de_hex env) i)) replicas nd of
        (Inl m, nd) \<Rightarrow> (Inl m, nd)
      | (Inr _, nd) \<Rightarrow> acknowledge_each env replicas xs nd)"

definition flush_blocks ::
  "data_env \<Rightarrow> nat \<Rightarrow> bytes list \<Rightarrow> data_node \<Rightarrow> (grpc_status + block_id list) \<times> data_node" where
  "flush_blocks env replicas blocks nd =
     (case flush_disk env replicas blocks nd of
        (Inl err, nd) \<Rightarrow> (Inl (grpc_of_handler err), nd)
      | (Inr is, nd) \<Rightarrow>
          (case (if 1 < replicas then acknowledge_each env replicas (zip is blocks) nd else (Inr (), nd)) of
             (Inl m, nd) \<Rightarrow> (Inl (Status Unavailable m), nd)
           | (Inr _, nd) \<Rightarrow> (Inr is, nd)))"

text \<open>One chunk of an upload.\<close>

definition put_chunk ::
  "data_env \<Rightarrow> nat \<Rightarrow> nat \<Rightarrow> bytes \<Rightarrow> bool \<Rightarrow> upload_stream \<Rightarrow> data_node \<Rightarrow> (grpc_status + upload_stream) \<times> data_node" where
  "put_chunk env max_block replicas data last_chunk us nd =
     (let us = us\<lparr>us_chunk_count := us_chunk_count us + 1\<rparr> in
      if MAX_STREAM_CHUNKS < us_chunk_count us
      then (Inl (Status ResourceExhausted (Text ''too many chunks in upload'')), nd)
      else if us_block_count us = MAX_STREAM_BLOCKS
      then (Inl (Status ResourceExhausted (Text ''too many blocks in upload'')), nd)
      else if max_block - length (us_current us) < length data
      then (Inl (Status ResourceExhausted (Text (''block exceeds '' @ decimal max_block @ '' bytes''))), nd)
      else
        let us = us\<lparr>us_current := us_current us @ data, us_block_open := \<not> last_chunk\<rparr> in
        if \<not> last_chunk then (Inr us, nd)
        else
          let us = us\<lparr>us_block_count := us_block_count us + 1,
                us_staged_bytes := us_staged_bytes us + length (us_current us),
                us_blocks := us_blocks us @ [us_current us], us_current := []\<rparr>
          in if FLUSH_BYTES \<le> us_staged_bytes us \<or> MAX_BATCH_BLOCKS \<le> length (us_blocks us)
             then case flush_blocks env replicas (us_blocks us) nd of
               (Inl st, nd) \<Rightarrow> (Inl st, nd)
             | (Inr is, nd) \<Rightarrow>
                 (Inr (us\<lparr>us_blocks := [], us_staged_bytes := 0,
                    us_ids := us_ids us @ map (block_id_to_string (de_hex env)) is\<rparr>), nd)
             else (Inr us, nd))"

fun put_stream ::
  "data_env \<Rightarrow> nat \<Rightarrow> nat \<Rightarrow> stream_event list \<Rightarrow> upload_stream \<Rightarrow> data_node \<Rightarrow> (grpc_status + string list) \<times> data_node" where
  "put_stream env max_block replicas [] us nd =
     (if us_block_open us
      then (Inl (Status InvalidArgument (Text ''stream ended mid-block: missing last_chunk'')), nd)
      else if us_blocks us = [] then (Inr (us_ids us), nd)
      else case flush_blocks env replicas (us_blocks us) nd of
        (Inl st, nd) \<Rightarrow> (Inl st, nd)
      | (Inr is, nd) \<Rightarrow> (Inr (us_ids us @ map (block_id_to_string (de_hex env)) is), nd))"
| "put_stream env max_block replicas (IdleTimeout # es) us nd =
     (Inl (Status DeadlineExceeded (Text ''block upload idle timeout'')), nd)"
| "put_stream env max_block replicas (Broken st # es) us nd = (Inl st, nd)"
| "put_stream env max_block replicas (Chunk data last_chunk # es) us nd =
     (case put_chunk env max_block replicas data last_chunk us nd of
        (Inl st, nd) \<Rightarrow> (Inl st, nd)
      | (Inr us, nd) \<Rightarrow> put_stream env max_block replicas es us nd)"

definition new_stream :: upload_stream where
  "new_stream = \<lparr>us_blocks = [], us_staged_bytes = 0, us_current = [], us_ids = [], us_block_count = 0,
     us_chunk_count = 0, us_block_open = False\<rparr>"

text \<open>The reservation is held by the request and its tasks, which have ended when it is answered.\<close>

definition grpc_put_blocks ::
  "'sem semaphore \<Rightarrow> data_env \<Rightarrow> nat \<Rightarrow> (unit + string) option \<Rightarrow> stream_event list \<Rightarrow> 'sem upload_budget \<Rightarrow> data_node
     \<Rightarrow> (grpc_status + string list) \<times> 'sem upload_budget \<times> data_node" where
  "grpc_put_blocks ops env max_block header es b nd =
     (case parse_replicas header of
        Inl m \<Rightarrow> (Inl (Status InvalidArgument (Text m)), b, nd)
      | Inr replicas \<Rightarrow>
          (case try_acquire ops b of
             None \<Rightarrow> (Inl (Status ResourceExhausted (Text ''shared upload budget exhausted'')), b, nd)
           | Some b \<Rightarrow>
               let (r, nd) = put_stream env max_block replicas es new_stream nd in (r, drop_lease ops b, nd)))"

section \<open>Downloads\<close>

function send_chunks :: "bytes \<Rightarrow> nat \<Rightarrow> (bytes \<times> bool) list" where
  "send_chunks shared pos =
     (let total = length shared; stop = min (pos + CHUNK_BYTES) total; chunk = (take (stop - pos) (drop pos shared), stop = total)
      in if stop = total then [chunk] else chunk # send_chunks shared stop)"
  by pat_completeness auto
termination
  by (relation "measure (\<lambda>(shared, pos). length shared - pos)") (auto simp: min_def CHUNK_BYTES_def split: if_splits)

declare send_chunks.simps [simp del]

definition grpc_get_block ::
  "data_env \<Rightarrow> string \<Rightarrow> data_node \<Rightarrow> (grpc_status + (bytes \<times> bool) list) \<times> data_node" where
  "grpc_get_block env text nd =
     (case block_id_from_str (de_unhex env) text of
        Inl _ \<Rightarrow> (Inl (Status InvalidArgument (Text ''malformed block id'')), nd)
      | Inr i \<Rightarrow>
          let (r, t) = tiered_get (de_hash env) (de_cache_insert env) i (dn_store nd); nd = nd\<lparr>dn_store := t\<rparr> in
          (case r of
             Inr p \<Rightarrow> (Inr (send_chunks p 0), nd)
           | Inl (Failure (BlockNotFound j)) \<Rightarrow> (Inl (Status GrpcNotFound (CoreMessage (BlockNotFound j))), nd)
           | Inl (Failure e) \<Rightarrow> (Inl (Status Internal (CoreMessage e)), nd)
           | Inl Panic \<Rightarrow> (Inl (Status StreamFailure (Text ''handler panicked'')), nd)))"

section \<open>The blocks of a stream\<close>

text \<open>
  The blocks that a sequence of chunks spells: \<open>None\<close> when it ends inside a block.  \<open>cur\<close> is the beginning of
  the current block, \<open>opn\<close> whether a block has been begun.
\<close>

fun assemble :: "bool \<Rightarrow> bytes \<Rightarrow> (bytes \<times> bool) list \<Rightarrow> bytes list option" where
  "assemble opn cur [] = (if opn then None else Some [])"
| "assemble opn cur ((d, l) # cs) =
     (if l then map_option ((#) (cur @ d)) (assemble False [] cs) else assemble True (cur @ d) cs)"

definition stream_ok :: "nat \<Rightarrow> upload_stream \<Rightarrow> bool" where
  "stream_ok max_block us \<longleftrightarrow>
     us_staged_bytes us = sum_list (map length (us_blocks us)) \<and> us_staged_bytes us < FLUSH_BYTES
     \<and> length (us_blocks us) < MAX_BATCH_BLOCKS \<and> length (us_current us) \<le> max_block
     \<and> us_block_count us \<le> MAX_STREAM_BLOCKS \<and> us_chunk_count us \<le> MAX_STREAM_CHUNKS
     \<and> (us_block_open us \<or> us_current us = [])"

text \<open>The peers that vouched for a block.\<close>

definition copies_vouched :: "data_env \<Rightarrow> nat \<Rightarrow> bytes \<Rightarrow> bool" where
  "copies_vouched env n p \<longleftrightarrow>
     (let i = block_id_of (de_hash env) p in
      \<exists>ps. length ps + 1 = n \<and> distinct (map fst ps) \<and> distinct (map snd ps)
        \<and> set ps \<subseteq> set (peer_nodes (de_metrics env))
        \<and> (\<forall>(node, addr)\<in>set ps. vouched env ''/v1/blocks'' p (ExpectId (block_id_to_string (de_hex env) i)) [i] node addr))"

definition stored :: "data_env \<Rightarrow> bytes list \<Rightarrow> data_node \<Rightarrow> bool" where
  "stored env ps nd \<longleftrightarrow> (\<forall>p\<in>set ps. contains_block (cold (dn_store nd)) (block_id_of (de_hash env) p))"

definition keeps_blocks :: "data_node \<Rightarrow> data_node \<Rightarrow> bool" where
  "keeps_blocks nd nd' \<longleftrightarrow> (\<forall>i. contains_block (cold (dn_store nd)) i \<longrightarrow> contains_block (cold (dn_store nd')) i)"

lemma keeps_refl: "keeps_blocks nd nd"
  by (simp add: keeps_blocks_def)

lemma keeps_trans: "keeps_blocks a b \<Longrightarrow> keeps_blocks b c \<Longrightarrow> keeps_blocks a c"
  by (simp add: keeps_blocks_def)

lemma stored_keeps: "stored env ps nd \<Longrightarrow> keeps_blocks nd nd' \<Longrightarrow> stored env ps nd'"
  by (simp add: stored_def keeps_blocks_def)

lemma keeps_same_store: "dn_store nd' = dn_store nd \<Longrightarrow> keeps_blocks nd nd'"
  by (simp add: keeps_blocks_def)

lemma put_many_call_keeps:
  assumes "node_put_many env ps nd = (r, nd')"
  shows "keeps_blocks nd nd'" and "r = Inr is \<Longrightarrow> stored env ps nd'"
proof -
  obtain f nd0 q st where f: "take_fault nd = (f, nd0)"
    and put: "put_many (de_hash env) f ps (cold (dn_store nd)) = (q, st)" by fastforce
  have cold: "cold (fold (\<lambda>(i, p). warm_insert ins i p) xs t) = cold t" for xs t and ins :: cache_insert
    by (induction xs arbitrary: t) auto
  have new: "cold (dn_store nd') = st" "r = q"
    using assms f put take_fault_fields [OF f]
    by (auto simp: node_put_many_def tiered_put_many_def cold split: prod.splits sum.splits)
  note k = put_many_inner_keeps [OF put [unfolded put_many_def]]
  show "keeps_blocks nd nd'" using k(1) new by (simp add: keeps_blocks_def)
  show "stored env ps nd'" if "r = Inr is" using k(2) that new by (auto simp: stored_def)
qed

lemma repair_call_keeps:
  assumes "node_repair env i p nd = (r, nd')"
  shows "keeps_blocks nd nd'"
proof -
  obtain f nd0 q st where f: "take_fault nd = (f, nd0)"
    and rep: "repair_block (de_hash env) f i p (cold (dn_store nd)) = (q, st)" by fastforce
  have "cold (dn_store nd') = st"
    using assms f rep take_fault_fields [OF f]
    by (auto simp: node_repair_def tiered_repair_def split: prod.splits sum.splits)
  then show ?thesis using repair_keeps(1) [OF rep] by (simp add: keeps_blocks_def)
qed

lemma repair_each_keeps_blocks: "repair_each env xs nd = (r, nd') \<Longrightarrow> keeps_blocks nd nd'"
proof (induction env xs nd rule: repair_each.induct)
  case (2 env i p xs nd)
  then show ?case
    by (auto dest!: repair_call_keeps split: prod.splits sum.splits intro: keeps_trans)
qed (simp add: keeps_refl)

lemma flush_disk_stores:
  assumes "flush_disk env n ps nd = (Inr is, nd')" and "lists_set (de_order env)"
  shows "is = map (block_id_of (de_hash env)) ps \<and> stored env ps nd' \<and> keeps_blocks nd nd'"
proof -
  define rest where "rest = (\<lambda>nd. case (if 1 < n then node_record env (map (block_id_of (de_hash env)) ps) n nd else (Inr (), nd)) of
          (Inl err, nd) \<Rightarrow> (Inl (Api (api_of_error (Io err))), nd)
        | (Inr _, nd) \<Rightarrow>
            (case node_put_many env ps nd of
               (Inl err, nd) \<Rightarrow> (Inl (of_store_error err), nd)
             | (Inr is, nd) \<Rightarrow>
                 (case (if 1 < n then repair_each env (zip is ps) nd else (Inr (), nd)) of
                    (Inl err, nd) \<Rightarrow> (Inl (of_store_error err), nd)
                  | (Inr _, nd) \<Rightarrow> (Inr is, nd))))"
  from assms(1) have "with_guard env (map (block_id_of (de_hash env)) ps) rest nd = (Inr is, nd')"
    unfolding flush_disk_def Let_def rest_def .
  from this assms(2) obtain nd1 nd2 where g: "rest nd1 = (Inr is, nd2)" "dn_store nd1 = dn_store nd" "dn_store nd' = dn_store nd2"
    by (rule with_guard_ok) auto
  obtain r1 nd3 js nd4 r2 where rec: "(if 1 < n then node_record env (map (block_id_of (de_hash env)) ps) n nd1 else (Inr (), nd1)) = (r1, nd3)"
    and put: "node_put_many env ps nd3 = (Inr js, nd4)"
    and rep: "(if 1 < n then repair_each env (zip js ps) nd4 else (Inr (), nd4)) = (r2, nd2)" and js: "js = is"
    using g(1) by (auto simp: rest_def split: prod.splits sum.splits)
  have "dn_store nd3 = dn_store nd1" using rec record_call by (auto split: if_splits)
  moreover have "keeps_blocks nd4 nd2" using rep repair_each_keeps_blocks keeps_refl by (auto split: if_splits)
  moreover note put_many_call_keeps [OF put] put_many_call [OF put]
  ultimately show ?thesis
    using g(2,3) js by (auto simp: keeps_blocks_def stored_def)
qed

lemma acknowledge_each_vouched:
  assumes "acknowledge_each env n (zip (map (block_id_of (de_hash env)) ps) ps) nd = (Inr (), nd')" and "1 < n"
    and "\<And>bs. de_unhex env (de_hex env bs) = Some bs" and "distinct (map fst (member_nodes (de_metrics env)))"
  shows "list_all (copies_vouched env n) ps \<and> keeps_blocks nd nd'"
  using assms(1)
proof (induction ps arbitrary: nd)
  case (Cons p ps)
  let ?i = "block_id_of (de_hash env) p"
  let ?e = "ExpectId (block_id_to_string (de_hex env) ?i)"
  obtain nd1 where ack: "acknowledge_replicas env ''/v1/blocks'' p ?e n nd = (Inr (), nd1)"
    and rest: "acknowledge_each env n (zip (map (block_id_of (de_hash env)) ps) ps) nd1 = (Inr (), nd')"
    using Cons.prems by (auto split: prod.splits sum.splits)
  have "expected_ids env ?e = Inr [?i]" using parse_own_id(1) [OF assms(3)] by simp
  with ack assms(2) have "copies_vouched env n p \<and> keeps_blocks nd nd1"
    by (rule acknowledged [OF _ _ _ assms(4)]) (auto simp: copies_vouched_def keeps_blocks_def Let_def)
  with Cons.IH [OF rest] show ?case using keeps_trans by auto
qed (simp add: keeps_refl)

text \<open>A flush that succeeds stored its blocks, with their copies.\<close>

lemma flush_stores:
  assumes "flush_blocks env n ps nd = (Inr is, nd')" and "lists_set (de_order env)"
    and "\<And>bs. de_unhex env (de_hex env bs) = Some bs" and "distinct (map fst (member_nodes (de_metrics env)))"
  shows "is = map (block_id_of (de_hash env)) ps \<and> stored env ps nd' \<and> keeps_blocks nd nd'
    \<and> (1 < n \<longrightarrow> list_all (copies_vouched env n) ps)"
proof -
  obtain nd1 where disk: "flush_disk env n ps nd = (Inr is, nd1)"
    and ack: "(if 1 < n then acknowledge_each env n (zip is ps) nd1 else (Inr (), nd1)) = (Inr (), nd')"
    using assms(1) by (auto simp: flush_blocks_def split: prod.splits sum.splits)
  note d = flush_disk_stores [OF disk assms(2)]
  have "keeps_blocks nd1 nd' \<and> (1 < n \<longrightarrow> list_all (copies_vouched env n) ps)"
  proof (cases "1 < n")
    case True
    then show ?thesis using acknowledge_each_vouched [OF _ True assms(3,4), of ps nd1 nd'] ack d by simp
  qed (use ack keeps_refl in auto)
  then show ?thesis using d stored_keeps keeps_trans by blast
qed

section \<open>One chunk\<close>

lemma put_chunk_cases:
  assumes "put_chunk env max_block n d l us nd = (Inr us', nd')"
  obtains (part) "\<not> l" "nd' = nd" "us' = us\<lparr>us_chunk_count := us_chunk_count us + 1, us_current := us_current us @ d, us_block_open := True\<rparr>"
    | (staged) us1 where "l" "nd' = nd" "us' = us1" "us1 = us\<lparr>us_chunk_count := us_chunk_count us + 1, us_block_open := False,
          us_block_count := us_block_count us + 1, us_staged_bytes := us_staged_bytes us + length (us_current us @ d),
          us_blocks := us_blocks us @ [us_current us @ d], us_current := []\<rparr>"
        "us_staged_bytes us1 < FLUSH_BYTES" "length (us_blocks us1) < MAX_BATCH_BLOCKS"
    | (flushed) "is" where "l" "flush_blocks env n (us_blocks us @ [us_current us @ d]) nd = (Inr is, nd')"
        "us' = us\<lparr>us_chunk_count := us_chunk_count us + 1, us_block_open := False, us_block_count := us_block_count us + 1,
          us_staged_bytes := 0, us_blocks := [], us_current := [], us_ids := us_ids us @ map (block_id_to_string (de_hex env)) is\<rparr>"
proof (cases l)
  case False
  then show thesis using assms part by (auto simp: put_chunk_def Let_def split: if_splits)
next
  case True
  define us1 where "us1 = us\<lparr>us_chunk_count := us_chunk_count us + 1, us_block_open := False,
      us_block_count := us_block_count us + 1, us_staged_bytes := us_staged_bytes us + length (us_current us @ d),
      us_blocks := us_blocks us @ [us_current us @ d], us_current := []\<rparr>"
  obtain r nd2 where fl: "flush_blocks env n (us_blocks us @ [us_current us @ d]) nd = (r, nd2)" by fastforce
  show thesis
  proof (cases "FLUSH_BYTES \<le> us_staged_bytes us1 \<or> MAX_BATCH_BLOCKS \<le> length (us_blocks us1)")
    case full: True
    then obtain "is" where "r = Inr is"
      using assms True fl by (cases r) (auto simp: put_chunk_def us1_def Let_def split: if_splits)
    then show thesis
      using assms True fl full flushed [of "is"] by (auto simp: put_chunk_def us1_def Let_def split: if_splits)
  next
    case room: False
    then have "us' = us1 \<and> nd' = nd"
      using assms True fl by (auto simp: put_chunk_def us1_def Let_def split: if_splits)
    then show thesis using staged [of us1] room True us1_def by simp
  qed
qed

lemma put_chunk_limits:
  assumes "put_chunk env max_block n d l us nd = (Inr us', nd')"
  shows "us_chunk_count us + 1 \<le> MAX_STREAM_CHUNKS" and "us_block_count us \<noteq> MAX_STREAM_BLOCKS"
    and "length d \<le> max_block - length (us_current us)"
  using assms by (auto simp: put_chunk_def Let_def split: if_splits)

lemma put_chunk_ok:
  assumes "put_chunk env max_block n d l us nd = (Inr us', nd')" and "stream_ok max_block us"
  shows "stream_ok max_block us'"
  using assms(1)
proof (cases rule: put_chunk_cases)
  case part
  then show ?thesis using put_chunk_limits [OF assms(1)] assms(2) by (auto simp: stream_ok_def)
next
  case (staged us1)
  then show ?thesis using put_chunk_limits [OF assms(1)] assms(2) by (auto simp: stream_ok_def)
next
  case (flushed "is")
  then show ?thesis
    using put_chunk_limits [OF assms(1)] assms(2)
    by (auto simp: stream_ok_def FLUSH_BYTES_def MAX_BATCH_BLOCKS_def)
qed

text \<open>The states of an upload while its chunks arrive.\<close>

inductive uploading :: "data_env \<Rightarrow> nat \<Rightarrow> nat \<Rightarrow> upload_stream \<Rightarrow> data_node \<Rightarrow> bool" for env max_block n where
  begun: "uploading env max_block n new_stream nd"
| chunk: "uploading env max_block n us nd \<Longrightarrow> put_chunk env max_block n d l us nd = (Inr us', nd') \<Longrightarrow>
    uploading env max_block n us' nd'"

lemma uploading_ok: "uploading env max_block n us nd \<Longrightarrow> stream_ok max_block us"
proof (induction rule: uploading.induct)
  case (begun nd)
  show ?case by (simp add: stream_ok_def new_stream_def FLUSH_BYTES_def MAX_BATCH_BLOCKS_def)
next
  case (chunk us nd d l us' nd')
  then show ?case using put_chunk_ok by blast
qed

text \<open>
  C36.  A streamed upload never buffers more than its reservation.  In every state of an upload the completed
  blocks that wait for a flush and the block that is being received, also when it grows to its limit, fit
  into the megabytes that admission reserved for one upload; there are fewer than 256 waiting blocks, at
  most 4096 blocks and 65536 chunks.
\<close>

theorem stream_within_reservation:
  assumes "uploading env (unat m) n us nd" and "upload_budget_new ops m = Inr b"
  shows "sum_list (map length (us_blocks us)) + unat m \<le> unat (ub_reservation b) * 2 ^ 20
    \<and> length (us_current us) \<le> unat m \<and> length (us_blocks us) < 256 \<and> us_block_count us \<le> 4096 \<and> us_chunk_count us \<le> 65536"
proof -
  have "stream_ok (unat m) us" using uploading_ok [OF assms(1)] .
  moreover have "unat m + 64 * 2 ^ 20 \<le> unat (ub_reservation b) * 2 ^ 20" by (rule new_reservation(1) [OF assms(2)])
  ultimately show ?thesis
    by (auto simp: stream_ok_def FLUSH_BYTES_def MAX_BATCH_BLOCKS_def MAX_STREAM_BLOCKS_def MAX_STREAM_CHUNKS_def)
qed

section \<open>Whole streams\<close>

text \<open>What a successful stream has committed: the blocks that wait and those that are still to come.\<close>

lemma stream_commits:
  assumes "put_stream env max_block n es us nd = (Inr ids, nd')" and "us_block_open us \<or> us_current us = []"
    and "lists_set (de_order env)"
    and "\<And>bs. de_unhex env (de_hex env bs) = Some bs" and "distinct (map fst (member_nodes (de_metrics env)))"
  shows "\<exists>cs ps. es = map (\<lambda>(d, l). Chunk d l) cs \<and> assemble (us_block_open us) (us_current us) cs = Some ps
    \<and> ids = us_ids us @ map (\<lambda>p. block_id_to_string (de_hex env) (block_id_of (de_hash env) p)) (us_blocks us @ ps)
    \<and> stored env (us_blocks us @ ps) nd' \<and> keeps_blocks nd nd'
    \<and> (1 < n \<longrightarrow> list_all (copies_vouched env n) (us_blocks us @ ps))"
  using assms(1,2)
proof (induction es arbitrary: us nd)
  case Nil
  show ?case
  proof (cases "us_blocks us = []")
    case True
    then show ?thesis
      using Nil by (intro exI [of _ "[]"]) (auto simp: stored_def keeps_refl split: if_splits)
  next
    case False
    then obtain "is" where fl: "flush_blocks env n (us_blocks us) nd = (Inr is, nd')" "\<not> us_block_open us"
      and ids: "ids = us_ids us @ map (block_id_to_string (de_hex env)) is"
      using Nil(1) by (auto split: if_splits prod.splits sum.splits)
    from flush_stores [OF fl(1) assms(3-5)] fl(2) ids show ?thesis
      by (intro exI [of _ "[]"]) (simp add: comp_def)
  qed
next
  case (Cons ev es)
  obtain d l us1 nd1 where ev: "ev = Chunk d l" and step: "put_chunk env max_block n d l us nd = (Inr us1, nd1)"
    and rest: "put_stream env max_block n es us1 nd1 = (Inr ids, nd')"
    using Cons.prems(1) by (cases ev) (auto split: prod.splits sum.splits)
  have closed: "us_block_open us1 \<or> us_current us1 = []" using step by (cases rule: put_chunk_cases) auto
  from Cons.IH [OF rest closed] obtain cs ps where IH: "es = map (\<lambda>(d, l). Chunk d l) cs"
    "assemble (us_block_open us1) (us_current us1) cs = Some ps"
    "ids = us_ids us1 @ map (\<lambda>p. block_id_to_string (de_hex env) (block_id_of (de_hash env) p)) (us_blocks us1 @ ps)"
    "stored env (us_blocks us1 @ ps) nd'" "keeps_blocks nd1 nd'" "1 < n \<longrightarrow> list_all (copies_vouched env n) (us_blocks us1 @ ps)"
    by blast
  have head: "ev # es = map (\<lambda>(d, l). Chunk d l) ((d, l) # cs)" using ev IH(1) by simp
  from step show ?case
  proof (cases rule: put_chunk_cases)
    case part
    with head IH show ?thesis by (intro exI [of _ "(d, l) # cs"] exI [of _ ps]) simp
  next
    case (staged us2)
    with head IH show ?thesis by (intro exI [of _ "(d, l) # cs"] exI [of _ "(us_current us @ d) # ps"]) simp
  next
    case (flushed "is")
    note fl = flush_stores [OF flushed(2) assms(3-5)]
    have "stored env (us_blocks us @ [us_current us @ d]) nd'" using fl stored_keeps IH(5) by blast
    then show ?thesis
      using head IH fl flushed(1,3) keeps_trans [OF _ IH(5)]
      by (intro exI [of _ "(d, l) # cs"] exI [of _ "(us_current us @ d) # ps"]) (auto simp: stored_def)
  qed
qed

section \<open>Downloads\<close>

lemma send_chunks_spell:
  assumes "pos \<le> length p"
  shows "assemble opn cur (send_chunks p pos) = Some [cur @ drop pos p]
    \<and> list_all (\<lambda>(d, _). length d \<le> CHUNK_BYTES) (send_chunks p pos)"
  using assms
proof (induction p pos arbitrary: opn cur rule: send_chunks.induct)
  case (1 p pos)
  define stop where "stop = min (pos + CHUNK_BYTES) (length p)"
  have short: "length (take (stop - pos) (drop pos p)) \<le> CHUNK_BYTES" by (simp add: stop_def)
  show ?case
  proof (cases "stop = length p")
    case True
    then have "send_chunks p pos = [(drop pos p, True)]"
      by (subst send_chunks.simps) (simp add: Let_def stop_def)
    then show ?thesis using short True by simp
  next
    case False
    then have run: "send_chunks p pos = (take (stop - pos) (drop pos p), False) # send_chunks p stop"
      by (subst send_chunks.simps) (simp add: Let_def stop_def)
    have "stop \<le> length p" "pos \<le> stop" using "1.prems" by (simp_all add: stop_def)
    then have "drop pos p = take (stop - pos) (drop pos p) @ drop stop p"
      using append_take_drop_id [of "stop - pos" "drop pos p"] by simp
    moreover note "1.IH" [OF refl stop_def refl False \<open>stop \<le> length p\<close>, of True "cur @ take (stop - pos) (drop pos p)"]
    ultimately show ?thesis using run short by simp
  qed
qed

text \<open>
  C35.  A streamed upload commits exactly the blocks its chunks spell.  When an upload is answered with
  identifiers, the stream consisted of chunks that end with a complete block, the identifiers are the
  addresses of these blocks in order, every one of them is in the store, earlier blocks are still there, and
  with a replica requirement enough other members vouched for each.  The chunks of a download spell exactly
  the stored block, none longer than a mebibyte, so that they can be sent back as an upload.
\<close>

theorem stream_commits_blocks:
  assumes "lists_set (de_order env)" and "\<And>bs. de_unhex env (de_hex env bs) = Some bs"
    and "distinct (map fst (member_nodes (de_metrics env)))"
  shows "(grpc_put_blocks ops env max_block header es b nd = (Inr ids, b', nd') \<longrightarrow>
            (\<exists>cs ps n. parse_replicas header = Inr n \<and> es = map (\<lambda>(d, l). Chunk d l) cs \<and> assemble False [] cs = Some ps
               \<and> ids = map (\<lambda>p. block_id_to_string (de_hex env) (block_id_of (de_hash env) p)) ps
               \<and> stored env ps nd' \<and> keeps_blocks nd nd' \<and> (1 < n \<longrightarrow> list_all (copies_vouched env n) ps)))
       \<and> (grpc_get_block env text nd = (Inr cs, nd') \<longrightarrow>
            (\<exists>i p. block_id_from_str (de_unhex env) text = Inr i
               \<and> fst (tiered_get (de_hash env) (de_cache_insert env) i (dn_store nd)) = Inr p
               \<and> assemble False [] cs = Some [p] \<and> list_all (\<lambda>(d, _). length d \<le> CHUNK_BYTES) cs))"
proof (intro conjI impI)
  assume "grpc_put_blocks ops env max_block header es b nd = (Inr ids, b', nd')"
  then obtain n where n: "parse_replicas header = Inr n" and run: "put_stream env max_block n es new_stream nd = (Inr ids, nd')"
    by (auto simp: grpc_put_blocks_def split: sum.splits option.splits prod.splits)
  from stream_commits [OF run _ assms] n
  show "\<exists>cs ps n. parse_replicas header = Inr n \<and> es = map (\<lambda>(d, l). Chunk d l) cs \<and> assemble False [] cs = Some ps
      \<and> ids = map (\<lambda>p. block_id_to_string (de_hex env) (block_id_of (de_hash env) p)) ps
      \<and> stored env ps nd' \<and> keeps_blocks nd nd' \<and> (1 < n \<longrightarrow> list_all (copies_vouched env n) ps)"
    by (simp add: new_stream_def)
next
  assume "grpc_get_block env text nd = (Inr cs, nd')"
  then obtain i p where "block_id_from_str (de_unhex env) text = Inr i"
    "fst (tiered_get (de_hash env) (de_cache_insert env) i (dn_store nd)) = Inr p" "cs = send_chunks p 0"
    by (auto simp: grpc_get_block_def Let_def split: sum.splits prod.splits store_error.splits error.splits)
  then show "\<exists>i p. block_id_from_str (de_unhex env) text = Inr i
      \<and> fst (tiered_get (de_hash env) (de_cache_insert env) i (dn_store nd)) = Inr p
      \<and> assemble False [] cs = Some [p] \<and> list_all (\<lambda>(d, _). length d \<le> CHUNK_BYTES) cs"
    using send_chunks_spell [of 0 p] by simp
qed

section \<open>A concrete stream\<close>

text \<open>A block of three bytes that arrives in two chunks, on the node of the previous theory.\<close>

definition example_stream :: "stream_event list" where
  "example_stream = [Chunk [1] False, Chunk [2, 3] True]"

definition first_chunk :: upload_stream where
  "first_chunk = new_stream\<lparr>us_chunk_count := 1, us_current := [1], us_block_open := True\<rparr>"

lemma first_chunk_run: "put_chunk example_data_env 1024 1 [1] False new_stream nd = (Inr first_chunk, nd)"
  by (simp add: put_chunk_def new_stream_def first_chunk_def MAX_STREAM_CHUNKS_def MAX_STREAM_BLOCKS_def)

theorem stream_within_reservation_witness:
  "\<exists>b. upload_budget_new plain_semaphore 1024 = Inr b \<and> uploading example_data_env 1024 1 first_chunk example_node
     \<and> sum_list (map length (us_blocks first_chunk)) + 1024 \<le> unat (ub_reservation b) * 2 ^ 20"
proof -
  have "uploading example_data_env 1024 1 first_chunk example_node"
    using uploading.chunk [OF uploading.begun first_chunk_run] .
  moreover obtain b where b: "upload_budget_new plain_semaphore 1024 = Inr b"
    by (simp add: upload_budget_new_def checked_add_def MIB_def Let_def)
  ultimately show ?thesis using stream_within_reservation [OF _ b, of example_data_env 1 first_chunk example_node] by auto
qed

lemma example_flush:
  obtains "is" nd where "flush_blocks example_data_env 1 [upload_body] example_node = (Inr is, nd)"
proof -
  obtain rt fs where guard: "protect sum_hash order_list NoFault [upload_id] new_journal journal_fs = (Inr {|upload_id|}, rt, fs)"
      "drop_guard (order_list {|upload_id|}) rt \<noteq> None"
    by (rule example_guard)
  obtain js where "fst (put_many sum_hash NoFault [upload_body] empty_store) = Inr js"
    using put_many_inner_succeeds [OF empty_store_ok, of False] unfolding put_many_def by blast
  then obtain st where "put_many sum_hash NoFault [upload_body] empty_store = (Inr js, st)"
    by (metis prod.collapse)
  then show thesis
    using guard that
    by (auto simp: flush_blocks_def flush_disk_def with_guard_def take_fault_def node_put_many_def tiered_put_many_def
        tiered_new_def example_node_def example_data_env_def block_id_of_def sum_hash_def Let_def)
qed

theorem stream_commits_blocks_witness:
  "\<exists>ids b nd. grpc_put_blocks plain_semaphore example_data_env 1024 None example_stream
       \<lparr>ub_available = 512, ub_reservation = 128\<rparr> example_node = (Inr ids, b, nd)
     \<and> ids = [block_id_to_string simple_hex_encode upload_id] \<and> stored example_data_env [upload_body] nd"
proof -
  let ?env = example_data_env
  have env: "lists_set (de_order ?env)" "\<And>bs. de_unhex ?env (de_hex ?env bs) = Some bs"
      "distinct (map fst (member_nodes (de_metrics ?env)))" "de_hex ?env = simple_hex_encode" "de_hash ?env = sum_hash"
    by (simp_all add: example_data_env_def order_list_ok simple_hex_roundtrip)
  obtain "is" nd where fl: "flush_blocks ?env 1 [upload_body] example_node = (Inr is, nd)" by (rule example_flush)
  have "put_chunk ?env 1024 1 [2, 3] True first_chunk example_node = (Inr (first_chunk\<lparr>us_chunk_count := 2, us_current := [],
      us_block_open := False, us_block_count := 1, us_staged_bytes := 3, us_blocks := [upload_body]\<rparr>), example_node)"
    by (simp add: put_chunk_def first_chunk_def new_stream_def MAX_STREAM_CHUNKS_def MAX_STREAM_BLOCKS_def FLUSH_BYTES_def
        MAX_BATCH_BLOCKS_def)
  then have "put_stream ?env 1024 1 example_stream new_stream example_node
      = (Inr (map (block_id_to_string (de_hex ?env)) is), nd)"
    using fl first_chunk_run by (simp add: example_stream_def first_chunk_def new_stream_def)
  then obtain ids b where run: "grpc_put_blocks plain_semaphore ?env 1024 None example_stream
      \<lparr>ub_available = 512, ub_reservation = 128\<rparr> example_node = (Inr ids, b, nd)"
    by (simp add: grpc_put_blocks_def parse_replicas_def try_acquire_def plain_semaphore_def)
  obtain cs ps n where c: "example_stream = map (\<lambda>(d, l). Chunk d l) cs" "assemble False [] cs = Some ps"
    "ids = map (\<lambda>p. block_id_to_string (de_hex ?env) (block_id_of (de_hash ?env) p)) ps" "stored ?env ps nd"
    using conjunct1 [OF stream_commits_blocks [OF env(1-3), of plain_semaphore 1024 None example_stream
      "\<lparr>ub_available = 512, ub_reservation = 128\<rparr>" example_node ids b nd]] run by blast
  have "cs = [([1], False), ([2, 3], True)]" using c(1) by (auto simp: example_stream_def)
  then have "ps = [upload_body]" using c(2) by simp
  then show ?thesis using run c(3,4) by (auto simp: env(4,5) block_id_of_def sum_hash_def)
qed

end
