(* ===== verification/Spec2Isabelle.thy ===== *)
theory Spec2Isabelle
  imports Node_Restart Manifest Lease_Expiry Block_Streams
begin

text \<open>
  A verification library for kalpakdb, a content-addressed store for the key/value tensor blocks of
  language models, with metadata replicated by Raft.  Paths below are relative to \<^verbatim>\<open>src/crates\<close>.

  \<^bold>\<open>The program.\<close>  A node has three parts.  The data plane stores blocks under the BLAKE3 hash of their
  bytes in append-only segment files (\<^verbatim>\<open>kalpak-storage\<close>), below a pinned and a warm cache tier.  The
  control plane (\<^verbatim>\<open>kalpak-control\<close>) replicates agents, prefix bindings, upload leases and replica
  requirements: requests go through openraft, are applied in log order by a deterministic state machine,
  and are kept in a durable log and in snapshots.  The server (\<^verbatim>\<open>kalpakdb\<close>) checks the signature of
  each metadata request, checks the named blocks against its local store, submits the request or
  forwards it to the leader, and keeps three local files: the retention journal of uploads, the repair
  requirements and the store generation.  \<^verbatim>\<open>kalpak-core\<close> defines identifiers, cache keys and the signed
  messages.

  \<^bold>\<open>Identifiers and messages.\<close>
    \<^item> \<open>Kalpak_Prelude\<close> holds the types of machine words and byte strings, little-endian encodings, the
      lemmas on finite maps, folds and words that the components share, and the ordered traversal of a
      \<^verbatim>\<open>BTreeMap\<close>.
    \<^item> \<open>Kalpak_Core\<close> models \<^verbatim>\<open>kalpak-core/src/{block,identity,cache_key,error}.rs\<close>.  A cache key of a
      chain identifies the token prefix and the model, given a hash without collisions on the inputs used.
    \<^item> \<open>Encoders\<close> is a library of self-delimiting encodings as a locale with pairs and counted sequences;
      \<open>Signing\<close> models the seven messages of \<^verbatim>\<open>kalpak-core/src/signing.rs\<close> over it and shows which
      requests share a message.

  \<^bold>\<open>The metadata state machine.\<close>
    \<^item> \<open>Metadata_Types\<close> has \<^verbatim>\<open>kalpak-control/src/types.rs\<close> and the state records, \<open>Leases\<close> the operations of
      \<^verbatim>\<open>kalpak-control/src/leases.rs\<close>, \<open>State_Machine\<close> the function \<open>apply_one\<close> with its fences, reference
      counters and bindings.  The result \<open>None\<close> is a panic.
    \<^item> \<open>Lease_Invariant\<close> and \<open>Metadata_Invariant\<close> define \<open>state_inv\<close> and show that every request preserves it and
      that no request panics in it.  The locales \<open>apply_invariant\<close> and \<open>apply_preorder\<close> lift a step property
      to runs; they are interpreted for the invariant, the exact reference counts (\<open>Reference_Counts\<close>), the
      phases of leases and their commits, one per key and revision (\<open>Lease_Lifecycle\<close>), and the growth of the replicated facts
      (\<open>Control_Properties\<close>).
    \<^item> \<open>Durability\<close> models \<^verbatim>\<open>kalpak-control/src/durability.rs\<close> on a file system that separates contents that are
      visible from those that survive a crash, for files and for directory entries.  \<open>Snapshot\<close> and
      \<open>Snapshot_Recovery\<close> model the six snapshot layouts, building, installing and opening, with the round
      trip of every reachable state and recovery after each failing call or crash: whichever snapshot is
      found, replaying the entries behind it gives the state of a node that never restarted.
    \<^item> \<open>Log_Store\<close> and \<open>Log_Recovery\<close> model \<^verbatim>\<open>kalpak-control/src/log_store.rs\<close> in the same way; \<open>Node_Restart\<close> joins log
      and snapshot to the start-up check of \<^verbatim>\<open>kalpak-control/src/lib.rs\<close>.
    \<^item> \<open>Control_Plane\<close> has the calls and queries of \<^verbatim>\<open>kalpak-control/src/lib.rs\<close>; \<open>Control_Properties\<close> shows that
      they report the verdict of the state machine, that acknowledged leases are applied, and that each
      change of a claim on a block moves its fence.

  \<^bold>\<open>The data plane.\<close>
    \<^item> \<open>Segment\<close> models \<^verbatim>\<open>kalpak-storage/src/segment.rs\<close>, including the wrap-around of \<open>record_len\<close> at 64 bits.
    \<^item> \<open>Block_Store\<close> and \<open>Compaction\<close> model \<^verbatim>\<open>kalpak-storage/src/{store,io}.rs\<close> with failing calls;
      \<open>Block_Store_Refinement\<close> abstracts a store to a list of records per file and shows that a put is an
      insertion into a map from hashes to bytes; \<open>Block_Store_Properties\<close> has failure, repair and reopening.
    \<^item> \<open>Tiered\<close> models \<^verbatim>\<open>kalpak-storage/src/tiered.rs\<close>, \<open>Manifest\<close> models \<^verbatim>\<open>kalpak-storage/src/manifest.rs\<close>.

  \<^bold>\<open>The server.\<close>
    \<^item> \<open>Retention\<close> models \<^verbatim>\<open>kalpakdb/src/retention.rs\<close>: the journal of guarded blocks across crashes, and the
      exclusion between upload guards and release checks over every interleaving.
    \<^item> \<open>Repair_Log\<close> models \<^verbatim>\<open>kalpakdb/src/repair.rs\<close>: intents and observations across crashes.  The locale
      \<open>paged_scan\<close> shows how a loop that pages through an ordered map with a cursor passes every entry, also when
      it leaves a page early; it is interpreted for the local intents and for the loop of the leader, which
      stops at a block that finds no upload slot.
    \<^item> \<open>Request_Handlers\<close> models \<^verbatim>\<open>kalpakdb/src/leases.rs\<close> and the signed metadata routes of \<^verbatim>\<open>kalpakdb/src/server.rs\<close>:
      only signed requests have an effect on them, a follower passes a request on unchanged, a lookup finds the longest
      bound prefix.
    \<^item> \<open>Batch_Framing\<close> models the body of a batch upload, written by \<^verbatim>\<open>kalpak-client/src/lib.rs\<close> and read by the server;
      \<open>Admission\<close> models \<^verbatim>\<open>kalpakdb/src/admission.rs\<close> over every interleaving of shared leases.
    \<^item> \<open>Data_Plane\<close> models the block routes of \<^verbatim>\<open>kalpakdb/src/server.rs\<close> on a record of the components they change:
      uploads with replica acknowledgements, presence answers, and reads that fetch from peers.  \<open>Replication\<close>
      shows what an acknowledged upload means and that a read returns only the block that was asked for.
    \<^item> \<open>Block_Streams\<close> models \<^verbatim>\<open>kalpakdb/src/grpc.rs\<close>: the chunks of an upload, its batches and its limits, and the chunks
      of a download.  An upload commits the blocks its chunks spell and buffers no more than its reservation.
    \<^item> \<open>Lease_Expiry\<close> models the expiry loop of \<^verbatim>\<open>kalpakdb/src/leases.rs\<close> and bounds the number of answered
      rounds until a due lease is recorded as expired, under a consensus that may fail in any round.

  \<^bold>\<open>Correspondence.\<close>  Structs are records, enums datatypes, \<^verbatim>\<open>Result\<close> is a sum with the error on the left.
  Integers that can wrap are words of their width; lengths are natural numbers.  An operation under a
  lock is one function on the state.  An operation that touches files takes a \<open>fault\<close>, which names the call
  that fails and how much of a write had happened, and returns the file system; a crash then keeps any
  state that the durable contents allow.  Hash maps are finite maps; where the code iterates over one, the
  order is an argument.

  \<^bold>\<open>Parameters.\<close>  BLAKE3, hex, Ed25519, serde_json, bincode, the eviction of moka, consensus (\<open>client_write\<close>) and
  the network (\<open>post\<close>) are arguments.  What is assumed of them is a named hypothesis: decoding returns what was
  encoded, the hash has no collision on the inputs at hand, consensus applies each request it answers to
  the current state, and for the expiry loop that no other requests are submitted.  Each theorem with such a hypothesis is applied to a concrete instance.

  \<^bold>\<open>Bounds and fuel.\<close>  No definition uses fuel.  The scan of a segment is a partial function, since it does not
  return on a wrapped length; it is shown to return on a file below \<open>2\<^sup>6\<^sup>2\<close> bytes
  when the length fields it visits are below \<open>2\<^sup>6\<^sup>3\<close>.  Results that
  depend on a counter not wrapping say so: reference counts below \<open>2\<^sup>3\<^sup>2\<close>, positions of the log below
  \<open>2\<^sup>6\<^sup>4\<close>, encoded lengths within the width of their length field.

  \<^bold>\<open>Not modelled.\<close>
    \<^item> openraft itself, its start and membership calls in \<^verbatim>\<open>kalpak-control/src/lib.rs\<close>, and \<^verbatim>\<open>network.rs\<close>: the protocol
      is third-party code, of which the model uses only that entries are applied in order.
    \<^item> \<^verbatim>\<open>kalpak-storage/src/uring.rs\<close>: unsafe calls into the kernel ring, with the contract of the portable backend.
    \<^item> \<^verbatim>\<open>kalpak-storage/src/{scrub,online_scrub}.rs\<close> and \<^verbatim>\<open>kalpakdb/src/online_scrub.rs\<close>: they depend on file identities,
      locks between processes and timers; the check of a block that they run is modelled.
    \<^item> In \<^verbatim>\<open>kalpakdb/src/server.rs\<close> start-up, TLS, backup stream, metrics text and websocket; \<^verbatim>\<open>main.rs\<close>,
      \<^verbatim>\<open>pki.rs\<close>, \<^verbatim>\<open>stress.rs\<close> and the rest of \<^verbatim>\<open>kalpak-client\<close>: calls into the HTTP, command line and certificate
      libraries; \<^verbatim>\<open>kalpak-proto\<close> is generated.
    \<^item> \<^verbatim>\<open>kalpakdb/src/reclamation.rs\<close>: a report that combines queries and never acts; and what the repair loop in
      \<^verbatim>\<open>kalpakdb/src/repair.rs\<close> does for one block of a page, which repeats the calls of an upload.
    \<^item> Threads: interleavings are modelled where shared holders matter (\<open>Retention\<close>, \<open>Admission\<close>); elsewhere
      the operations are atomic.
\<close>

end
